(* ===== verification/Prelude.thy ===== *)
theory Prelude
  imports Main "HOL-Library.Word" "HOL-Library.Char_ord" "HOL-Library.List_Lexorder"
begin

text \<open>
  Shared vocabulary of the development: bytes and Go strings, the error values that the program's
  functions return, and the generic facts about lists, words and characters the components rely on.

  A Go \<^verbatim>\<open>string\<close> is a sequence of bytes; it is a HOL \<open>string\<close> (a \<open>char list\<close>, one
  \<open>char\<close> per byte), and a Go \<^verbatim>\<open>[]byte\<close> is a list of 8-bit words. The conversions
  \<^verbatim>\<open>[]byte(s)\<close> and \<^verbatim>\<open>string(b)\<close> are \<open>bytes_of\<close> and \<open>string_of\<close>.

  A slice that may be \<^verbatim>\<open>nil\<close> is an \<open>option\<close> of a list (\<open>None\<close> is \<^verbatim>\<open>nil\<close>) wherever
  the code tells \<^verbatim>\<open>nil\<close> from empty; elsewhere it is a plain list.
\<close>

unbundle bit_operations_syntax

type_synonym byte = "8 word"
type_synonym bytes = "byte list"

text \<open>
  The collections that the components' proofs use: \<open>go_defs\<close> holds the equations of
  straight-line definitions, \<open>byte_simps\<close> the facts on bytes and characters.
\<close>

named_theorems go_defs
named_theorems byte_simps

subsection \<open>Error values\<close>

text \<open>
  An \<^verbatim>\<open>error\<close> of the program. The first constructors are the standard library's sentinels that
  the code compares against, \<open>ErrExtraData\<close> and \<open>ErrNoDecompressor\<close> are the program's own;
  \<open>ErrNew\<close> is an error made from a text (\<^verbatim>\<open>errors.New\<close>, \<^verbatim>\<open>errors.Errorf\<close>),
  \<open>ErrWrap\<close> one annotated with a message (\<^verbatim>\<open>errors.Wrap\<close>), \<open>ErrExt\<close> any error of
  a package outside the repository. \<open>Panic\<close> is the run-time panic of an out-of-range
  index: it is no \<^verbatim>\<open>error\<close> value in Go, and the theorems show where it cannot occur.
\<close>

datatype go_error =
    EOF
  | ErrUnexpectedEOF
  | ErrNoProgress
  | ErrClosedPipe
  | ErrExtraData int
  | ErrNoDecompressor
  | ErrNew string
  | ErrWrap string go_error
  | ErrExt string
  | Panic

text \<open>A nilable error: \<open>None\<close> is \<^verbatim>\<open>nil\<close>.\<close>

type_synonym err = "go_error option"

subsection \<open>Bytes and strings\<close>

abbreviation code :: "char \<Rightarrow> nat" where
  "code \<equiv> of_char"

lemma of_char_less_256: "of_char c < (256 :: nat)"
  by (cases c) (simp add: of_char_def)

definition byte_of_char :: "char \<Rightarrow> byte" where
  "byte_of_char c = word_of_nat (of_char c)"

definition char_of_byte :: "byte \<Rightarrow> char" where
  "char_of_byte b = char_of (unat b)"

definition bytes_of :: "string \<Rightarrow> bytes" where
  "bytes_of s = map byte_of_char s"

definition string_of :: "bytes \<Rightarrow> string" where
  "string_of bs = map char_of_byte bs"

lemma unat_byte_of_char [byte_simps]: "unat (byte_of_char c) = of_char c"
proof -
  have "of_char c < (2 :: nat) ^ 8"
    using of_char_less_256 [of c] by simp
  then show ?thesis
    by (simp add: byte_of_char_def unsigned_of_nat take_bit_nat_eq_self)
qed

lemma char_of_byte_of_char [simp]: "char_of_byte (byte_of_char c) = c"
  by (simp add: char_of_byte_def unat_byte_of_char)

lemma byte_of_char_of_byte [simp]: "byte_of_char (char_of_byte b) = b"
proof -
  have "unat b < 256"
    using unsigned_less [of b] by simp
  then have "of_char (char_of (unat b)) = unat b"
    by simp
  then show ?thesis
    by (simp add: byte_of_char_def char_of_byte_def)
qed

lemma string_of_bytes_of [simp]: "string_of (bytes_of s) = s"
  by (simp add: string_of_def bytes_of_def o_def)

lemma bytes_of_string_of [simp]: "bytes_of (string_of bs) = bs"
  by (simp add: string_of_def bytes_of_def o_def)

lemma length_bytes_of [simp]: "length (bytes_of s) = length s"
  by (simp add: bytes_of_def)

lemma bytes_of_append [simp]: "bytes_of (s @ t) = bytes_of s @ bytes_of t"
  by (simp add: bytes_of_def)

lemma string_of_append [simp]: "string_of (a @ b) = string_of a @ string_of b"
  by (simp add: string_of_def)

lemma length_string_of [simp]: "length (string_of bs) = length bs"
  by (simp add: string_of_def)

lemma bytes_of_Nil [simp]: "bytes_of [] = []" and string_of_Nil [simp]: "string_of [] = []"
  by (simp_all add: bytes_of_def string_of_def)

subsection \<open>Decimal rendering\<close>

text \<open>The verb \<^verbatim>\<open>%d\<close> of \<^verbatim>\<open>fmt\<close> for a value that is not negative.\<close>

fun show_nat :: "nat \<Rightarrow> string" where
  "show_nat n =
     (if n < 10 then [char_of (48 + n)] else show_nat (n div 10) @ [char_of (48 + n mod 10)])"

declare show_nat.simps [simp del]

definition show_int :: "int \<Rightarrow> string" where
  "show_int i = (if i < 0 then ''-'' @ show_nat (nat (- i)) else show_nat (nat i))"

text \<open>The text of an error, its \<^verbatim>\<open>Error\<close> method.\<close>

fun Error :: "go_error \<Rightarrow> string" where
  "Error EOF = ''EOF''"
| "Error ErrUnexpectedEOF = ''unexpected EOF''"
| "Error ErrNoProgress = ''multiple Read calls return no data or error''"
| "Error ErrClosedPipe = ''io: read/write on closed pipe''"
| "Error (ErrExtraData n) = ''at least '' @ show_int n @ '' extra bytes after trailers frame''"
| "Error ErrNoDecompressor = ''compressed message encountered, but no decompressor specified''"
| "Error (ErrNew s) = s"
| "Error (ErrWrap s e) = s @ '': '' @ Error e"
| "Error (ErrExt s) = s"
| "Error Panic = []"

end
