(* ===== verification/HttpHeader.thy ===== *)
theory HttpHeader
  imports Prelude "HOL-Library.AList"
begin

text \<open>
  The parts of Go's \<^verbatim>\<open>net/http\<close> and \<^verbatim>\<open>net/textproto\<close> (of Go 1.19, the version that the
  module file and the build name) that carry headers and trailers through the program:
  \<^verbatim>\<open>http.Header\<close> with its canonical keys, its wire format (\<^verbatim>\<open>Header.Write\<close>) and the parser
  \<^verbatim>\<open>(*textproto.Reader).ReadMIMEHeader\<close>.

  A \<^verbatim>\<open>http.Header\<close> is a Go map from keys to lists of values. It is an association list with
  distinct keys; the order of the list is the order in which a \<^verbatim>\<open>range\<close> loop visits the map,
  which Go leaves open, so results that the program depends on are stated up to \<open>map_of\<close>.
\<close>

section \<open>Characters\<close>

abbreviation SP :: char where "SP \<equiv> CHR 0x20"
abbreviation HT :: char where "HT \<equiv> CHR 0x09"
abbreviation LF :: char where "LF \<equiv> CHR 0x0A"
abbreviation CR :: char where "CR \<equiv> CHR 0x0D"
abbreviation COLON :: char where "COLON \<equiv> CHR 0x3A"

definition CRLF :: string where "CRLF = [CR, LF]"

definition is_lower :: "char \<Rightarrow> bool" where "is_lower c \<longleftrightarrow> 97 \<le> code c \<and> code c \<le> 122"
definition is_upper :: "char \<Rightarrow> bool" where "is_upper c \<longleftrightarrow> 65 \<le> code c \<and> code c \<le> 90"
definition is_digit :: "char \<Rightarrow> bool" where "is_digit c \<longleftrightarrow> 48 \<le> code c \<and> code c \<le> 57"
definition to_upper :: "char \<Rightarrow> char" where "to_upper c = char_of (code c - 32)"
definition to_lower :: "char \<Rightarrow> char" where "to_lower c = char_of (code c + 32)"

text \<open>The bytes of an HTTP token (RFC 7230), \<^verbatim>\<open>validHeaderFieldByte\<close>.\<close>

definition token_byte :: "char \<Rightarrow> bool" where
  "token_byte c \<longleftrightarrow> is_lower c \<or> is_upper c \<or> is_digit c \<or>
     code c \<in> {33, 35, 36, 37, 38, 39, 42, 43, 45, 46, 94, 95, 96, 124, 126}"

text \<open>Blanks of a header line, and ASCII white space.\<close>

definition blank :: "char \<Rightarrow> bool" where "blank c \<longleftrightarrow> c = SP \<or> c = HT"
definition ascii_space :: "char \<Rightarrow> bool" where
  "ascii_space c \<longleftrightarrow> c = SP \<or> c = HT \<or> c = LF \<or> c = CR"

definition trim_by :: "(char \<Rightarrow> bool) \<Rightarrow> string \<Rightarrow> string" where
  "trim_by P s = rev (dropWhile P (rev (dropWhile P s)))"

section \<open>Canonical keys\<close>

fun canon :: "bool \<Rightarrow> string \<Rightarrow> string" where
  "canon upper [] = []"
| "canon upper (c # s) =
     (let c' = (if upper \<and> is_lower c then to_upper c
                else if \<not> upper \<and> is_upper c then to_lower c else c)
      in c' # canon (c' = CHR ''-'') s)"

definition CanonicalHeaderKey :: "string \<Rightarrow> string" where
  "CanonicalHeaderKey s = (if list_all token_byte s then canon True s else s)"

section \<open>http.Header\<close>

type_synonym header = "(string \<times> string list) list"

text \<open>
  \<open>hindex\<close> is the plain index expression \<^verbatim>\<open>h[k]\<close> (\<open>None\<close>: no entry, so a
  \<^verbatim>\<open>nil\<close> slice), \<open>hvalues\<close> the same where only the values matter. \<open>hGet\<close>, \<open>hSet\<close>,
  \<open>hAdd\<close> and \<open>hDel\<close> are the methods of \<^verbatim>\<open>http.Header\<close>, which make the key canonical.
\<close>

definition hindex :: "header \<Rightarrow> string \<Rightarrow> string list option" where
  "hindex h k = map_of h k"

definition hvalues :: "header \<Rightarrow> string \<Rightarrow> string list" where
  "hvalues h k = (case hindex h k of None \<Rightarrow> [] | Some vs \<Rightarrow> vs)"

definition hput :: "string \<Rightarrow> string list \<Rightarrow> header \<Rightarrow> header" where
  "hput k vs h = AList.update k vs h"

definition hdelete :: "string \<Rightarrow> header \<Rightarrow> header" where
  "hdelete k h = AList.delete k h"

definition hGet :: "header \<Rightarrow> string \<Rightarrow> string" where
  "hGet h k = (case hvalues h (CanonicalHeaderKey k) of [] \<Rightarrow> [] | v # _ \<Rightarrow> v)"

definition hSet :: "string \<Rightarrow> string \<Rightarrow> header \<Rightarrow> header" where
  "hSet k v h = hput (CanonicalHeaderKey k) [v] h"

definition hAdd :: "string \<Rightarrow> string \<Rightarrow> header \<Rightarrow> header" where
  "hAdd k v h = (let ck = CanonicalHeaderKey k in hput ck (hvalues h ck @ [v]) h)"

definition hDel :: "string \<Rightarrow> header \<Rightarrow> header" where
  "hDel k h = hdelete (CanonicalHeaderKey k) h"

definition header_ok :: "header \<Rightarrow> bool" where
  "header_ok h \<longleftrightarrow> distinct (map fst h)"

section \<open>The wire format\<close>

text \<open>
  \<^verbatim>\<open>Header.Write\<close>: the keys in ascending order, keys that are no tokens left out, one line per
  value, with line breaks in the value replaced by blanks and white space around it removed.
\<close>

definition valid_field_name :: "string \<Rightarrow> bool" where
  "valid_field_name k \<longleftrightarrow> k \<noteq> [] \<and> list_all token_byte k"

definition norm_value :: "string \<Rightarrow> string" where
  "norm_value v = trim_by ascii_space (map (\<lambda>c. if c = LF \<or> c = CR then SP else c) v)"

definition header_line :: "string \<Rightarrow> string \<Rightarrow> string" where
  "header_line k v = k @ [COLON, SP] @ norm_value v @ CRLF"

definition write_lines :: "header \<Rightarrow> string" where
  "write_lines h =
     concat (map (\<lambda>(k, vs). if valid_field_name k then concat (map (header_line k) vs) else []) h)"

definition Header_Write :: "header \<Rightarrow> string" where
  "Header_Write h = write_lines (sort_key fst h)"

section \<open>ReadMIMEHeader\<close>

text \<open>
  The parser reads from a \<^verbatim>\<open>bufio.Reader\<close>; its input is the text \<open>s\<close> that the underlying
  reader still delivers and the error \<open>t\<close> that follows it (\<^verbatim>\<open>io.EOF\<close> for a reader that simply
  ends). A result has the text that is left.
\<close>

definition split_line :: "string \<Rightarrow> string \<times> string" where
  "split_line s =
     (let l = takeWhile (\<lambda>c. c \<noteq> LF) s; r = dropWhile (\<lambda>c. c \<noteq> LF) s in
      case r of
        [] \<Rightarrow> (l, [])
      | _ # r' \<Rightarrow> (if l \<noteq> [] \<and> last l = CR then butlast l else l, r'))"

definition readLineSlice :: "go_error \<Rightarrow> string \<Rightarrow> go_error + string \<times> string" where
  "readLineSlice t s = (if s = [] then Inl t else Inr (split_line s))"

lemma split_line_length:
  assumes "s \<noteq> []"
  shows "length (snd (split_line s)) < length s"
proof (cases "dropWhile (\<lambda>c. c \<noteq> LF) s")
  case Nil
  show ?thesis unfolding split_line_def Let_def Nil using assms by simp
next
  case (Cons c r)
  then have "length (c # r) \<le> length s"
    using length_dropWhile_le [of "\<lambda>c. c \<noteq> LF" s] by simp
  with Cons show ?thesis by (simp add: split_line_def Let_def)
qed

text \<open>The loop over continuation lines: a line that starts with a blank continues the one before.\<close>

function continued_loop :: "string \<Rightarrow> string \<Rightarrow> string \<times> string" where
  "continued_loop buf s =
     (let r = dropWhile blank s in
      if length r = length s then (buf, s)
      else if r = [] then (buf @ [SP], [])
      else continued_loop (buf @ [SP] @ trim_by blank (fst (split_line r))) (snd (split_line r)))"
  by pat_completeness auto
termination
proof (relation "measure (\<lambda>(b, s). length s)", goal_cases)
  case (2 buf s x)
  then have "length (snd (split_line x)) < length x" by (intro split_line_length)
  moreover have "length x \<le> length s" using 2 length_dropWhile_le [of blank s] by simp
  ultimately show ?case by simp
qed simp

declare continued_loop.simps [simp del]

definition readContinuedLineSlice :: "go_error \<Rightarrow> string \<Rightarrow> (go_error + string) \<times> string" where
  "readContinuedLineSlice t s =
     (case readLineSlice t s of
        Inl e \<Rightarrow> (Inl e, [])
      | Inr (line, rest) \<Rightarrow>
          if line = [] then (Inr [], rest)
          else if COLON \<notin> set line
          then (Inl (ErrNew (''malformed MIME header: missing colon: '' @ line)), rest)
          else (case continued_loop (trim_by blank line) rest of (kv, rest') \<Rightarrow> (Inr kv, rest')))"

lemma continued_loop_length: "length (snd (continued_loop buf s)) \<le> length s"
proof (induction buf s rule: continued_loop.induct)
  case (1 buf s)
  define r where "r = dropWhile blank s"
  have le: "length r \<le> length s" by (simp add: r_def length_dropWhile_le)
  show ?case
  proof (cases "length r = length s \<or> r = []")
    case True
    then show ?thesis by (auto simp: continued_loop.simps [of buf s] Let_def r_def [symmetric])
  next
    case False
    with "1.IH" [OF r_def] split_line_length [of r] le show ?thesis
      by (simp add: continued_loop.simps [of buf s] Let_def r_def [symmetric])
  qed
qed

lemma readContinued_length:
  assumes "readContinuedLineSlice t s = (Inr kv, r)"
  shows "length r < length s"
proof (cases "s = []")
  case False
  have "length (snd (continued_loop b (snd (split_line s)))) < length s" for b
    using continued_loop_length [of b "snd (split_line s)"] split_line_length [OF False] by simp
  from this [of "trim_by blank (fst (split_line s))"] show ?thesis
    using assms False split_line_length [OF False]
    by (auto simp: readContinuedLineSlice_def readLineSlice_def split: prod.splits if_splits)
qed (use assms in \<open>simp add: readContinuedLineSlice_def readLineSlice_def\<close>)

function mime_loop :: "go_error \<Rightarrow> header \<Rightarrow> string \<Rightarrow> header \<times> err \<times> string" where
  "mime_loop t m s =
     (case readContinuedLineSlice t s of
        (Inl e, r) \<Rightarrow> (m, Some e, r)
      | (Inr kv, r) \<Rightarrow>
          if kv = [] then (m, None, r)
          else if COLON \<notin> set kv then (m, Some (ErrNew (''malformed MIME header line: '' @ kv)), r)
          else
            let key = CanonicalHeaderKey (takeWhile (\<lambda>c. c \<noteq> COLON) kv);
                value = dropWhile blank (tl (dropWhile (\<lambda>c. c \<noteq> COLON) kv)) in
            if key = [] then mime_loop t m r
            else mime_loop t (hput key (hvalues m key @ [value]) m) r)"
  by pat_completeness auto
termination
  by (relation "measure (\<lambda>(t, m, s). length s)") (auto dest!: readContinued_length [OF sym])

declare mime_loop.simps [simp del]

definition ReadMIMEHeader :: "go_error \<Rightarrow> string \<Rightarrow> header \<times> err \<times> string" where
  "ReadMIMEHeader t s =
     (if s \<noteq> [] \<and> blank (hd s)
      then ([], Some (ErrNew (''malformed MIME header initial line: '' @ fst (split_line s))),
            snd (split_line s))
      else mime_loop t [] s)"

section \<open>Laws of the header map\<close>

lemma hindex_hput [simp]: "hindex (hput k vs h) k' = (if k' = k then Some vs else hindex h k')"
  by (simp add: hindex_def hput_def update_conv)

lemma hindex_hdelete [simp]: "hindex (hdelete k h) k' = (if k' = k then None else hindex h k')"
  by (simp add: hindex_def hdelete_def delete_conv)

lemma hindex_Nil [simp]: "hindex [] k = None"
  by (simp add: hindex_def)

lemma hvalues_hput [simp]: "hvalues (hput k vs h) k' = (if k' = k then vs else hvalues h k')"
  by (simp add: hvalues_def)

lemma hvalues_hdelete [simp]: "hvalues (hdelete k h) k' = (if k' = k then [] else hvalues h k')"
  by (simp add: hvalues_def)

lemma hvalues_Nil [simp]: "hvalues [] k = []"
  by (simp add: hvalues_def)

lemma header_ok_simps [simp]:
  "header_ok []" "header_ok h \<Longrightarrow> header_ok (hput k vs h)" "header_ok h \<Longrightarrow> header_ok (hdelete k h)"
  by (simp_all add: header_ok_def hput_def hdelete_def distinct_update distinct_delete)

lemma hput_hput [simp]: "hput k a (hput k b h) = hput k a h"
  by (simp add: hput_def)

lemma hput_fresh: "k \<notin> fst ` set h \<Longrightarrow> hput k vs h = h @ [(k, vs)]"
  by (induction h) (auto simp: hput_def)

lemma hvalues_fresh: "k \<notin> fst ` set h \<Longrightarrow> hvalues h k = []"
  by (auto simp: hvalues_def hindex_def split: option.splits dest: map_of_SomeD intro: rev_image_eqI)

text \<open>
  The interface that the trailer-handling code relies on: a finite map with lookup, update and
  deletion. From its laws follow the effects of the program's loops over keys.
\<close>

locale header_map =
  fixes index :: "'h \<Rightarrow> 'k \<Rightarrow> 'v option"
    and put :: "'k \<Rightarrow> 'v \<Rightarrow> 'h \<Rightarrow> 'h"
    and delete :: "'k \<Rightarrow> 'h \<Rightarrow> 'h"
    and invar :: "'h \<Rightarrow> bool"
  assumes index_put: "index (put k v h) k' = (if k' = k then Some v else index h k')"
    and index_delete: "index (delete k h) k' = (if k' = k then None else index h k')"
    and invar_put: "invar h \<Longrightarrow> invar (put k v h)"
    and invar_delete: "invar h \<Longrightarrow> invar (delete k h)"
begin

lemma index_delete_all:
  "index (fold delete ks h) k = (if k \<in> set ks then None else index h k)"
  by (induction ks arbitrary: h) (auto simp: index_delete)

lemma index_put_all:
  "index (fold (\<lambda>k. put k (f k)) ks h) k = (if k \<in> set ks then Some (f k) else index h k)"
  by (induction ks arbitrary: h) (auto simp: index_put)

lemma invar_delete_all: "invar h \<Longrightarrow> invar (fold delete ks h)"
  by (induction ks arbitrary: h) (auto simp: invar_delete)

lemma invar_put_all: "invar h \<Longrightarrow> invar (fold (\<lambda>k. put k (f k)) ks h)"
  by (induction ks arbitrary: h) (auto simp: invar_put)

end

interpretation hmap: header_map hindex hput hdelete header_ok
  by standard simp_all

section \<open>Canonical keys are stable\<close>

lemma code_to_upper: "is_lower c \<Longrightarrow> code (to_upper c) = code c - 32"
  unfolding to_upper_def is_lower_def by (simp only: of_char_of) (rule mod_less, linarith)

lemma code_to_lower: "is_upper c \<Longrightarrow> code (to_lower c) = code c + 32"
  unfolding to_lower_def is_upper_def by (simp only: of_char_of) (rule mod_less, linarith)

lemma to_upper_lower:
  "is_lower c \<Longrightarrow> is_upper (to_upper c)" "is_lower c \<Longrightarrow> \<not> is_lower (to_upper c)"
  "is_upper c \<Longrightarrow> is_lower (to_lower c)" "is_upper c \<Longrightarrow> \<not> is_upper (to_lower c)"
  using code_to_upper [of c] code_to_lower [of c] by (auto simp: is_lower_def is_upper_def)

lemma token_to_upper_lower:
  "is_lower c \<Longrightarrow> token_byte (to_upper c)" "is_upper c \<Longrightarrow> token_byte (to_lower c)"
  by (simp_all add: token_byte_def to_upper_lower)

lemma canon_idem: "canon u (canon u s) = canon u s"
  by (induction u s rule: canon.induct) (auto simp: Let_def to_upper_lower)

lemma canon_tokens: "list_all token_byte s \<Longrightarrow> list_all token_byte (canon u s)"
  by (induction u s rule: canon.induct) (auto simp: Let_def token_to_upper_lower)

lemma CanonicalHeaderKey_idem [simp]:
  "CanonicalHeaderKey (CanonicalHeaderKey k) = CanonicalHeaderKey k"
  by (simp add: CanonicalHeaderKey_def canon_idem canon_tokens)

section \<open>What is written is read back\<close>

lemma trim_by_ends:
  assumes "trim_by P s \<noteq> []"
  shows "\<not> P (hd (trim_by P s))" and "\<not> P (last (trim_by P s))"
proof -
  define u v where "u = dropWhile P s" and "v = dropWhile P (rev u)"
  have t: "trim_by P s = rev v" by (simp add: trim_by_def u_def v_def)
  with assms have v: "v \<noteq> []" by simp
  then show "\<not> P (last (trim_by P s))"
    using hd_dropWhile [of P "rev u"] by (simp add: t last_rev v_def)
  have "rev u = takeWhile P (rev u) @ v" by (simp add: v_def)
  then have "last (rev u) = last v" "u \<noteq> []" using v by (metis last_appendR, auto)
  moreover have "\<not> P (hd u)" using hd_dropWhile [of P s] \<open>u \<noteq> []\<close> by (simp add: u_def)
  ultimately show "\<not> P (hd (trim_by P s))" by (simp add: t hd_rev last_rev)
qed

lemma set_trim_by: "set (trim_by P s) \<subseteq> set s"
  by (auto simp: trim_by_def dest!: set_dropWhileD)

lemma set_norm_value: "LF \<notin> set (norm_value v)" "CR \<notin> set (norm_value v)"
  using set_trim_by by (fastforce simp: norm_value_def)+

lemma norm_value_ends:
  assumes "norm_value v \<noteq> []"
  shows "\<not> blank (hd (norm_value v))" and "\<not> blank (last (norm_value v))"
  using trim_by_ends [OF assms [unfolded norm_value_def]]
  by (auto simp: norm_value_def blank_def ascii_space_def)

lemma trim_by_id:
  assumes "s = [] \<or> \<not> P (hd s) \<and> \<not> P (last s)"
  shows "trim_by P s = s"
proof -
  have d: "dropWhile P xs = xs" if "xs = [] \<or> \<not> P (hd xs)" for xs
    using that by (cases xs) auto
  from assms show ?thesis by (auto simp: trim_by_def d hd_rev)
qed

lemma dropWhile_hd_id: "xs = [] \<or> \<not> P (hd xs) \<Longrightarrow> dropWhile P xs = xs"
  by (cases xs) auto

lemma token_not_special: "token_byte c \<Longrightarrow> c \<noteq> LF \<and> c \<noteq> CR \<and> c \<noteq> COLON \<and> \<not> blank c"
  by (auto simp: token_byte_def is_lower_def is_upper_def is_digit_def blank_def)

lemma split_line_CRLF: "LF \<notin> set l \<Longrightarrow> split_line (l @ CRLF @ r) = (l, r)"
proof -
  assume "LF \<notin> set l"
  then have "takeWhile (\<lambda>c. c \<noteq> LF) (l @ CRLF @ r) = l @ [CR]"
    "dropWhile (\<lambda>c. c \<noteq> LF) (l @ CRLF @ r) = LF # r"
    by (induction l) (auto simp: CRLF_def)
  then show ?thesis by (simp add: split_line_def)
qed

lemma continued_loop_none:
  "r = [] \<or> \<not> blank (hd r) \<Longrightarrow> continued_loop buf r = (buf, r)"
  by (simp add: continued_loop.simps [of buf r] dropWhile_hd_id)

lemma trim_field:
  assumes "valid_field_name k"
  shows "trim_by blank (k @ [COLON, SP] @ norm_value v) =
    k @ [COLON] @ (if norm_value v = [] then [] else SP # norm_value v)"
proof -
  from assms obtain c k' where k: "k = c # k'" "\<not> blank c"
    by (cases k) (auto simp: valid_field_name_def dest: token_not_special)
  show ?thesis
  proof (cases "norm_value v = []")
    case True
    then have "trim_by blank (k @ [COLON, SP] @ norm_value v) = trim_by blank (k @ [COLON])"
      using k by (simp add: trim_by_def blank_def)
    also have "\<dots> = k @ [COLON]" using k by (intro trim_by_id) (simp add: blank_def)
    finally show ?thesis using True by simp
  next
    case False
    then show ?thesis using k norm_value_ends(2) [OF False] by (intro trans [OF trim_by_id]) simp_all
  qed
qed

lemma mime_loop_field:
  assumes "valid_field_name k" and "CanonicalHeaderKey k = k" and "r = [] \<or> \<not> blank (hd r)"
  shows "mime_loop t m (header_line k v @ r) =
    mime_loop t (hput k (hvalues m k @ [norm_value v]) m) r"
proof -
  let ?l = "k @ [COLON, SP] @ norm_value v"
  have tok: "list_all token_byte k" "k \<noteq> []" using assms(1) by (auto simp: valid_field_name_def)
  then have "LF \<notin> set ?l" "COLON \<notin> set k"
    using token_not_special set_norm_value(1) [of v] by (auto simp: list_all_iff)
  then have sp: "split_line (header_line k v @ r) = (?l, r)"
    using split_line_CRLF [of ?l r] by (simp add: header_line_def)
  have "?l \<noteq> []" "COLON \<in> set ?l" "header_line k v @ r \<noteq> []"
    using tok by (simp_all add: header_line_def)
  then have "readContinuedLineSlice t (header_line k v @ r) =
      (Inr (k @ [COLON] @ (if norm_value v = [] then [] else SP # norm_value v)), r)"
    unfolding readContinuedLineSlice_def readLineSlice_def trim_field [OF assms(1), symmetric]
    using continued_loop_none [OF assms(3)] by (simp del: append.simps append_assoc add: sp)
  moreover have "takeWhile (\<lambda>c. c \<noteq> COLON) (k @ COLON # x) = k"
    "dropWhile (\<lambda>c. c \<noteq> COLON) (k @ COLON # x) = COLON # x" for x
    using \<open>COLON \<notin> set k\<close> by (induction k) auto
  ultimately show ?thesis
    using assms(2) tok norm_value_ends(1) [of v]
    by (subst mime_loop.simps) (auto simp: blank_def dropWhile_hd_id)
qed

lemma mime_loop_values:
  assumes "valid_field_name k" and "CanonicalHeaderKey k = k" and "r = [] \<or> \<not> blank (hd r)"
    and "vs \<noteq> []"
  shows "mime_loop t m (concat (map (header_line k) vs) @ r) =
    mime_loop t (hput k (hvalues m k @ map norm_value vs) m) r"
  using assms(4)
proof (induction vs arbitrary: m rule: list_nonempty_induct)
  case (single v)
  then show ?case using mime_loop_field [OF assms(1-3)] by simp
next
  case (cons v vs)
  have "\<not> blank (hd (header_line k w @ x))" for w x
    using assms(1) by (cases k) (auto simp: header_line_def valid_field_name_def dest: token_not_special)
  then have "\<not> blank (hd (concat (map (header_line k) vs) @ r))"
    using cons.hyps by (cases vs) simp_all
  then have "mime_loop t m (header_line k v @ concat (map (header_line k) vs) @ r) =
      mime_loop t (hput k (hvalues m k @ [norm_value v]) m) (concat (map (header_line k) vs) @ r)"
    using mime_loop_field [OF assms(1,2)] by simp
  with cons.IH show ?case by simp
qed

text \<open>
  What a header looks like after a trip over the wire: only keys that are tokens and have a value
  survive, and every value is normalised.
\<close>

definition wire_view :: "header \<Rightarrow> header" where
  "wire_view h =
     map (\<lambda>(k, vs). (k, map norm_value vs)) (filter (\<lambda>(k, vs). valid_field_name k \<and> vs \<noteq> []) h)"

lemma write_lines_hd: "r = [] \<or> \<not> blank (hd r) \<Longrightarrow>
    write_lines h @ r = [] \<or> \<not> blank (hd (write_lines h @ r))"
proof (induction h)
  case (Cons kv h)
  obtain k vs where kv: "kv = (k, vs)" by (cases kv)
  show ?case
  proof (cases "valid_field_name k \<and> vs \<noteq> []")
    case True
    then obtain c k' v vs' where "k = c # k'" "\<not> blank c" "vs = v # vs'"
      by (cases k; cases vs) (auto simp: valid_field_name_def dest: token_not_special)
    with True show ?thesis by (simp add: write_lines_def kv header_line_def)
  next
    case False
    with Cons show ?thesis by (auto simp: write_lines_def kv)
  qed
qed (simp add: write_lines_def)

lemma mime_loop_CRLF: "mime_loop t m (CRLF @ r) = (m, None, r)"
  using split_line_CRLF [of "[]" r]
  by (subst mime_loop.simps) (simp add: readContinuedLineSlice_def readLineSlice_def CRLF_def)

lemma mime_loop_write:
  assumes "header_ok (m @ h)" and "\<forall>k \<in> fst ` set h. valid_field_name k \<longrightarrow> CanonicalHeaderKey k = k"
  shows "mime_loop t m (write_lines h @ CRLF @ r) = (m @ wire_view h, None, r)"
  using assms
proof (induction h arbitrary: m)
  case Nil
  then show ?case by (simp add: write_lines_def wire_view_def mime_loop_CRLF)
next
  case (Cons kv h)
  obtain k vs where kv: "kv = (k, vs)" by (cases kv)
  show ?case
  proof (cases "valid_field_name k \<and> vs \<noteq> []")
    case True
    let ?r = "write_lines h @ CRLF @ r"
    have "?r = [] \<or> \<not> blank (hd ?r)" by (rule write_lines_hd) (simp add: CRLF_def blank_def)
    moreover have fresh: "k \<notin> fst ` set m" using Cons.prems(1) kv by (auto simp: header_ok_def)
    ultimately have "mime_loop t m (write_lines (kv # h) @ CRLF @ r) =
        mime_loop t (m @ [(k, map norm_value vs)]) ?r"
      using True Cons.prems(2) kv mime_loop_values [of k ?r vs t m]
      by (simp add: write_lines_def hvalues_fresh hput_fresh)
    also have "\<dots> = (m @ [(k, map norm_value vs)] @ wire_view h, None, r)"
      using Cons.prems by (subst Cons.IH) (auto simp: header_ok_def kv)
    finally show ?thesis using True by (simp add: wire_view_def kv)
  next
    case False
    have "header_ok (m @ h)" using Cons.prems(1) by (auto simp: header_ok_def)
    with Cons.IH [of m] Cons.prems(2) False kv show ?thesis
      by (auto simp: write_lines_def wire_view_def)
  qed
qed

lemma header_ok_sort: "header_ok h \<Longrightarrow> header_ok (sort_key fst h)"
  unfolding header_ok_def by (simp add: distinct_map)

theorem ReadMIMEHeader_Write:
  assumes "header_ok h" and "\<forall>k \<in> fst ` set h. valid_field_name k \<longrightarrow> CanonicalHeaderKey k = k"
  shows "ReadMIMEHeader t (Header_Write h @ CRLF @ r) = (wire_view (sort_key fst h), None, r)"
proof -
  let ?s = "write_lines (sort_key fst h) @ CRLF @ r"
  have "?s = [] \<or> \<not> blank (hd ?s)" by (rule write_lines_hd) (simp add: CRLF_def blank_def)
  moreover have "mime_loop t [] ?s = ([] @ wire_view (sort_key fst h), None, r)"
    using assms by (intro mime_loop_write) (simp_all add: header_ok_sort)
  ultimately show ?thesis by (auto simp: ReadMIMEHeader_def Header_Write_def)
qed

definition wire_values :: "string \<Rightarrow> string list option \<Rightarrow> string list option" where
  "wire_values k x =
     (case x of
        Some vs \<Rightarrow> if valid_field_name k \<and> vs \<noteq> [] then Some (map norm_value vs) else None
      | None \<Rightarrow> None)"

lemma hindex_wire_view: "header_ok h \<Longrightarrow> hindex (wire_view h) k = wire_values k (hindex h k)"
proof (induction h)
  case (Cons kv h)
  obtain k' vs where kv: "kv = (k', vs)" by (cases kv)
  from Cons have IH: "hindex (wire_view h) k = wire_values k (hindex h k)"
    by (simp add: header_ok_def)
  from Cons.prems kv have "hindex h k' = None"
    by (simp add: header_ok_def hindex_def map_of_eq_None_iff)
  with IH show ?case
    by (cases "k = k'") (auto simp: kv wire_view_def wire_values_def hindex_def)
qed (simp add: wire_view_def wire_values_def)

lemma hindex_sort: "header_ok h \<Longrightarrow> hindex (sort_key fst h) k = hindex h k"
proof -
  assume ok: "header_ok h"
  then have "map_of (sort_key fst h) = map_of h"
    using header_ok_sort [OF ok] by (simp add: header_ok_def map_of_inject_set)
  then show ?thesis by (simp add: hindex_def)
qed

lemma hindex_wire_view_sort:
  "header_ok h \<Longrightarrow> hindex (wire_view (sort_key fst h)) k = wire_values k (hindex h k)"
  by (simp add: hindex_wire_view header_ok_sort hindex_sort)

end
