(* ===== verification/HttpWriter.thy ===== *)
theory HttpWriter
  imports HttpHeader
begin

text \<open>
  The part of \<^verbatim>\<open>net/http\<close> that the writers of the program sit on: a
  \<^verbatim>\<open>http.ResponseWriter\<close> as the server hands it to a handler. Its headers may be changed until
  they are sent; \<^verbatim>\<open>WriteHeader\<close> sends them once, with a status; \<^verbatim>\<open>Write\<close> and
  \<^verbatim>\<open>Flush\<close> send them with status 200 if that has not happened yet. A script lists the failures
  of the connection: each entry answers one \<^verbatim>\<open>Write\<close>, \<open>Some (n, e)\<close> accepts \<open>n\<close> bytes
  and fails with \<open>e\<close>; after its end every \<^verbatim>\<open>Write\<close> succeeds.
\<close>

record httpWriter =
  hw_header :: header
  hw_sent :: "(int \<times> header) option"
  hw_body :: bytes
  hw_flushes :: nat
  hw_flusher :: bool
  hw_script :: "(nat \<times> go_error) option list"

definition new_httpWriter :: httpWriter where
  "new_httpWriter =
     \<lparr>hw_header = [], hw_sent = None, hw_body = [], hw_flushes = 0, hw_flusher = True, hw_script = []\<rparr>"

definition StatusOK :: int where [go_defs]: "StatusOK = 200"

definition hw_WriteHeader :: "int \<Rightarrow> httpWriter \<Rightarrow> httpWriter" where
  "hw_WriteHeader status w =
     (if hw_sent w = None then w\<lparr>hw_sent := Some (status, hw_header w)\<rparr> else w)"

definition hw_Write :: "bytes \<Rightarrow> httpWriter \<Rightarrow> nat \<times> err \<times> httpWriter" where
  "hw_Write buf w =
     (let w = hw_WriteHeader StatusOK w in
      case hw_script w of
        Some (n, e) # s \<Rightarrow>
          (min n (length buf), Some e, w\<lparr>hw_body := hw_body w @ take n buf, hw_script := s\<rparr>)
      | _ \<Rightarrow> (length buf, None, w\<lparr>hw_body := hw_body w @ buf, hw_script := tl (hw_script w)\<rparr>))"

text \<open>\<^verbatim>\<open>Flush\<close> is there only if the writer implements \<^verbatim>\<open>http.Flusher\<close>.\<close>

definition hw_Flush :: "httpWriter \<Rightarrow> httpWriter" where
  "hw_Flush w =
     (if hw_flusher w then (hw_WriteHeader StatusOK w)\<lparr>hw_flushes := hw_flushes w + 1\<rparr> else w)"

text \<open>A connection that does not fail.\<close>

definition hw_healthy :: "httpWriter \<Rightarrow> bool" where
  "hw_healthy w \<longleftrightarrow> list_all (\<lambda>r. r = None) (hw_script w)"

lemma hw_Write_healthy:
  assumes "hw_healthy w" and "hw_Write buf w = (n, e, w')"
  shows "n = length buf" "e = None" "hw_healthy w'" "hw_body w' = hw_body w @ buf"
    "hw_header w' = hw_header w"
  using assms
  by (cases "hw_script w"; auto simp: hw_Write_def hw_healthy_def Let_def hw_WriteHeader_def split: if_splits)+

lemma hw_Write_sent:
  assumes "hw_Write buf w = (n, e, w')"
  shows "hw_sent w' = hw_sent (hw_WriteHeader StatusOK w)" "hw_header w' = hw_header w"
    "\<exists>d. hw_body w' = hw_body w @ d \<and> length d = n \<and> n \<le> length buf \<and> (e = None \<longrightarrow> d = buf)"
  using assms
  by (cases "hw_script w"; auto simp: hw_Write_def Let_def hw_WriteHeader_def split: if_splits option.splits)+

lemma hw_WriteHeader_simps [simp]:
  "hw_header (hw_WriteHeader c w) = hw_header w" "hw_body (hw_WriteHeader c w) = hw_body w"
  "hw_script (hw_WriteHeader c w) = hw_script w" "hw_flusher (hw_WriteHeader c w) = hw_flusher w"
  "hw_sent (hw_WriteHeader c w) \<noteq> None"
  by (simp_all add: hw_WriteHeader_def)

lemma hw_Flush_simps [simp]:
  "hw_header (hw_Flush w) = hw_header w" "hw_body (hw_Flush w) = hw_body w"
  "hw_script (hw_Flush w) = hw_script w"
  by (simp_all add: hw_Flush_def)

lemma hw_healthy_simps [simp]:
  "hw_healthy (hw_WriteHeader c w) = hw_healthy w" "hw_healthy (hw_Flush w) = hw_healthy w"
  by (simp_all add: hw_healthy_def)

lemma new_httpWriter_simps [simp]:
  "hw_healthy new_httpWriter" "hw_body new_httpWriter = []" "hw_header new_httpWriter = []"
  "hw_sent new_httpWriter = None" "hw_script new_httpWriter = []" "hw_flusher new_httpWriter"
  by (simp_all add: new_httpWriter_def hw_healthy_def)

section \<open>Iterating over a header\<close>

text \<open>
  A \<^verbatim>\<open>range\<close> over a map visits every entry that is there at the start and is not deleted before
  its turn, each key at most once, in an unspecified order; entries inserted on the way may or may not
  be visited. The order \<open>ks\<close> is a parameter of the loops; keys without an entry are passed over.
\<close>

definition range_order :: "header \<Rightarrow> string list \<Rightarrow> bool" where
  "range_order h ks \<longleftrightarrow> distinct ks \<and> set (map fst h) \<subseteq> set ks"

lemma range_order_self: "header_ok h \<Longrightarrow> range_order h (map fst h)"
  by (simp add: range_order_def header_ok_def)

lemma hindex_None_iff: "hindex h k = None \<longleftrightarrow> k \<notin> fst ` set h"
  by (simp add: hindex_def map_of_eq_None_iff)

lemma range_order_mem: "range_order h ks \<Longrightarrow> hvalues h k \<noteq> [] \<Longrightarrow> k \<in> set ks"
  using hindex_None_iff [of h k] by (cases "hindex h k") (auto simp: range_order_def hvalues_def)

lemma hvalues_Cons: "hvalues ((k', vs) # h) k = (if k = k' then vs else hvalues h k)"
  by (simp add: hvalues_def hindex_def)

lemma hvalues_notin: "k \<notin> fst ` set h \<Longrightarrow> hvalues h k = []"
  using hindex_None_iff [of h k] by (simp add: hvalues_def)

end
