(* ===== verification/GrpcProto.thy ===== *)
theory GrpcProto
  imports Prelude
begin

text \<open>
  \<^verbatim>\<open>internal/grpcproto/message_header.go\<close> and \<^verbatim>\<open>utils.go\<close>: the five-byte header of a gRPC
  message frame (one byte of flags, the payload's length as a big-endian 32-bit number), the tests on
  the flags, and the check that a WebSocket message is exactly one frame. An index into an empty
  message panics in Go, so the flag tests return \<open>Inl Panic\<close> there.
\<close>

section \<open>Constants and types\<close>

definition MessageHeaderLength :: nat where [go_defs]: "MessageHeaderLength = 5"

definition metadataMask :: byte where [go_defs]: "metadataMask = push_bit 7 1"

definition compressionMask :: byte where [go_defs]: "compressionMask = 1"

type_synonym MessageFlags = "8 word"

definition MetadataFlags :: MessageFlags where [go_defs]: "MetadataFlags = metadataMask"

definition EndStreamHeader :: bytes where
  [go_defs]: "EndStreamHeader = [metadataMask, 0, 0, 0, 0]"

section \<open>Big-endian numbers\<close>

text \<open>\<^verbatim>\<open>binary.BigEndian.Uint32\<close> and \<^verbatim>\<open>PutUint32\<close> of \<^verbatim>\<open>encoding/binary\<close>.\<close>

definition BigEndian_Uint32 :: "bytes \<Rightarrow> 32 word" where
  "BigEndian_Uint32 b =
     ucast (b ! 3) OR push_bit 8 (ucast (b ! 2)) OR push_bit 16 (ucast (b ! 1))
       OR push_bit 24 (ucast (b ! 0))"

definition BigEndian_PutUint32 :: "32 word \<Rightarrow> bytes" where
  "BigEndian_PutUint32 v =
     [ucast (drop_bit 24 v), ucast (drop_bit 16 v), ucast (drop_bit 8 v), ucast v]"

section \<open>Frame headers\<close>

definition ParseMessageHeader :: "bytes \<Rightarrow> go_error + MessageFlags \<times> 32 word" where
  "ParseMessageHeader header =
     (if length header \<noteq> MessageHeaderLength
      then Inl (ErrNew (''gRPC message header must be '' @ show_nat MessageHeaderLength @
                        '' bytes, but got '' @ show_nat (length header)))
      else Inr (header ! 0, BigEndian_Uint32 (drop 1 header)))"

definition MakeMessageHeader :: "MessageFlags \<Rightarrow> 32 word \<Rightarrow> bytes" where
  "MakeMessageHeader flags len =
     (let hdr = replicate MessageHeaderLength 0; hdr = hdr[0 := flags]
      in take 1 hdr @ BigEndian_PutUint32 len)"

section \<open>Tests on frames\<close>

definition IsDataFrame :: "bytes \<Rightarrow> go_error + bool" where
  "IsDataFrame msg = (case msg of [] \<Rightarrow> Inl Panic | b # _ \<Rightarrow> Inr (b AND metadataMask = 0))"

definition IsMetadataFrame :: "bytes \<Rightarrow> go_error + bool" where
  "IsMetadataFrame msg = (case msg of [] \<Rightarrow> Inl Panic | b # _ \<Rightarrow> Inr (b AND metadataMask \<noteq> 0))"

definition IsCompressed :: "bytes \<Rightarrow> go_error + bool" where
  "IsCompressed msg = (case msg of [] \<Rightarrow> Inl Panic | b # _ \<Rightarrow> Inr (b AND compressionMask \<noteq> 0))"

definition ValidateGRPCFrame :: "bytes \<Rightarrow> err" where
  "ValidateGRPCFrame msg =
     (let msgLen = length msg in
      if msgLen < MessageHeaderLength
      then Some (ErrNew (''Message length is less than the length of the header: '' @
             show_nat msgLen @ '' < '' @ show_nat MessageHeaderLength))
      else case ParseMessageHeader (take MessageHeaderLength msg) of
        Inl e \<Rightarrow> Some e
      | Inr (_, len) \<Rightarrow>
          if msgLen \<noteq> MessageHeaderLength + unat len
          then Some (ErrNew (''Declared message length ('' @ show_nat (unat len) @
                 '') does not equal actual message length ('' @
                 show_nat (msgLen - MessageHeaderLength) @ '')''))
          else None)"

definition IsEndOfStream :: "bytes \<Rightarrow> bool" where
  "IsEndOfStream msg = (msg = EndStreamHeader)"

section \<open>Round trips\<close>

lemma length_PutUint32 [simp]: "length (BigEndian_PutUint32 v) = 4"
  by (simp add: BigEndian_PutUint32_def)

lemma Uint32_PutUint32 [simp]: "BigEndian_Uint32 (BigEndian_PutUint32 v) = v"
proof (rule bit_word_eqI)
  fix n assume "n < LENGTH(32)"
  then consider "n < 8" | "8 \<le> n" "n < 16" | "16 \<le> n" "n < 24" | "24 \<le> n" "n < 32"
    by force
  then show "bit (BigEndian_Uint32 (BigEndian_PutUint32 v)) n = bit v n"
    by cases (auto simp: BigEndian_Uint32_def BigEndian_PutUint32_def bit_simps)
qed

lemma bit_byte_ge [byte_simps]: "8 \<le> n \<Longrightarrow> \<not> bit (w :: byte) n"
  using bit_imp_le_length [of w n] by auto

lemma PutUint32_Uint32:
  assumes "length b = 4"
  shows "BigEndian_PutUint32 (BigEndian_Uint32 b) = b"
proof -
  from assms obtain w x y z where b: "b = [w, x, y, z]"
    by (auto simp: length_Suc_conv numeral_eq_Suc)
  show ?thesis
    unfolding b BigEndian_Uint32_def BigEndian_PutUint32_def
    by (auto intro!: bit_word_eqI simp: bit_simps bit_byte_ge)
qed

text \<open>A header made by \<^verbatim>\<open>MakeMessageHeader\<close> is the flags and the length, and is parsed back.\<close>

lemma MakeMessageHeader_eq: "MakeMessageHeader flags len = flags # BigEndian_PutUint32 len"
  by (simp add: MakeMessageHeader_def MessageHeaderLength_def Let_def numeral_eq_Suc)

lemma length_MakeMessageHeader [simp]: "length (MakeMessageHeader flags len) = 5"
  by (simp add: MakeMessageHeader_eq)

lemma Parse_Make [simp]: "ParseMessageHeader (MakeMessageHeader flags len) = Inr (flags, len)"
  by (simp add: ParseMessageHeader_def MakeMessageHeader_eq MessageHeaderLength_def)

lemma Make_Parse:
  assumes "ParseMessageHeader h = Inr (flags, len)"
  shows "MakeMessageHeader flags len = h"
proof -
  from assms have "length h = 5" and *: "flags = h ! 0" "len = BigEndian_Uint32 (drop 1 h)"
    by (auto simp: ParseMessageHeader_def MessageHeaderLength_def split: if_splits)
  then obtain f b where "h = f # b" "length b = 4"
    by (cases h) auto
  with * show ?thesis by (simp add: MakeMessageHeader_eq PutUint32_Uint32)
qed

lemma Parse_Inr_iff:
  "(\<exists>r. ParseMessageHeader h = Inr r) \<longleftrightarrow> length h = 5"
  by (auto simp: ParseMessageHeader_def MessageHeaderLength_def)

section \<open>Whole frames\<close>

text \<open>
  The frame with the given flags and payload, as the gRPC protocol defines it; the payload's length
  is recorded modulo \<open>2 ^ 32\<close>, so a frame is well-formed only if the payload is shorter.
\<close>

definition mk_frame :: "MessageFlags \<Rightarrow> bytes \<Rightarrow> bytes" where
  "mk_frame flags payload = MakeMessageHeader flags (word_of_nat (length payload)) @ payload"

definition frame_ok :: "MessageFlags \<times> bytes \<Rightarrow> bool" where
  "frame_ok f \<longleftrightarrow> length (snd f) < 2 ^ 32"

text \<open>A sequence of frames, one by one and as a stream of bytes.\<close>

definition frame_list :: "(MessageFlags \<times> bytes) list \<Rightarrow> bytes list" where
  "frame_list fs = map (\<lambda>(flags, p). mk_frame flags p) fs"

definition frames_bytes :: "(MessageFlags \<times> bytes) list \<Rightarrow> bytes" where
  "frames_bytes fs = concat (map (\<lambda>(flags, p). mk_frame flags p) fs)"

lemma frame_list_simps [simp]:
  "frame_list [] = []" "frame_list ((flags, p) # fs) = mk_frame flags p # frame_list fs"
  "frame_list (fs @ gs) = frame_list fs @ frame_list gs"
  by (simp_all add: frame_list_def)

lemma frames_bytes_simps [simp]:
  "frames_bytes [] = []" "frames_bytes ((flags, p) # fs) = mk_frame flags p @ frames_bytes fs"
  "frames_bytes (fs @ gs) = frames_bytes fs @ frames_bytes gs"
  by (simp_all add: frames_bytes_def)

lemma concat_frame_list: "concat (frame_list fs) = frames_bytes fs"
  by (simp add: frame_list_def frames_bytes_def)

lemma mk_frame_Cons:
  "mk_frame flags payload = flags # BigEndian_PutUint32 (word_of_nat (length payload)) @ payload"
  by (simp add: mk_frame_def MakeMessageHeader_eq)

lemma length_mk_frame [simp]: "length (mk_frame flags p) = 5 + length p"
  by (simp add: mk_frame_def)

lemma unat_len32: "n < 2 ^ 32 \<Longrightarrow> unat (word_of_nat n :: 32 word) = n"
  by (simp add: unsigned_of_nat take_bit_nat_eq_self)

lemma unat32_less: "unat (w :: 32 word) < 2 ^ 32"
  using unsigned_less [of w] by simp

text \<open>\<^verbatim>\<open>ValidateGRPCFrame\<close> accepts exactly the well-formed frames.\<close>

lemma Validate_None_iff:
  "ValidateGRPCFrame msg = None \<longleftrightarrow>
     (\<exists>flags payload. msg = mk_frame flags payload \<and> length payload < 2 ^ 32)"
proof
  assume v: "ValidateGRPCFrame msg = None"
  then have len: "5 \<le> length msg"
    by (auto simp: ValidateGRPCFrame_def Let_def MessageHeaderLength_def split: if_splits)
  then obtain flags n where p: "ParseMessageHeader (take 5 msg) = Inr (flags, n)"
    by (auto simp: ParseMessageHeader_def MessageHeaderLength_def)
  with v len have n: "unat n = length (drop 5 msg)"
    by (auto simp: ValidateGRPCFrame_def Let_def MessageHeaderLength_def split: if_splits)
  have "n = word_of_nat (length (drop 5 msg))"
    unfolding n [symmetric] by simp
  then have "msg = mk_frame flags (drop 5 msg)"
    using Make_Parse [OF p] by (metis append_take_drop_id mk_frame_def)
  moreover have "length (drop 5 msg) < 2 ^ 32"
    using n unat32_less [of n] by simp
  ultimately show "\<exists>flags payload. msg = mk_frame flags payload \<and> length payload < 2 ^ 32"
    by blast
next
  assume "\<exists>flags payload. msg = mk_frame flags payload \<and> length payload < 2 ^ 32"
  then show "ValidateGRPCFrame msg = None"
    by (auto simp: ValidateGRPCFrame_def Let_def MessageHeaderLength_def mk_frame_def unat_len32)
qed

lemma Validate_mk_frame [simp]: "length p < 2 ^ 32 \<Longrightarrow> ValidateGRPCFrame (mk_frame flags p) = None"
  by (auto simp: Validate_None_iff)

lemma Validate_frame_list: "list_all frame_ok fs \<Longrightarrow> list_all (\<lambda>m. ValidateGRPCFrame m = None) (frame_list fs)"
  by (induction fs) (auto simp: frame_ok_def)

text \<open>On a validated message the flag tests do not panic, and exactly one of data and metadata holds.\<close>

lemma Validate_nonempty: "ValidateGRPCFrame msg = None \<Longrightarrow> msg \<noteq> []"
  by (auto simp: Validate_None_iff mk_frame_Cons)

lemma frame_kind_cases:
  assumes "msg \<noteq> []"
  obtains (data) "IsDataFrame msg = Inr True" "IsMetadataFrame msg = Inr False"
    | (metadata) "IsDataFrame msg = Inr False" "IsMetadataFrame msg = Inr True"
  using assms by (cases msg) (auto simp: IsDataFrame_def IsMetadataFrame_def)

lemma flags_mk_frame [simp]:
  "IsDataFrame (mk_frame flags p) = Inr (flags AND metadataMask = 0)"
  "IsMetadataFrame (mk_frame flags p) = Inr (flags AND metadataMask \<noteq> 0)"
  "IsCompressed (mk_frame flags p) = Inr (flags AND compressionMask \<noteq> 0)"
  by (simp_all add: IsDataFrame_def IsMetadataFrame_def IsCompressed_def mk_frame_Cons)

lemma EndStreamHeader_eq: "EndStreamHeader = mk_frame MetadataFlags []"
  by (simp add: mk_frame_Cons BigEndian_PutUint32_def go_defs)

section \<open>The interface of a framing\<close>

text \<open>
  What the users of the frame format rely on: an encoded frame in front of any bytes is split off
  again. From this law alone, a concatenation of frames determines the frames.
\<close>

fun unframe :: "bytes \<Rightarrow> ((MessageFlags \<times> bytes) \<times> bytes) option" where
  "unframe bs =
     (case ParseMessageHeader (take MessageHeaderLength bs) of
        Inl e \<Rightarrow> None
      | Inr (flags, len) \<Rightarrow>
          let rest = drop MessageHeaderLength bs in
          if length rest < unat len then None
          else Some ((flags, take (unat len) rest), drop (unat len) rest))"

declare unframe.simps [simp del]

locale framing =
  fixes enc :: "'f \<Rightarrow> 'b list"
    and dec :: "'b list \<Rightarrow> ('f \<times> 'b list) option"
    and ok :: "'f \<Rightarrow> bool"
  assumes dec_enc: "ok f \<Longrightarrow> dec (enc f @ rest) = Some (f, rest)"
    and enc_nonempty: "enc f \<noteq> []"
begin

lemma enc_inj: "ok f \<Longrightarrow> ok g \<Longrightarrow> enc f @ r = enc g @ r' \<Longrightarrow> f = g \<and> r = r'"
  by (metis dec_enc option.inject prod.inject)

lemma concat_enc_unique:
  "\<lbrakk>list_all ok fs; list_all ok gs; concat (map enc fs) = concat (map enc gs)\<rbrakk> \<Longrightarrow> fs = gs"
proof (induction fs arbitrary: gs)
  case Nil
  then show ?case by (cases gs) (simp_all add: enc_nonempty)
next
  case (Cons f fs)
  from Cons.prems obtain g gs' where gs: "gs = g # gs'"
    by (cases gs) (simp_all add: enc_nonempty)
  with Cons.prems have "f = g \<and> concat (map enc fs) = concat (map enc gs')"
    by (intro enc_inj) simp_all
  with Cons.IH [of gs'] Cons.prems gs show ?case by simp
qed

end

interpretation grpc_framing: framing "\<lambda>(flags, payload). mk_frame flags payload" unframe frame_ok
proof (standard, goal_cases)
  case (1 f rest)
  then show ?case
    by (cases f) (simp add: unframe.simps mk_frame_def frame_ok_def MessageHeaderLength_def
        Let_def unat_len32)
next
  case (2 f)
  then show ?case by (cases f) (simp add: mk_frame_Cons)
qed

section \<open>Properties\<close>

text \<open>
  Claim C25. \<^verbatim>\<open>ValidateGRPCFrame\<close> accepts exactly the well-formed frames: a header made of flags and
  the length of the payload that follows, and nothing behind the payload. The length fits 32 bits.
\<close>

theorem ValidateGRPCFrame_correct:
  "ValidateGRPCFrame msg = None \<longleftrightarrow>
     (\<exists>flags payload. msg = MakeMessageHeader flags (word_of_nat (length payload)) @ payload \<and>
        length payload < 2 ^ 32)"
  using Validate_None_iff [of msg] by (simp add: mk_frame_def)

text \<open>
  Frame headers survive the round trip in both directions, for all flags and all 32-bit lengths, and
  parsing fails exactly on headers of a wrong size.
\<close>

theorem message_header_roundtrip:
  "ParseMessageHeader (MakeMessageHeader flags len) = Inr (flags, len) \<and>
   (length header = MessageHeaderLength \<longleftrightarrow>
      (\<exists>flags len. ParseMessageHeader header = Inr (flags, len) \<and> MakeMessageHeader flags len = header))"
proof -
  have "\<exists>flags len. ParseMessageHeader header = Inr (flags, len) \<and> MakeMessageHeader flags len = header"
    if "length header = MessageHeaderLength"
  proof -
    from that obtain flags len where "ParseMessageHeader header = Inr (flags, len)"
      by (auto simp: ParseMessageHeader_def)
    then show ?thesis using Make_Parse by blast
  qed
  moreover have "length header = MessageHeaderLength" if "ParseMessageHeader header = Inr x" for x
    using that by (auto simp: ParseMessageHeader_def split: if_splits)
  ultimately show ?thesis by (auto simp: Parse_Make)
qed

text \<open>
  A concatenation of well-formed frames can be read in one way only: frames of the same bytes are
  the same frames.
\<close>

theorem frames_unique:
  assumes "list_all frame_ok fs" and "list_all frame_ok gs"
    and "concat (map (\<lambda>(flags, payload). mk_frame flags payload) fs) =
         concat (map (\<lambda>(flags, payload). mk_frame flags payload) gs)"
  shows "fs = gs"
  using assms by (rule grpc_framing.concat_enc_unique)

theorem frames_unique_witness:
  "concat (map (\<lambda>(flags, payload). mk_frame flags payload) [(0, [1]), (1, [])]) \<noteq>
   concat (map (\<lambda>(flags, payload). mk_frame flags payload) [(0, [1, 1])])"
  using frames_unique [of "[(0, [1]), (1, [])]" "[(0, [1, 1])]"] by (auto simp: frame_ok_def)

end
