(* ===== verification/GoIO.thy ===== *)
theory GoIO
  imports Prelude
begin

text \<open>
  The reading side of Go's \<^verbatim>\<open>io\<close> package, as far as the program uses it, and the helpers of
  \<^verbatim>\<open>internal/ioutils\<close>.

  An \<^verbatim>\<open>io.Reader\<close> outside the program (a response body, a request body, a pipe) is the script of
  its results: each element is the data and the error of one \<^verbatim>\<open>Read\<close> into a buffer that is large
  enough, and an exhausted script reports \<^verbatim>\<open>io.EOF\<close>. A \<^verbatim>\<open>Read\<close> into a shorter buffer
  takes what fits and leaves the rest, with its error, for the next call. Every finite interaction
  with a reader that obeys the interface's contract is a run of some script: short reads,
  \<^verbatim>\<open>(0, nil)\<close>, data together with an error, and data after an error are all included. Theorems
  quantify over the script, so they hold for every way of cutting the data into reads.
\<close>

type_synonym reader = "(bytes \<times> err) list"

fun rd_read :: "nat \<Rightarrow> reader \<Rightarrow> bytes \<times> err \<times> reader" where
  "rd_read c [] = ([], Some EOF, [])"
| "rd_read c ((d, e) # s) =
     (if length d \<le> c then (d, e, s) else (take c d, None, (drop c d, e) # s))"

text \<open>All the data a script holds, and a bound on the number of reads it can answer.\<close>

definition rd_content :: "reader \<Rightarrow> bytes" where
  "rd_content s = concat (map fst s)"

definition rd_size :: "reader \<Rightarrow> nat" where
  "rd_size s = sum_list (map (\<lambda>(d, _). length d + 1) s)"

text \<open>
  A script is \<open>rd_clean\<close> if the only error it reports is the \<^verbatim>\<open>io.EOF\<close> at its end, either with
  the last data or after it.
\<close>

fun rd_clean :: "reader \<Rightarrow> bool" where
  "rd_clean [] = True"
| "rd_clean ((d, e) # s) = (e = None \<and> rd_clean s \<or> e = Some EOF \<and> s = [])"

lemma rd_content_simps [simp]:
  "rd_content [] = []" "rd_content ((d, e) # s) = d @ rd_content s"
  by (simp_all add: rd_content_def)

lemma rd_size_simps [simp]: "rd_size [] = 0" "rd_size ((d, e) # s) = length d + 1 + rd_size s"
  by (simp_all add: rd_size_def)

subsection \<open>The interface of a reader\<close>

text \<open>
  What every reader of the program promises, in the states it can be in: a \<^verbatim>\<open>Read\<close> returns at
  most as many bytes as the buffer holds, and these are the next bytes of the reader's content.
\<close>

primrec reads :: "(nat \<Rightarrow> 's \<Rightarrow> bytes \<times> err \<times> 's) \<Rightarrow> nat list \<Rightarrow> 's \<Rightarrow> bytes \<times> 's" where
  "reads rd [] s = ([], s)"
| "reads rd (c # cs) s =
     (let (d, e, s') = rd c s; (ds, s'') = reads rd cs s' in (d @ ds, s''))"

text \<open>Reading with buffers of the given sizes until an error is reported, as \<^verbatim>\<open>io.ReadAll\<close> does.\<close>

primrec read_until ::
  "(nat \<Rightarrow> 's \<Rightarrow> bytes \<times> err \<times> 's) \<Rightarrow> nat list \<Rightarrow> 's \<Rightarrow> bytes \<times> err \<times> 's" where
  "read_until rd [] s = ([], None, s)"
| "read_until rd (c # cs) s =
     (case rd c s of
        (d, Some e, s') \<Rightarrow> (d, Some e, s')
      | (d, None, s') \<Rightarrow> (case read_until rd cs s' of (d', e', s'') \<Rightarrow> (d @ d', e', s'')))"

locale byte_source =
  fixes rd :: "nat \<Rightarrow> 's \<Rightarrow> bytes \<times> err \<times> 's"
    and content :: "'s \<Rightarrow> bytes"
    and invar :: "'s \<Rightarrow> bool"
  assumes rd_bound: "invar s \<Longrightarrow> rd c s = (d, e, s') \<Longrightarrow> length d \<le> c"
    and rd_content_step: "invar s \<Longrightarrow> rd c s = (d, e, s') \<Longrightarrow> content s = d @ content s'"
    and rd_invar: "invar s \<Longrightarrow> rd c s = (d, e, s') \<Longrightarrow> invar s'"
begin

lemma reads_content:
  "invar s \<Longrightarrow> reads rd cs s = (d, s') \<Longrightarrow> content s = d @ content s' \<and> invar s'"
proof (induction cs arbitrary: s d s')
  case (Cons c cs)
  obtain d1 e1 s1 where r: "rd c s = (d1, e1, s1)" by (cases "rd c s") auto
  obtain d2 s2 where rs: "reads rd cs s1 = (d2, s2)" by (cases "reads rd cs s1") auto
  from Cons.IH [OF rd_invar [OF Cons.prems(1) r] rs] rd_content_step [OF Cons.prems(1) r]
    Cons.prems(2) r rs
  show ?case by auto
qed simp

lemma read_until_content:
  "invar s \<Longrightarrow> read_until rd cs s = (d, e, s') \<Longrightarrow> content s = d @ content s' \<and> invar s'"
proof (induction cs arbitrary: s d e s')
  case (Cons c cs)
  obtain d1 e1 s1 where r: "rd c s = (d1, e1, s1)" by (cases "rd c s") auto
  obtain d2 e2 s2 where rs: "read_until rd cs s1 = (d2, e2, s2)" by (cases "read_until rd cs s1") auto
  from Cons.IH [OF rd_invar [OF Cons.prems(1) r] rs] rd_content_step [OF Cons.prems(1) r]
    rd_invar [OF Cons.prems(1) r] Cons.prems(2) r rs
  show ?case by (cases e1) auto
qed simp

end

interpretation script_source: byte_source rd_read rd_content "\<lambda>_. True"
proof (standard, goal_cases)
  case (1 s c d e s')
  then show ?case by (cases "(c, s)" rule: rd_read.cases) (auto split: if_splits)
next
  case (2 s c d e s')
  then show ?case by (cases "(c, s)" rule: rd_read.cases) (auto split: if_splits)
qed simp

lemmas rd_read_facts = script_source.rd_content_step [OF TrueI] script_source.rd_bound [OF TrueI]

lemma rd_read_size:
  assumes "rd_read c s = (d, None, s')" and "0 < c"
  shows "rd_size s' < rd_size s"
  using assms by (cases "(c, s)" rule: rd_read.cases) (auto split: if_splits)

lemma rd_read_clean:
  assumes "rd_clean s" and "rd_read c s = (d, e, s')"
  shows "rd_clean s'" and "e = None \<or> e = Some EOF \<and> s' = []"
  using assms by (cases "(c, s)" rule: rd_read.cases; auto split: if_splits)+

subsection \<open>io.CopyN into a buffer\<close>

text \<open>
  \<^verbatim>\<open>io.CopyN(&msg, r, n)\<close> with a \<^verbatim>\<open>bytes.Buffer\<close> as destination is
  \<^verbatim>\<open>(*bytes.Buffer).ReadFrom\<close> on an \<^verbatim>\<open>io.LimitedReader\<close>: it reads until the limit is
  used up or an error occurs, and \<^verbatim>\<open>io.EOF\<close> ends it without an error. \<open>CopyN\<close> returns the
  bytes appended to the buffer.
\<close>

function copy_loop :: "nat \<Rightarrow> reader \<Rightarrow> bytes \<times> err \<times> reader" where
  "copy_loop n s =
     (if n = 0 then ([], None, s)
      else case rd_read n s of
        (d, Some e, s') \<Rightarrow> (d, if e = EOF then None else Some e, s')
      | (d, None, s') \<Rightarrow>
          (case copy_loop (n - length d) s' of (d', e', s'') \<Rightarrow> (d @ d', e', s'')))"
  by pat_completeness auto
termination
  by (relation "measure (\<lambda>(n, s). rd_size s)") (auto dest: rd_read_size [OF sym])

declare copy_loop.simps [simp del]

definition CopyN :: "nat \<Rightarrow> reader \<Rightarrow> bytes \<times> err \<times> reader" where
  "CopyN n s =
     (case copy_loop n s of (d, e, s') \<Rightarrow>
        if length d = n then (d, None, s')
        else if length d < n \<and> e = None then (d, Some EOF, s')
        else (d, e, s'))"

lemma copy_loop_content:
  "copy_loop n s = (d, e, s') \<Longrightarrow> rd_content s = d @ rd_content s' \<and> length d \<le> n"
proof (induction n s arbitrary: d e s' rule: copy_loop.induct)
  case (1 n s)
  show ?case
  proof (cases "n = 0")
    case True
    with "1.prems" show ?thesis by (simp add: copy_loop.simps)
  next
    case False
    obtain d1 e1 s1 where r: "rd_read n s = (d1, e1, s1)" by (cases "rd_read n s") auto
    note step = rd_read_facts [OF r]
    from False r step "1.prems" "1.IH" [OF False r [symmetric] refl] show ?thesis
      by (auto simp: copy_loop.simps [of n s] split: option.splits prod.splits)
  qed
qed

text \<open>\<^verbatim>\<open>CopyN\<close> reports no error exactly when it copied all \<open>n\<close> bytes.\<close>

lemma CopyN_content: "CopyN n s = (d, e, s') \<Longrightarrow> rd_content s = d @ rd_content s' \<and> length d \<le> n"
  by (auto simp: CopyN_def dest: copy_loop_content split: prod.splits if_splits)

lemma CopyN_None_iff: "CopyN n s = (d, e, s') \<Longrightarrow> e = None \<longleftrightarrow> length d = n"
  by (auto simp: CopyN_def dest: copy_loop_content split: prod.splits if_splits)

text \<open>
  On a clean script, \<^verbatim>\<open>CopyN\<close> returns the next \<open>n\<close> bytes, whatever the sizes of the reads; if
  fewer are left it returns those with \<^verbatim>\<open>io.EOF\<close>.
\<close>

lemma copy_loop_clean:
  assumes "rd_clean s"
  shows "\<exists>s'. copy_loop n s = (take n (rd_content s), None, s') \<and> rd_clean s' \<and>
    rd_content s' = drop n (rd_content s)"
  using assms
proof (induction n s rule: copy_loop.induct)
  case (1 n s)
  show ?case
  proof (cases "n = 0")
    case True
    with "1.prems" show ?thesis by (simp add: copy_loop.simps)
  next
    case False
    obtain d e s1 where r: "rd_read n s = (d, e, s1)" by (cases "rd_read n s") auto
    note step = rd_read_facts [OF r]
      rd_read_clean [OF "1.prems" r]
    from False r step "1.IH" [OF False r [symmetric] refl] show ?thesis
      by (auto simp: copy_loop.simps [of n s])
  qed
qed

lemma CopyN_clean:
  assumes "rd_clean s" and "n \<le> length (rd_content s)"
  obtains s' where "CopyN n s = (take n (rd_content s), None, s')" and "rd_clean s'"
    and "rd_content s' = drop n (rd_content s)"
  using copy_loop_clean [OF assms(1), of n] assms(2) by (auto simp: CopyN_def)

lemma CopyN_clean_short:
  assumes "rd_clean s" and "length (rd_content s) < n"
  obtains s' where "CopyN n s = (rd_content s, Some EOF, s')" and "rd_clean s'"
    and "rd_content s' = []"
  using copy_loop_clean [OF assms(1), of n] assms(2) by (auto simp: CopyN_def)

text \<open>A copy that falls short has taken everything off a clean script.\<close>

lemma copy_loop_exhausts:
  assumes "rd_clean s" and "copy_loop n s = (d, e, s')" and "length d < n"
  shows "s' = []"
  using assms
proof (induction n s arbitrary: d e s' rule: copy_loop.induct)
  case (1 n s)
  obtain d1 e1 s1 where r: "rd_read n s = (d1, e1, s1)" by (cases "rd_read n s") auto
  have "0 < n" using "1.prems"(3) by simp
  show ?case
  proof (cases e1)
    case (Some e')
    then have "s1 = []" using r "1.prems"(1) by (cases s) (auto split: if_splits)
    with r Some "1.prems"(2) \<open>0 < n\<close> show ?thesis by (auto simp: copy_loop.simps [of n s])
  next
    case None
    obtain d2 e2 s2 where l: "copy_loop (n - length d1) s1 = (d2, e2, s2)"
      by (cases "copy_loop (n - length d1) s1") auto
    with r None "1.prems"(2) \<open>0 < n\<close> have eq: "d = d1 @ d2" "s' = s2"
      by (auto simp: copy_loop.simps [of n s])
    have "rd_clean s1" using rd_read_clean [OF "1.prems"(1) r] None by auto
    with "1.IH" [OF _ r [symmetric] refl None _ l] \<open>0 < n\<close> "1.prems"(3) eq show ?thesis by simp
  qed
qed

lemma CopyN_exhausts:
  assumes "rd_clean s" and "CopyN n s = (d, Some e, s')"
  shows "s' = []"
proof -
  obtain e' where l: "copy_loop n s = (d, e', s')" "length d \<noteq> n"
    using assms(2) by (auto simp: CopyN_def split: prod.splits if_splits)
  with copy_loop_content [OF l(1)] copy_loop_exhausts [OF assms(1) l(1)] show ?thesis by simp
qed

text \<open>
  The reading end of a pipe: data comes without an error. \<open>unread\<close> says that a chunk, even an empty
  one, has not been taken in full, so that its writer is still waiting.
\<close>

definition pipe_like :: "reader \<Rightarrow> bool" where
  "pipe_like s = list_all (\<lambda>(d, e). e = None \<or> d = []) s"

definition unread :: "reader \<Rightarrow> bool" where
  "unread s = list_ex (\<lambda>(_, e). e = None) s"

lemma pipe_like_unread: "pipe_like s \<Longrightarrow> rd_content s \<noteq> [] \<Longrightarrow> unread s"
  by (induction s) (auto simp: pipe_like_def unread_def)

lemma rd_read_pipe_like: "pipe_like s \<Longrightarrow> rd_read n s = (d, e, s') \<Longrightarrow> pipe_like s'"
  by (cases s) (auto simp: pipe_like_def split: if_splits)

lemma copy_loop_pipe_like: "pipe_like s \<Longrightarrow> copy_loop n s = (d, e, s') \<Longrightarrow> pipe_like s'"
proof (induction n s arbitrary: d e s' rule: copy_loop.induct)
  case (1 n s)
  obtain d1 e1 s1 where r: "rd_read n s = (d1, e1, s1)" by (cases "rd_read n s") auto
  note p = rd_read_pipe_like [OF "1.prems"(1) r]
  consider "n = 0" | e' where "0 < n" "e1 = Some e'" | "0 < n" "e1 = None" by (cases e1) auto
  then show ?case
  proof cases
    case 1
    with "1.prems" show ?thesis by (simp add: copy_loop.simps)
  next
    case 2
    with r p "1.prems"(2) show ?thesis by (simp add: copy_loop.simps [of n s])
  next
    case 3
    obtain d2 e2 s2 where l: "copy_loop (n - length d1) s1 = (d2, e2, s2)"
      by (cases "copy_loop (n - length d1) s1") auto
    with 3 r "1.prems"(2) have "s' = s2" by (simp add: copy_loop.simps [of n s])
    with "1.IH" [OF _ r [symmetric] refl 3(2) p l] 3(1) show ?thesis by simp
  qed
qed

lemma CopyN_pipe_like: "pipe_like s \<Longrightarrow> CopyN n s = (d, e, s') \<Longrightarrow> pipe_like s'"
  by (auto simp: CopyN_def dest: copy_loop_pipe_like split: prod.splits if_splits)

subsection \<open>internal/ioutils\<close>

text \<open>\<^verbatim>\<open>CopyNFull\<close> turns the \<^verbatim>\<open>io.EOF\<close> of a copy that already wrote data into
  \<^verbatim>\<open>io.ErrUnexpectedEOF\<close>.\<close>

definition CopyNFull :: "nat \<Rightarrow> reader \<Rightarrow> bytes \<times> err \<times> reader" where
  "CopyNFull n s =
     (case CopyN n s of (written, e, s') \<Rightarrow>
        (written, if e = Some EOF \<and> length written \<noteq> 0 then Some ErrUnexpectedEOF else e, s'))"

lemma CopyNFull_content:
  "CopyNFull n s = (d, e, s') \<Longrightarrow> rd_content s = d @ rd_content s' \<and> length d \<le> n"
  by (auto simp: CopyNFull_def dest: CopyN_content split: prod.splits)

lemma CopyNFull_None_iff: "CopyNFull n s = (d, e, s') \<Longrightarrow> e = None \<longleftrightarrow> length d = n"
  by (auto simp: CopyNFull_def dest: CopyN_None_iff split: prod.splits if_splits)

text \<open>A plain \<^verbatim>\<open>io.EOF\<close> from \<^verbatim>\<open>CopyNFull\<close> means that nothing was read.\<close>

lemma CopyNFull_EOF: "CopyNFull n s = (d, Some EOF, s') \<Longrightarrow> d = []"
  by (auto simp: CopyNFull_def split: prod.splits if_splits)

subsection \<open>Concatenated readers and io.ReadFull\<close>

text \<open>
  \<^verbatim>\<open>io.MultiReader(bytes.NewReader(p), r)\<close>: the bytes \<open>p\<close> not read yet, then \<open>r\<close>. Go's reader
  drops \<open>r\<close> once that has returned \<^verbatim>\<open>io.EOF\<close>; here it would go on with a script that has data after
  its end, which no script of a real reader has.
\<close>

type_synonym mreader = "bytes \<times> reader"

fun mr_read :: "nat \<Rightarrow> mreader \<Rightarrow> bytes \<times> err \<times> mreader" where
  "mr_read c (p, s) =
     (if p \<noteq> [] then (take c p, None, (drop c p, s))
      else case rd_read c s of (d, e, s') \<Rightarrow> (d, e, ([], s')))"

definition mr_content :: "mreader \<Rightarrow> bytes" where
  "mr_content m = fst m @ rd_content (snd m)"

definition mr_size :: "mreader \<Rightarrow> nat" where
  "mr_size m = length (fst m) + rd_size (snd m)"

interpretation multi_source: byte_source mr_read mr_content "\<lambda>_. True"
proof (standard, goal_cases)
  case (1 s c d e s')
  then show ?case by (cases s) (auto split: if_splits prod.splits dest: rd_read_facts(2))
next
  case (2 s c d e s')
  then show ?case
    by (cases s) (auto simp: mr_content_def split: if_splits prod.splits dest: rd_read_facts(1))
qed simp

lemmas mr_read_facts = multi_source.rd_content_step [OF TrueI] multi_source.rd_bound [OF TrueI]

lemma mr_read_size:
  assumes "mr_read c m = (d, None, m')" and "0 < c"
  shows "mr_size m' < mr_size m"
  using assms by (cases m) (auto simp: mr_size_def split: if_splits prod.splits dest: rd_read_size)

text \<open>
  \<^verbatim>\<open>io.ReadFull\<close> into a buffer of length \<open>n\<close>: an error that comes with the last byte asked
  for is dropped, an early \<^verbatim>\<open>io.EOF\<close> is unexpected unless nothing was read.
\<close>

function read_full_loop :: "nat \<Rightarrow> mreader \<Rightarrow> bytes \<times> err \<times> mreader" where
  "read_full_loop n m =
     (if n = 0 then ([], None, m)
      else case mr_read n m of
        (d, Some e, m') \<Rightarrow> (d, Some e, m')
      | (d, None, m') \<Rightarrow>
          (case read_full_loop (n - length d) m' of (d', e', m'') \<Rightarrow> (d @ d', e', m'')))"
  by pat_completeness auto
termination
  by (relation "measure (\<lambda>(n, m). mr_size m)") (auto dest: mr_read_size [OF sym])

declare read_full_loop.simps [simp del]

definition ReadFull :: "nat \<Rightarrow> mreader \<Rightarrow> bytes \<times> err \<times> mreader" where
  "ReadFull n m =
     (case read_full_loop n m of (d, e, m') \<Rightarrow>
        if n \<le> length d then (d, None, m')
        else if d \<noteq> [] \<and> e = Some EOF then (d, Some ErrUnexpectedEOF, m')
        else (d, e, m'))"

lemma read_full_loop_content:
  "read_full_loop n m = (d, e, m') \<Longrightarrow> mr_content m = d @ mr_content m' \<and> length d \<le> n"
proof (induction n m arbitrary: d e m' rule: read_full_loop.induct)
  case (1 n m)
  show ?case
  proof (cases "n = 0")
    case True
    with "1.prems" show ?thesis by (simp add: read_full_loop.simps)
  next
    case False
    obtain d1 e1 m1 where r: "mr_read n m = (d1, e1, m1)" by (cases "mr_read n m") auto
    note step = mr_read_facts [OF r]
    from False r step "1.prems" "1.IH" [OF False r [symmetric] refl] show ?thesis
      by (auto simp: read_full_loop.simps [of n m] split: option.splits prod.splits)
  qed
qed

lemma ReadFull_content:
  "ReadFull n m = (d, e, m') \<Longrightarrow> mr_content m = d @ mr_content m' \<and> length d \<le> n"
  by (auto simp: ReadFull_def dest: read_full_loop_content split: prod.splits if_splits)

subsection \<open>A buffered reader on a limited reader\<close>

text \<open>
  What a \<^verbatim>\<open>bufio.Reader\<close> gets out of \<^verbatim>\<open>io.LimitReader(r, n)\<close>: the data up to the limit or
  up to the first error, and that error (\<open>None\<close>: the data ended with \<^verbatim>\<open>io.EOF\<close>). After
  100 reads in a row without data the buffered reader gives up with \<^verbatim>\<open>io.ErrNoProgress\<close>;
  \<open>k\<close> counts them.
\<close>

definition maxConsecutiveEmptyReads :: nat where
  "maxConsecutiveEmptyReads = 100"

function drain_limited :: "nat \<Rightarrow> nat \<Rightarrow> mreader \<Rightarrow> bytes \<times> err \<times> mreader" where
  "drain_limited n k m =
     (if n = 0 then ([], None, m)
      else case mr_read n m of
        (d, Some e, m') \<Rightarrow> (d, if e = EOF then None else Some e, m')
      | (d, None, m') \<Rightarrow>
          if d = [] then
            if k + 1 = maxConsecutiveEmptyReads then ([], Some ErrNoProgress, m')
            else drain_limited n (k + 1) m'
          else (case drain_limited (n - length d) 0 m' of (d', e', m'') \<Rightarrow> (d @ d', e', m'')))"
  by pat_completeness auto
termination
  by (relation "measure (\<lambda>(n, k, m). mr_size m)") (auto dest: mr_read_size [OF sym])

declare drain_limited.simps [simp del]

text \<open>
  A script makes progress if it never answers \<^verbatim>\<open>(0, nil)\<close>, which the interface's documentation
  discourages.
\<close>

definition rd_progress :: "reader \<Rightarrow> bool" where
  "rd_progress s \<longleftrightarrow> (\<forall>(d, e) \<in> set s. d \<noteq> [] \<or> e \<noteq> None)"

definition mr_good :: "mreader \<Rightarrow> bool" where
  "mr_good m \<longleftrightarrow> rd_clean (snd m) \<and> rd_progress (snd m)"

lemma rd_read_progress:
  assumes "rd_progress s" and "rd_read c s = (d, e, s')"
  shows "rd_progress s'" and "0 < c \<Longrightarrow> d \<noteq> [] \<or> e \<noteq> None"
  using assms by (cases "(c, s)" rule: rd_read.cases; auto simp: rd_progress_def split: if_splits)+

lemma rd_read_good_cases:
  assumes "rd_clean s" and "rd_progress s" and "0 < c"
  obtains (data) d s' where "rd_read c s = (d, None, s')" "d \<noteq> []"
      "rd_content s = d @ rd_content s'" "length d \<le> c" "rd_clean s'" "rd_progress s'"
    | (last) d where "rd_read c s = (d, Some EOF, [])" "rd_content s = d" "length d \<le> c"
proof -
  obtain d e s' where r: "rd_read c s = (d, e, s')" by (cases "rd_read c s") auto
  note facts = rd_read_facts [OF r]
    rd_read_clean [OF assms(1) r] rd_read_progress [OF assms(2) r]
  from facts r that assms(3) show ?thesis by (cases e) auto
qed

lemma mr_read_good_cases:
  assumes "mr_good m" and "0 < c"
  obtains (data) d m' where "mr_read c m = (d, None, m')" "d \<noteq> []"
      "mr_content m = d @ mr_content m'" "length d \<le> c" "mr_good m'" "fst m' = drop (length d) (fst m)"
    | (last) d where "mr_read c m = (d, Some EOF, ([], []))" "mr_content m = d" "length d \<le> c"
      "fst m = []"
proof -
  obtain p s where m: "m = (p, s)" by (cases m)
  show ?thesis
  proof (cases "p = []")
    case True
    from assms m have "rd_clean s" "rd_progress s" by (simp_all add: mr_good_def)
    then show ?thesis using \<open>0 < c\<close>
      by (cases rule: rd_read_good_cases [of s c]) (use that m True in \<open>auto simp: mr_good_def mr_content_def\<close>)
  next
    case False
    show ?thesis
      by (rule data [of "take c p" "(drop c p, s)"])
        (use assms m False in \<open>auto simp: mr_good_def mr_content_def min_def\<close>)
  qed
qed

lemma mr_good_empty: "mr_good ([], [])"
  by (simp add: mr_good_def rd_progress_def)

lemma mr_content_empty [simp]: "mr_content ([], []) = []"
  by (simp add: mr_content_def)

text \<open>On such a script, both loops return exactly the next bytes, whatever the sizes of the reads.\<close>

lemma drain_limited_good:
  assumes "mr_good m"
  shows "\<exists>m'. drain_limited n k m = (take n (mr_content m), None, m') \<and> mr_good m' \<and>
    mr_content m' = drop n (mr_content m) \<and> fst m' = drop n (fst m)"
  using assms
proof (induction n k m rule: drain_limited.induct)
  case (1 n k m)
  show ?case
  proof (cases "n = 0")
    case True
    with "1.prems" show ?thesis by (simp add: drain_limited.simps)
  next
    case False
    then have "0 < n" by simp
    with "1.prems" show ?thesis
    proof (cases rule: mr_read_good_cases [of m n])
      case (data d m')
      with "1.IH"(2) [OF False data(1) [symmetric] refl refl data(2)] obtain m'' where
        "drain_limited (n - length d) 0 m' = (take (n - length d) (mr_content m'), None, m'')"
        "mr_good m''" "mr_content m'' = drop (n - length d) (mr_content m')"
        "fst m'' = drop (n - length d) (fst m')" by auto
      with data False show ?thesis by (simp add: drain_limited.simps [of n k m])
    next
      case (last d)
      with False show ?thesis by (simp add: drain_limited.simps [of n k m] mr_good_empty)
    qed
  qed
qed

lemma ReadFull_good:
  assumes "mr_good m" and "n \<le> length (mr_content m)"
  shows "\<exists>m'. ReadFull n m = (take n (mr_content m), None, m') \<and> mr_good m' \<and>
    mr_content m' = drop n (mr_content m) \<and> fst m' = drop n (fst m)"
proof -
  have "\<exists>e m'. read_full_loop n m = (take n (mr_content m), e, m') \<and> mr_good m' \<and>
    mr_content m' = drop n (mr_content m) \<and> fst m' = drop n (fst m)"
    using assms
  proof (induction n m rule: read_full_loop.induct)
    case (1 n m)
    show ?case
    proof (cases "n = 0")
      case True
      with "1.prems" show ?thesis by (simp add: read_full_loop.simps)
    next
      case False
      then have "0 < n" by simp
      with "1.prems"(1) show ?thesis
      proof (cases rule: mr_read_good_cases [of m n])
        case (data d m')
        then have "n - length d \<le> length (mr_content m')" using "1.prems"(2) by simp
        with data "1.IH" [OF False data(1) [symmetric] refl refl] obtain e m'' where
          "read_full_loop (n - length d) m' = (take (n - length d) (mr_content m'), e, m'')"
          "mr_good m''" "mr_content m'' = drop (n - length d) (mr_content m')"
        "fst m'' = drop (n - length d) (fst m')" by auto
        with data False show ?thesis by (simp add: read_full_loop.simps [of n m])
      next
        case (last d)
        with False show ?thesis by (simp add: read_full_loop.simps [of n m] mr_good_empty)
      qed
    qed
  qed
  with assms(2) show ?thesis by (auto simp: ReadFull_def)
qed

end
