(* ===== verification/GrpcWebReader.thy ===== *)
theory GrpcWebReader
  imports GoIO GrpcProto HttpHeader
begin

text \<open>
  \<^verbatim>\<open>internal/grpcweb/response_reader.go\<close> (and the constants of \<^verbatim>\<open>defs.go\<close>): the reader that
  turns a gRPC-Web response body into plain gRPC framing. It passes the bytes of the message frames
  through, recognises the trailers frame by the flag in its first byte, parses the trailers and hands
  them over, and reports the end of the stream only after that.

  The reader's state is the record \<open>responseReader\<close> with the fields of the Go struct; the embedded
  \<^verbatim>\<open>io.ReadCloser\<close> is the script \<open>rr_body\<close>. \<^verbatim>\<open>Read\<close> on a buffer of \<open>c\<close> bytes returns
  the data it placed there (its length is Go's \<^verbatim>\<open>n\<close>), the error and the new state.
\<close>

section \<open>Constants\<close>

definition compressedFlag :: byte where [go_defs]: "compressedFlag = push_bit 0 1"
definition trailerMessageFlag :: byte where [go_defs]: "trailerMessageFlag = push_bit 7 1"
definition completeHeaderLen :: nat where [go_defs]: "completeHeaderLen = 5"
definition GRPCWebOnlyHeader :: string where "GRPCWebOnlyHeader = ''Grpc-Web-Only''"

section \<open>The reader's state\<close>

text \<open>
  A decompressor wraps the reader of the trailers' data. It is a function of what that reader
  delivers (the data and the error after it, \<open>None\<close> for \<^verbatim>\<open>io.EOF\<close>), and yields the decompressed
  data, the error after it, the number of compressed bytes it read and the result of its
  \<^verbatim>\<open>Close\<close>.
\<close>

record decompressed =
  z_data :: bytes
  z_err :: err
  z_count :: nat
  z_close :: err

type_synonym Decompressor = "bytes \<Rightarrow> err \<Rightarrow> decompressed"

record responseReader =
  rr_body :: reader
  rr_decompressor :: "Decompressor option"
  rr_trailers :: "header option"
  rr_err :: err
  currMessageRemaining :: nat
  currPartialMsgHeader :: bytes
  partialTrailerData :: bytes
  hasReadData :: bool
  hasReadTrailers :: bool

definition NewResponseReader ::
  "reader \<Rightarrow> header option \<Rightarrow> Decompressor option \<Rightarrow> responseReader" where
  "NewResponseReader origResp trailers decompressor =
     \<lparr>rr_body = origResp, rr_decompressor = decompressor, rr_trailers = trailers, rr_err = None,
      currMessageRemaining = 0, currPartialMsgHeader = [], partialTrailerData = [],
      hasReadData = False, hasReadTrailers = False\<rparr>"

section \<open>consume\<close>

text \<open>
  The loop of \<^verbatim>\<open>consume\<close> over the buffer: \<open>rem\<close> and \<open>hdr\<close> are the reader's
  \<^verbatim>\<open>currMessageRemaining\<close> and \<^verbatim>\<open>currPartialMsgHeader\<close>, \<open>n\<close> counts the bytes consumed.
  A partial header longer than a complete one would make a slice bound negative, which panics; the
  reader's invariant excludes it.
\<close>

function consume_loop :: "nat \<Rightarrow> bytes \<Rightarrow> bytes \<Rightarrow> nat \<Rightarrow> go_error + nat \<times> nat \<times> bytes" where
  "consume_loop rem hdr buf n =
     (if buf = [] then Inr (n, rem, hdr)
      else
        let lastMsgBytes = (if length buf < rem then length buf else rem);
            buf = drop lastMsgBytes buf;
            rem = rem - lastMsgBytes;
            n = n + lastMsgBytes in
        if buf = [] then Inr (n, rem, hdr)
        else if hdr = [] \<and> hd buf AND trailerMessageFlag \<noteq> 0 then Inr (n, rem, hdr)
        else if completeHeaderLen < length hdr then Inl Panic
        else
          let remainingHeaderBytes = completeHeaderLen - length hdr;
              remainingHeaderBytes =
                (if length buf < remainingHeaderBytes then length buf else remainingHeaderBytes);
              hdr = hdr @ take remainingHeaderBytes buf;
              n = n + remainingHeaderBytes;
              buf = drop remainingHeaderBytes buf in
          if length hdr = completeHeaderLen
          then consume_loop (unat (BigEndian_Uint32 (drop 1 hdr))) [] buf n
          else consume_loop rem hdr buf n)"
  by pat_completeness auto
termination
  by (relation "measures [\<lambda>(rem, hdr, buf, n). length buf, \<lambda>(rem, hdr, buf, n). length hdr]")
    (auto simp: completeHeaderLen_def Let_def split: if_splits)

declare consume_loop.simps [simp del]

definition consume :: "responseReader \<Rightarrow> bytes \<Rightarrow> go_error + nat \<times> responseReader" where
  "consume r buf =
     (case consume_loop (currMessageRemaining r) (currPartialMsgHeader r) buf 0 of
        Inl e \<Rightarrow> Inl e
      | Inr (n, rem, hdr) \<Rightarrow>
          Inr (n, r\<lparr>currMessageRemaining := rem, currPartialMsgHeader := hdr\<rparr>))"

section \<open>readFullTrailers\<close>

definition add_trailers :: "header \<Rightarrow> header \<Rightarrow> header" where
  "add_trailers trailers dst =
     fold (\<lambda>(k, vs) h.
       let canonicalK = CanonicalHeaderKey k in hput canonicalK (hvalues h canonicalK @ vs) h)
     trailers dst"

definition populateTrailers :: "responseReader \<Rightarrow> header \<Rightarrow> responseReader" where
  "populateTrailers r trailers =
     r\<lparr>rr_trailers :=
        Some (add_trailers trailers (case rr_trailers r of None \<Rightarrow> [] | Some h \<Rightarrow> h))\<rparr>"

text \<open>
  The trailers' text is read through a \<^verbatim>\<open>bufio.Reader\<close> from the limited, counted (and possibly
  decompressed) frame data followed by \<^verbatim>\<open>"\r\n"\<close>; the closing line break is reached only if the
  data ends without an error. The data is taken from the reader in one go: what the buffered reader
  leaves unread when parsing fails early is not observable, because the error is returned and kept.
\<close>

definition finishTrailers ::
  "responseReader \<Rightarrow> nat \<Rightarrow> decompressed \<Rightarrow> err \<times> responseReader" where
  "finishTrailers r frameLen z =
     (let atEnd = (case z_err z of None \<Rightarrow> EOF | Some e \<Rightarrow> e);
          text = string_of (z_data z) @ (if z_err z = None then CRLF else []) in
      case ReadMIMEHeader atEnd text of (trailers, err, rest) \<Rightarrow>
        if err \<noteq> None then (err, r)
        else if rest \<noteq> [] then (Some (ErrNew ''incomplete read of trailers''), r)
        else if atEnd \<noteq> EOF then (Some atEnd, r)
        else if z_close z \<noteq> None then (z_close z, r)
        else if z_count z \<noteq> frameLen
        then (Some (ErrNew (''only read '' @ show_nat (z_count z) @ '' out of '' @
               show_nat frameLen @ '' bytes from trailers frame'')), r)
        else
          let extraBytes = int (length (partialTrailerData r)) - int completeHeaderLen - int frameLen
          in (if 0 < extraBytes then Some (ErrExtraData extraBytes) else None,
              populateTrailers r trailers))"

definition readFullTrailers :: "responseReader \<Rightarrow> err \<times> responseReader" where
  "readFullTrailers r =
     (case ReadFull completeHeaderLen (partialTrailerData r, rr_body r) of
        (_, Some e, m1) \<Rightarrow> (Some e, r\<lparr>rr_body := snd m1\<rparr>)
      | (frameHeader, None, m1) \<Rightarrow>
          let frameLen = unat (BigEndian_Uint32 (drop 1 frameHeader)) in
          case drain_limited frameLen 0 m1 of (raw, rawErr, m2) \<Rightarrow>
            if frameHeader ! 0 AND compressedFlag \<noteq> 0 then
              case rr_decompressor r of
                None \<Rightarrow> (Some ErrNoDecompressor, r\<lparr>rr_body := snd m1\<rparr>)
              | Some decompress \<Rightarrow>
                  let z = decompress raw rawErr in
                  case drain_limited (min (z_count z) frameLen) 0 m1 of (_, _, m3) \<Rightarrow>
                    finishTrailers (r\<lparr>rr_body := snd m3\<rparr>) frameLen z
            else
              finishTrailers (r\<lparr>rr_body := snd m2\<rparr>) frameLen
                \<lparr>z_data = raw, z_err = rawErr, z_count = length raw, z_close = None\<rparr>)"

section \<open>Read\<close>

definition adjustResult :: "responseReader \<Rightarrow> bytes \<times> err \<Rightarrow> bytes \<times> err" where
  "adjustResult r res =
     (case res of (d, err) \<Rightarrow>
        if hasReadTrailers r
        then ([], if d \<noteq> [] \<and> (err = None \<or> err = Some EOF)
                  then Some (ErrExtraData (int (length d))) else err)
        else if hasReadData r \<and> err = Some EOF
        then (d, if partialTrailerData r \<noteq> [] then None else Some ErrUnexpectedEOF)
        else (d, err))"

text \<open>
  \<^verbatim>\<open>doRead\<close> calls itself when the buffer held nothing but trailer bytes. The second call finds
  partial trailer data, so it reads the trailers and does not call itself again.
\<close>

definition beginRead :: "responseReader \<Rightarrow> err \<times> responseReader" where
  "beginRead r =
     (if partialTrailerData r \<noteq> [] then
        case readFullTrailers r of
          (Some e, r) \<Rightarrow> (Some e, r)
        | (None, r) \<Rightarrow> (None, r\<lparr>hasReadTrailers := True, partialTrailerData := []\<rparr>)
      else (None, r))"

function doRead :: "nat \<Rightarrow> responseReader \<Rightarrow> bytes \<times> err \<times> responseReader" where
  "doRead c r =
     (case beginRead r of
        (Some e, r1) \<Rightarrow> ([], Some e, r1)
      | (None, r1) \<Rightarrow>
          (case rd_read c (rr_body r1) of (d, err, body) \<Rightarrow>
             let r2 = r1\<lparr>rr_body := body, hasReadData := (hasReadData r1 \<or> d \<noteq> [])\<rparr> in
             if hasReadTrailers r2 then (d, err, r2)
             else case consume r2 d of
               Inl e \<Rightarrow> ([], Some e, r2)
             | Inr (nPayload, r3) \<Rightarrow>
                 let r4 = (if 0 < length d - nPayload
                           then r3\<lparr>partialTrailerData := partialTrailerData r3 @ drop nPayload d\<rparr>
                           else r3) in
                 if nPayload = 0 \<and> partialTrailerData r4 \<noteq> [] then doRead (length d) r4
                 else (take nPayload d, err, r4)))"
  by pat_completeness auto
termination
proof (relation "measure (\<lambda>(c, r). if partialTrailerData r = [] then 1 else 0)", goal_cases)
  case 1
  then show ?case by simp
next
  case (2 c r x y r1)
  then show ?case
    by (auto simp: beginRead_def consume_def Let_def split: if_splits prod.splits option.splits sum.splits)
qed

declare doRead.simps [simp del]

definition Read :: "nat \<Rightarrow> responseReader \<Rightarrow> bytes \<times> err \<times> responseReader" where
  "Read c r =
     (if rr_err r \<noteq> None then ([], rr_err r, r)
      else case doRead c r of (d, e, r1) \<Rightarrow>
        (case adjustResult r1 (d, e) of (d, e) \<Rightarrow>
           (d, e, if e \<noteq> None then r1\<lparr>rr_err := e\<rparr> else r1)))"

section \<open>consume against a byte-by-byte reference\<close>

text \<open>
  The reference automaton looks at one byte at a time: inside a message it counts down, at a frame
  boundary it stops at a trailer byte, otherwise it collects the header. It returns the number of
  bytes before the trailers and the state there.
\<close>

fun scan :: "nat \<Rightarrow> bytes \<Rightarrow> bytes \<Rightarrow> nat \<times> nat \<times> bytes" where
  "scan rem hdr [] = (0, rem, hdr)"
| "scan rem hdr (b # bs) =
     (if 0 < rem then (case scan (rem - 1) hdr bs of (n, st) \<Rightarrow> (Suc n, st))
      else if hdr = [] \<and> b AND trailerMessageFlag \<noteq> 0 then (0, rem, hdr)
      else if length hdr + 1 = completeHeaderLen
      then (case scan (unat (BigEndian_Uint32 (drop 1 (hdr @ [b])))) [] bs of (n, st) \<Rightarrow> (Suc n, st))
      else (case scan 0 (hdr @ [b]) bs of (n, st) \<Rightarrow> (Suc n, st)))"

text \<open>The states the reader can be in: a partial header is incomplete, and no message is open then.\<close>

definition parse_ok :: "nat \<Rightarrow> bytes \<Rightarrow> bool" where
  "parse_ok rem hdr \<longleftrightarrow> length hdr < completeHeaderLen \<and> (hdr \<noteq> [] \<longrightarrow> rem = 0)"

abbreviation plus_fst :: "nat \<Rightarrow> nat \<times> 'a \<Rightarrow> nat \<times> 'a" where
  "plus_fst k \<equiv> map_prod ((+) k) id"

lemma scan_message: "k \<le> rem \<Longrightarrow> k \<le> length bs \<Longrightarrow>
    scan rem hdr bs = plus_fst k (scan (rem - k) hdr (drop k bs))"
proof (induction k arbitrary: rem bs)
  case (Suc k)
  then obtain b bs' where "bs = b # bs'" by (cases bs) auto
  with Suc show ?case by (auto simp: split_beta map_prod_def)
qed (simp add: map_prod_def split_beta)

lemma scan_header:
  assumes "hdr \<noteq> [] \<or> hd bs AND trailerMessageFlag = 0" and "0 < k" and "k \<le> length bs"
    and "length hdr + k \<le> completeHeaderLen"
  shows "scan 0 hdr bs = plus_fst k
    (if length hdr + k = completeHeaderLen
     then scan (unat (BigEndian_Uint32 (drop 1 (hdr @ take k bs)))) [] (drop k bs)
     else scan 0 (hdr @ take k bs) (drop k bs))"
  using assms
proof (induction k arbitrary: hdr bs)
  case (Suc k)
  then obtain b bs' where bs: "bs = b # bs'" by (cases bs) auto
  show ?case
  proof (cases "k = 0")
    case True
    with Suc bs show ?thesis by (auto simp: split_beta map_prod_def)
  next
    case False
    with Suc.prems bs have "scan 0 hdr bs = plus_fst 1 (scan 0 (hdr @ [b]) bs')"
      by (auto simp: split_beta map_prod_def)
    with False Suc.IH [of "hdr @ [b]" bs'] Suc.prems bs show ?thesis
      by (auto simp: map_prod_def split_beta)
  qed
qed simp

text \<open>\<^verbatim>\<open>consume\<close> processes whole runs of bytes, and agrees with the reference.\<close>

lemma consume_loop_scan:
  "parse_ok rem hdr \<Longrightarrow> consume_loop rem hdr buf n = Inr (plus_fst n (scan rem hdr buf))"
proof (induction rem hdr buf n rule: consume_loop.induct)
  case (1 rem hdr buf n)
  show ?case
  proof (cases "buf = []")
    case True
    then show ?thesis by (simp add: consume_loop.simps)
  next
    case False
    define l where "l = (if length buf < rem then length buf else rem)"
    define buf' where "buf' = drop l buf"
    define k where "k = (if length buf' < completeHeaderLen - length hdr then length buf'
      else completeHeaderLen - length hdr)"
    have unf: "consume_loop rem hdr buf n =
       (if buf' = [] then Inr (n + l, rem - l, hdr)
        else if hdr = [] \<and> hd buf' AND trailerMessageFlag \<noteq> 0 then Inr (n + l, rem - l, hdr)
        else if completeHeaderLen < length hdr then Inl Panic
        else if length (hdr @ take k buf') = completeHeaderLen
        then consume_loop (unat (BigEndian_Uint32 (drop 1 (hdr @ take k buf')))) []
               (drop k buf') (n + l + k)
        else consume_loop (rem - l) (hdr @ take k buf') (drop k buf') (n + l + k))"
      by (subst consume_loop.simps) (simp only: False if_False Let_def l_def buf'_def k_def)
    have sc: "scan rem hdr buf = plus_fst l (scan (rem - l) hdr buf')"
      unfolding buf'_def by (rule scan_message) (auto simp: l_def)
    show ?thesis
    proof (cases "buf' = [] \<or> hdr = [] \<and> hd buf' AND trailerMessageFlag \<noteq> 0")
      case True
      then have "scan (rem - l) hdr buf' = (0, rem - l, hdr)"
        by (cases buf') (auto simp: buf'_def l_def split: if_splits)
      with True sc show ?thesis by (auto simp: unf)
    next
      case no: False
      then have rem0: "rem - l = 0" by (auto simp: buf'_def l_def split: if_splits)
      have k: "0 < k" "k \<le> length buf'" "length hdr + k \<le> completeHeaderLen"
        "\<not> completeHeaderLen < length hdr"
        using no "1.prems" by (auto simp: k_def parse_ok_def)
      from no k have "scan 0 hdr buf' = plus_fst k
        (if length hdr + k = completeHeaderLen
         then scan (unat (BigEndian_Uint32 (drop 1 (hdr @ take k buf')))) [] (drop k buf')
         else scan 0 (hdr @ take k buf') (drop k buf'))"
        by (intro scan_header) auto
      moreover note IH = "1.IH" [OF False l_def buf'_def refl refl _ _ k(4) refl k_def refl refl refl]
      moreover have "parse_ok 0 (hdr @ take k buf')" if "length hdr + k \<noteq> completeHeaderLen"
        using k that by (simp add: parse_ok_def)
      moreover have "parse_ok x []" for x by (simp add: parse_ok_def completeHeaderLen_def)
      ultimately show ?thesis
        using no k sc rem0 by (auto simp: unf map_prod_def split_beta add.assoc)
    qed
  qed
qed

lemma scan_append:
  "scan rem hdr (xs @ ys) =
     (case scan rem hdr xs of (n, rem', hdr') \<Rightarrow>
        if n < length xs then (n, rem', hdr') else plus_fst n (scan rem' hdr' ys))"
  by (induction rem hdr xs rule: scan.induct) (auto simp: split_beta map_prod_def)

lemma scan_bounds:
  "parse_ok rem hdr \<Longrightarrow> scan rem hdr bs = (n, rem', hdr') \<Longrightarrow>
     n \<le> length bs \<and> parse_ok rem' hdr' \<and>
     (n < length bs \<longrightarrow> rem' = 0 \<and> hdr' = [] \<and> bs ! n AND trailerMessageFlag \<noteq> 0)"
proof (induction rem hdr bs arbitrary: n rem' hdr' rule: scan.induct)
  case (2 rem hdr b bs)
  have ok: "parse_ok (rem - 1) hdr" if "0 < rem" using that "2.prems"(1) by (auto simp: parse_ok_def)
  have ok': "parse_ok x []" for x by (simp add: parse_ok_def completeHeaderLen_def)
  have ok'': "parse_ok 0 (hdr @ [b])" if "length hdr + 1 \<noteq> completeHeaderLen"
    using that "2.prems"(1) by (simp add: parse_ok_def)
  show ?case
  proof (cases "0 < rem")
    case True
    with "2.prems"(2) "2.IH"(1) [OF True ok [OF True]] show ?thesis by (auto split: prod.splits)
  next
    case rem: False
    show ?thesis
    proof (cases "hdr = [] \<and> b AND trailerMessageFlag \<noteq> 0")
      case True
      with rem "2.prems" show ?thesis by simp
    next
      case False
      show ?thesis
      proof (cases "length hdr + 1 = completeHeaderLen")
        case True
        with rem False "2.prems"(2) "2.IH"(2) [OF rem False True ok'] show ?thesis
          by (auto split: prod.splits)
      next
        case c: False
        with rem False "2.prems"(2) "2.IH"(3) [OF rem False c ok'' [OF c]] show ?thesis
          by (auto split: prod.splits)
      qed
    qed
  qed
qed (simp add: parse_ok_def)

text \<open>A message frame is passed over as a whole; the scan stops at a trailers frame.\<close>

lemma trailer_mask: "trailerMessageFlag = metadataMask"
  by (simp add: go_defs)

lemma scan_frame:
  assumes "flags AND trailerMessageFlag = 0" and "length p < 2 ^ 32"
  shows "scan 0 [] (mk_frame flags p @ bs) = plus_fst (5 + length p) (scan 0 [] bs)"
proof -
  let ?h = "MakeMessageHeader flags (word_of_nat (length p))"
  have h: "hd (?h @ p @ bs) AND trailerMessageFlag = 0" "take 5 (?h @ p @ bs) = ?h"
    "drop 5 (?h @ p @ bs) = p @ bs" "unat (BigEndian_Uint32 (drop 1 ?h)) = length p"
    using assms by (simp_all add: MakeMessageHeader_eq unat_len32)
  have "scan 0 [] (?h @ p @ bs) = plus_fst 5 (scan (length p) [] (p @ bs))"
    using scan_header [of "[]" "?h @ p @ bs" 5] h by (simp add: completeHeaderLen_def)
  also have "scan (length p) [] (p @ bs) = plus_fst (length p) (scan 0 [] bs)"
    using scan_message [of "length p" "length p" "p @ bs" "[]"] by simp
  finally show ?thesis by (simp add: mk_frame_def map_prod_def split_beta add.assoc)
qed

lemma scan_frames:
  assumes "list_all (\<lambda>(flags, p). flags AND trailerMessageFlag = 0 \<and> length p < 2 ^ 32) fs"
  shows "scan 0 [] (concat (map (\<lambda>(flags, p). mk_frame flags p) fs) @ bs) =
    plus_fst (length (concat (map (\<lambda>(flags, p). mk_frame flags p) fs))) (scan 0 [] bs)"
  using assms
  by (induction fs) (auto simp: scan_frame map_prod_def split_beta add.assoc)

lemma scan_trailer: "b AND trailerMessageFlag \<noteq> 0 \<Longrightarrow> scan 0 [] (b # bs) = (0, 0, [])"
  by simp

section \<open>The reader's invariant\<close>

text \<open>
  The parser's state is consistent, and trailer bytes are kept back only from the frame boundary at
  which the trailers frame starts.
\<close>

definition reader_inv :: "responseReader \<Rightarrow> bool" where
  "reader_inv r \<longleftrightarrow>
     parse_ok (currMessageRemaining r) (currPartialMsgHeader r) \<and>
     (partialTrailerData r \<noteq> [] \<longrightarrow>
        hasReadData r \<and> \<not> hasReadTrailers r \<and> currMessageRemaining r = 0 \<and>
        currPartialMsgHeader r = [] \<and> hd (partialTrailerData r) AND trailerMessageFlag \<noteq> 0)"

text \<open>The message bytes that the reader will still deliver: those before the trailers frame.\<close>

definition pending :: "responseReader \<Rightarrow> bytes" where
  "pending r = partialTrailerData r @ rd_content (rr_body r)"

definition payload_left :: "responseReader \<Rightarrow> bytes" where
  "payload_left r =
     (if hasReadTrailers r then []
      else take (fst (scan (currMessageRemaining r) (currPartialMsgHeader r) (pending r))) (pending r))"

lemma reader_inv_New: "reader_inv (NewResponseReader s t z)"
  by (simp add: reader_inv_def NewResponseReader_def parse_ok_def completeHeaderLen_def)

lemma payload_left_partial:
  "reader_inv r \<Longrightarrow> partialTrailerData r \<noteq> [] \<Longrightarrow> payload_left r = []"
  by (cases "partialTrailerData r") (auto simp: reader_inv_def payload_left_def pending_def)

text \<open>\<^verbatim>\<open>consume\<close> does not panic in a consistent state.\<close>

lemma consume_scan:
  assumes "reader_inv r"
    and "scan (currMessageRemaining r) (currPartialMsgHeader r) buf = (n, rem, hdr)"
  shows "consume r buf = Inr (n, r\<lparr>currMessageRemaining := rem, currPartialMsgHeader := hdr\<rparr>)"
  using assms by (simp add: consume_def consume_loop_scan reader_inv_def)

text \<open>Reading the trailers touches only the body and the trailers.\<close>

definition parser_part ::
  "responseReader \<Rightarrow> nat \<times> bytes \<times> bytes \<times> bool \<times> bool \<times> err \<times> Decompressor option" where
  "parser_part r =
     (currMessageRemaining r, currPartialMsgHeader r, partialTrailerData r, hasReadData r,
      hasReadTrailers r, rr_err r, rr_decompressor r)"

lemma parser_part_body [simp]: "parser_part (r\<lparr>rr_body := b\<rparr>) = parser_part r"
  by (simp add: parser_part_def)

lemma parser_part_populate [simp]: "parser_part (populateTrailers r t) = parser_part r"
  by (simp add: parser_part_def populateTrailers_def Let_def)

lemma parser_part_finish [simp]: "parser_part (snd (finishTrailers r n z)) = parser_part r"
  by (simp add: finishTrailers_def Let_def split: prod.split)

lemma parser_part_trailers: "parser_part (snd (readFullTrailers r)) = parser_part r"
  by (simp add: readFullTrailers_def Let_def split: prod.split option.split)

lemma readFullTrailers_frame:
  assumes "readFullTrailers r = (e, r')"
  shows "currMessageRemaining r' = currMessageRemaining r"
    "currPartialMsgHeader r' = currPartialMsgHeader r" "partialTrailerData r' = partialTrailerData r"
    "hasReadData r' = hasReadData r" "hasReadTrailers r' = hasReadTrailers r" "rr_err r' = rr_err r"
  using parser_part_trailers [of r] assms by (simp_all add: parser_part_def)

section \<open>doRead in each phase\<close>

text \<open>Phase 1: no trailer byte seen yet.\<close>

definition after_read :: "responseReader \<Rightarrow> bytes \<Rightarrow> reader \<Rightarrow> responseReader" where
  "after_read r d body =
     (case scan (currMessageRemaining r) (currPartialMsgHeader r) d of (n, rem, hdr) \<Rightarrow>
        r\<lparr>rr_body := body, hasReadData := (hasReadData r \<or> d \<noteq> []), currMessageRemaining := rem,
          currPartialMsgHeader := hdr, partialTrailerData := drop n d\<rparr>)"

lemma doRead_messages:
  assumes "reader_inv r" and "partialTrailerData r = []" and "\<not> hasReadTrailers r"
    and "rd_read c (rr_body r) = (d, err, body)"
    and "scan (currMessageRemaining r) (currPartialMsgHeader r) d = (n, rem, hdr)"
  shows "doRead c r =
    (if n = 0 \<and> d \<noteq> [] then doRead (length d) (after_read r d body)
     else (take n d, err, after_read r d body))"
proof -
  let ?r2 = "r\<lparr>rr_body := body, hasReadData := (hasReadData r \<or> d \<noteq> [])\<rparr>"
  have "reader_inv ?r2" using assms(1,2) by (simp add: reader_inv_def)
  then have con: "consume ?r2 d = Inr (n, ?r2\<lparr>currMessageRemaining := rem, currPartialMsgHeader := hdr\<rparr>)"
    using assms(5) by (intro consume_scan) simp_all
  have "n \<le> length d" using scan_bounds [OF _ assms(5)] assms(1) by (simp add: reader_inv_def)
  then show ?thesis
    using assms(2,3,5) con
    by (subst doRead.simps) (auto simp: beginRead_def assms(4) after_read_def Let_def)
qed

text \<open>Phase 2: trailer bytes are waiting.\<close>

lemma doRead_partial:
  assumes "partialTrailerData r \<noteq> []"
  shows "doRead c r =
    (case readFullTrailers r of
       (Some e, r1) \<Rightarrow> ([], Some e, r1)
     | (None, r1) \<Rightarrow>
         (case rd_read c (rr_body r1) of (d, err, body) \<Rightarrow>
            (d, err, r1\<lparr>hasReadTrailers := True, partialTrailerData := [], rr_body := body,
                        hasReadData := (hasReadData r1 \<or> d \<noteq> [])\<rparr>)))"
  using assms by (subst doRead.simps)
    (simp add: beginRead_def Let_def split: prod.split option.split)

text \<open>Phase 3: the trailers have been read.\<close>

lemma doRead_done:
  assumes "partialTrailerData r = []" and "hasReadTrailers r"
  shows "doRead c r =
    (case rd_read c (rr_body r) of (d, err, body) \<Rightarrow>
       (d, err, r\<lparr>rr_body := body, hasReadData := (hasReadData r \<or> d \<noteq> [])\<rparr>))"
  using assms by (subst doRead.simps) (simp add: beginRead_def Let_def split: prod.split)

lemma after_read_inv:
  assumes "reader_inv r" and "partialTrailerData r = []" and "\<not> hasReadTrailers r"
  shows "reader_inv (after_read r d body)"
proof -
  obtain n rem hdr where sc: "scan (currMessageRemaining r) (currPartialMsgHeader r) d = (n, rem, hdr)"
    by (cases "scan (currMessageRemaining r) (currPartialMsgHeader r) d") auto
  have "n \<le> length d \<and> parse_ok rem hdr \<and>
    (n < length d \<longrightarrow> rem = 0 \<and> hdr = [] \<and> d ! n AND trailerMessageFlag \<noteq> 0)"
    using assms(1) by (intro scan_bounds [OF _ sc]) (simp add: reader_inv_def)
  with assms sc show ?thesis
    by (auto simp: reader_inv_def after_read_def hd_drop_conv_nth)
qed

lemma after_read_payload:
  assumes "reader_inv r" and "partialTrailerData r = []" and "\<not> hasReadTrailers r"
    and "rd_content (rr_body r) = d @ rd_content body"
    and sc: "scan (currMessageRemaining r) (currPartialMsgHeader r) d = (n, rem, hdr)"
  shows "payload_left r = take n d @ payload_left (after_read r d body)"
proof -
  have b: "n \<le> length d \<and> parse_ok rem hdr \<and>
    (n < length d \<longrightarrow> rem = 0 \<and> hdr = [] \<and> d ! n AND trailerMessageFlag \<noteq> 0)"
    using assms(1) by (intro scan_bounds [OF _ sc]) (simp add: reader_inv_def)
  have p: "pending r = d @ rd_content body" using assms(2,4) by (simp add: pending_def)
  show ?thesis
  proof (cases "n < length d")
    case True
    then have "partialTrailerData (after_read r d body) \<noteq> []"
      by (simp add: after_read_def sc)
    then have "payload_left (after_read r d body) = []"
      using payload_left_partial after_read_inv [OF assms(1-3)] by blast
    with True sc p assms(3) show ?thesis by (simp add: payload_left_def scan_append)
  next
    case False
    with b have "n = length d" by simp
    with sc p assms(3) show ?thesis
      by (simp add: payload_left_def scan_append after_read_def pending_def map_prod_def split_beta)
  qed
qed

section \<open>The reader is a byte source\<close>

text \<open>One call of \<^verbatim>\<open>doRead\<close>, for any body: the result respects the buffer, the invariant holds
  afterwards, and the bytes delivered (none once trailers have been read) are message bytes.\<close>

definition delivered :: "responseReader \<Rightarrow> bytes \<Rightarrow> bytes" where
  "delivered r d = (if hasReadTrailers r then [] else d)"

lemma doRead_partial_step:
  assumes "reader_inv r" and "partialTrailerData r \<noteq> []" and "doRead c r = (d, e, r')"
  shows "length d \<le> c \<and> reader_inv r' \<and> delivered r' d = [] \<and> payload_left r' = []"
proof -
  obtain e1 r1 where t: "readFullTrailers r = (e1, r1)" by (cases "readFullTrailers r")
  obtain d2 e2 b2 where rd: "rd_read c (rr_body r1) = (d2, e2, b2)" by (cases "rd_read c (rr_body r1)") auto
  note f = readFullTrailers_frame [OF t]
  show ?thesis
  proof (cases e1)
    case None
    with assms t f rd rd_read_facts(2) [OF rd] show ?thesis
      by (auto simp: doRead_partial delivered_def reader_inv_def payload_left_def)
  next
    case (Some e0)
    then have "d = []" "r' = r1" using assms(2,3) t by (simp_all add: doRead_partial)
    moreover have "reader_inv r1" using assms(1) f by (simp add: reader_inv_def)
    ultimately show ?thesis
      using assms(2) f payload_left_partial [of r1] by (simp add: delivered_def)
  qed
qed

lemma doRead_step:
  assumes "reader_inv r" and "doRead c r = (d, e, r')"
  shows "length d \<le> c \<and> reader_inv r' \<and> payload_left r = delivered r' d @ payload_left r'"
proof (cases "partialTrailerData r = []")
  case False
  with assms doRead_partial_step [of r c d e r'] payload_left_partial [of r] show ?thesis by simp
next
  case part: True
  obtain d1 e1 b1 where rd: "rd_read c (rr_body r) = (d1, e1, b1)" by (cases "rd_read c (rr_body r)") auto
  note rf = rd_read_facts [OF rd]
  show ?thesis
  proof (cases "hasReadTrailers r")
    case True
    with part assms rd rf show ?thesis
      by (auto simp: doRead_done reader_inv_def delivered_def payload_left_def)
  next
    case False
    obtain n rem hdr where sc: "scan (currMessageRemaining r) (currPartialMsgHeader r) d1 = (n, rem, hdr)"
      by (cases "scan (currMessageRemaining r) (currPartialMsgHeader r) d1") auto
    let ?r1 = "after_read r d1 b1"
    note eq = doRead_messages [OF assms(1) part False rd sc]
    note inv = after_read_inv [OF assms(1) part False]
    note pl = after_read_payload [OF assms(1) part False rf(1) sc]
    have hrt: "hasReadTrailers ?r1 = False" using False by (simp add: after_read_def sc)
    show ?thesis
    proof (cases "n = 0 \<and> d1 \<noteq> []")
      case True
      then have p: "partialTrailerData ?r1 \<noteq> []" by (simp add: after_read_def sc)
      have "doRead (length d1) ?r1 = (d, e, r')" using assms(2) eq True by simp
      from doRead_partial_step [OF inv p this] pl True rf(2) payload_left_partial [OF inv p]
      show ?thesis by simp
    next
      case False
      then show ?thesis using assms(2) eq inv pl rf(2) hrt by (auto simp: delivered_def)
    qed
  qed
qed

lemma adjustResult_delivered:
  "adjustResult r (d, e) = (d', e') \<Longrightarrow> d' = delivered r d"
  by (auto simp: adjustResult_def delivered_def split: if_splits)

lemma Read_step:
  assumes "reader_inv r" and "Read c r = (d, e, r')"
  shows "length d \<le> c" and "reader_inv r'" and "payload_left r = d @ payload_left r'"
proof -
  obtain d1 e1 r1 where dr: "doRead c r = (d1, e1, r1)" by (cases "doRead c r") auto
  obtain d2 e2 where ad: "adjustResult r1 (d1, e1) = (d2, e2)" by (cases "adjustResult r1 (d1, e1)")
  have upd: "reader_inv (r1\<lparr>rr_err := x\<rparr>) = reader_inv r1"
    "payload_left (r1\<lparr>rr_err := x\<rparr>) = payload_left r1" for x
    by (simp_all add: reader_inv_def payload_left_def pending_def)
  note facts = doRead_step [OF assms(1) dr] adjustResult_delivered [OF ad]
  have "length d \<le> c \<and> reader_inv r' \<and> payload_left r = d @ payload_left r'"
    using assms facts
    by (auto simp: Read_def dr ad upd delivered_def split: if_splits)
  then show "length d \<le> c" "reader_inv r'" "payload_left r = d @ payload_left r'" by simp_all
qed

interpretation web_source: byte_source Read payload_left reader_inv
  by standard (fact Read_step)+

section \<open>A well-formed response\<close>

text \<open>Reading a trailers frame that is not compressed, with \<open>rest\<close> behind it.\<close>

lemma finishTrailers_plain:
  assumes "ReadMIMEHeader EOF (text @ CRLF) = (tr, None, [])"
  shows "finishTrailers r (length text)
      \<lparr>z_data = bytes_of text, z_err = None, z_count = length text, z_close = None\<rparr> =
    (let extra = int (length (partialTrailerData r)) - 5 - int (length text)
     in (if 0 < extra then Some (ErrExtraData extra) else None, populateTrailers r tr))"
  using assms by (simp add: finishTrailers_def completeHeaderLen_def Let_def)

lemma readFullTrailers_plain:
  assumes "mr_good (partialTrailerData r, rr_body r)"
    and "pending r = mk_frame flags (bytes_of text) @ rest"
    and "flags AND compressedFlag = 0" and "length text < 2 ^ 32"
    and "ReadMIMEHeader EOF (text @ CRLF) = (tr, None, [])"
  obtains m where "mr_good m" and "mr_content m = rest"
    and "fst m = drop (5 + length text) (partialTrailerData r)"
    and "readFullTrailers r =
      (let extra = int (length (partialTrailerData r)) - 5 - int (length text)
       in (if 0 < extra then Some (ErrExtraData extra) else None,
           populateTrailers (r\<lparr>rr_body := snd m\<rparr>) tr))"
proof -
  let ?m0 = "(partialTrailerData r, rr_body r)"
  let ?h = "MakeMessageHeader flags (word_of_nat (length text))"
  have c0: "mr_content ?m0 = ?h @ bytes_of text @ rest"
    using assms(2) by (simp add: pending_def mr_content_def mk_frame_def)
  obtain m1 where m1: "ReadFull 5 ?m0 = (?h, None, m1)" "mr_good m1"
    "mr_content m1 = bytes_of text @ rest" "fst m1 = drop 5 (partialTrailerData r)"
    using ReadFull_good [OF assms(1), of 5] unfolding c0 by auto
  obtain m2 where m2: "drain_limited (length text) 0 m1 = (bytes_of text, None, m2)" "mr_good m2"
    "mr_content m2 = rest" "fst m2 = drop (length text) (fst m1)"
    using drain_limited_good [OF m1(2), of "length text" 0] unfolding m1(3) by auto
  have len: "unat (BigEndian_Uint32 (drop (Suc 0) ?h)) = length text" "?h ! 0 = flags"
    using assms(4) by (simp_all add: MakeMessageHeader_eq unat_len32)
  have "readFullTrailers r =
      finishTrailers (r\<lparr>rr_body := snd m2\<rparr>) (length text)
        \<lparr>z_data = bytes_of text, z_err = None, z_count = length text, z_close = None\<rparr>"
    by (simp add: readFullTrailers_def completeHeaderLen_def m1(1) len m2(1) assms(3) Let_def)
  with that [OF m2(2,3)] m2(4) m1(4) show ?thesis
    by (simp add: finishTrailers_plain [OF assms(5)] Let_def add.commute)
qed

text \<open>
  The states on the way through a well-formed response: the message bytes \<open>left\<close> are still to be
  delivered, then the trailers frame \<open>tf\<close> follows.
\<close>

definition on_track :: "responseReader \<Rightarrow> bytes \<Rightarrow> bytes \<Rightarrow> bool" where
  "on_track r left tf \<longleftrightarrow>
     reader_inv r \<and> rr_err r = None \<and> \<not> hasReadTrailers r \<and> rd_clean (rr_body r) \<and>
     rd_progress (rr_body r) \<and> pending r = left @ tf \<and> payload_left r = left"

lemma on_track_New:
  assumes "rd_clean s" and "rd_progress s" and "rd_content s = left @ tf"
    and "fst (scan 0 [] (left @ tf)) = length left"
  shows "on_track (NewResponseReader s t z) left tf"
  using assms reader_inv_New [of s t z]
  by (simp add: on_track_def payload_left_def pending_def NewResponseReader_def)

text \<open>How the stream ends, depending on what follows the trailers frame.\<close>

definition end_error :: "bytes \<Rightarrow> go_error \<Rightarrow> bool" where
  "end_error rest e \<longleftrightarrow>
     (case e of EOF \<Rightarrow> rest = []
      | ErrExtraData n \<Rightarrow> 0 < n \<and> n \<le> int (length rest)
      | _ \<Rightarrow> False)"

definition old_trailers :: "responseReader \<Rightarrow> header" where
  "old_trailers r = (case rr_trailers r of None \<Rightarrow> [] | Some h \<Rightarrow> h)"

lemma on_track_trailers:
  assumes "on_track r [] (mk_frame flags (bytes_of text) @ rest)" and "partialTrailerData r \<noteq> []"
    and "flags AND compressedFlag = 0" and "length text < 2 ^ 32"
    and "ReadMIMEHeader EOF (text @ CRLF) = (tr, None, [])" and "0 < c"
  obtains d e r' e' where "doRead c r = (d, e, r')" and "adjustResult r' (d, e) = ([], Some e')"
    and "end_error rest e'" and "rr_trailers r' = Some (add_trailers tr (old_trailers r))"
proof -
  have g: "mr_good (partialTrailerData r, rr_body r)"
    and p: "pending r = mk_frame flags (bytes_of text) @ rest"
    using assms(1) by (simp_all add: on_track_def mr_good_def)
  let ?r1 = "\<lambda>m. populateTrailers (r\<lparr>rr_body := snd m\<rparr>) tr"
  from g p assms(3-5) obtain m where m: "mr_good m" "mr_content m = rest"
    "fst m = drop (5 + length text) (partialTrailerData r)"
    "readFullTrailers r =
      (let extra = int (length (partialTrailerData r)) - 5 - int (length text)
       in (if 0 < extra then Some (ErrExtraData extra) else None, ?r1 m))"
    by (rule readFullTrailers_plain)
  have tr: "rr_trailers (?r1 m) = Some (add_trailers tr (old_trailers r))"
    by (simp add: populateTrailers_def old_trailers_def)
  show ?thesis
  proof (cases "length (partialTrailerData r) \<le> 5 + length text")
    case True
    then have ok: "readFullTrailers r = (None, ?r1 m)" using m(4) by (simp add: Let_def)
    have body: "rd_clean (snd m)" "rd_progress (snd m)" "rd_content (snd m) = rest"
      using m True by (simp_all add: mr_good_def mr_content_def)
    obtain d e s where rd: "rd_read c (snd m) = (d, e, s)" by (cases "rd_read c (snd m)") auto
    let ?r' = "(?r1 m)\<lparr>hasReadTrailers := True, partialTrailerData := [], rr_body := s,
      hasReadData := (hasReadData r \<or> d \<noteq> [])\<rparr>"
    have "doRead c r = (d, e, ?r')"
      using ok assms(2) rd by (simp add: doRead_partial populateTrailers_def)
    moreover have "\<exists>e'. adjustResult ?r' (d, e) = ([], Some e') \<and> end_error rest e'"
      by (cases rule: rd_read_good_cases [OF body(1,2) assms(6)])
        (use rd body(3) in \<open>auto simp: adjustResult_def end_error_def\<close>)
    ultimately show ?thesis using that tr by (auto simp: populateTrailers_def old_trailers_def)
  next
    case False
    define n where "n = int (length (partialTrailerData r)) - 5 - int (length text)"
    have "length (partialTrailerData r) \<le> length (pending r)" by (simp add: pending_def)
    then have "0 < n" "n \<le> int (length rest)" using False by (simp_all add: p n_def)
    then have "doRead c r = ([], Some (ErrExtraData n), ?r1 m)"
      using m(4) assms(2) by (simp add: doRead_partial Let_def n_def)
    moreover have "adjustResult (?r1 m) ([], Some (ErrExtraData n)) = ([], Some (ErrExtraData n))"
      by (simp add: adjustResult_def)
    ultimately show ?thesis
      using that tr \<open>0 < n\<close> \<open>n \<le> int (length rest)\<close> by (simp add: end_error_def)
  qed
qed

text \<open>One read of the body that is not yet at the trailers, seen from the bytes that are left.\<close>

lemma on_track_after:
  assumes track: "on_track r left (mk_frame flags p @ rest)" and part: "partialTrailerData r = []" and "0 < c"
    and rd: "rd_read c (rr_body r) = (d, e, s')"
    and sc: "scan (currMessageRemaining r) (currPartialMsgHeader r) d = (n, rem, hdr)"
  shows "d \<noteq> []" and "left = take n d @ payload_left (after_read r d s')"
    and "on_track (after_read r d s') (payload_left (after_read r d s')) (mk_frame flags p @ rest)"
    and "partialTrailerData (after_read r d s') = drop n d" and "rr_trailers (after_read r d s') = rr_trailers r"
    and "hasReadData (after_read r d s')"
proof -
  let ?tf = "mk_frame flags p @ rest" and ?r1 = "after_read r d s'"
  note rf = rd_read_facts [OF rd]
  have t: "reader_inv r" "rr_err r = None" "\<not> hasReadTrailers r" "rd_clean (rr_body r)"
    "rd_progress (rr_body r)" "d @ rd_content s' = left @ ?tf" "payload_left r = left"
    using track part rf by (simp_all add: on_track_def pending_def)
  note cl = rd_read_clean [OF t(4) rd] and pr = rd_read_progress [OF t(5) rd]
  show d: "d \<noteq> []" using t(6) cl pr(2) assms(3) by (auto simp: mk_frame_Cons)
  show left: "left = take n d @ payload_left ?r1"
    using after_read_payload [OF t(1) part t(3) rf(1) sc] t(7) by simp
  have pend: "pending ?r1 = drop n d @ rd_content s'" by (simp add: pending_def after_read_def sc)
  have fields: "rr_err ?r1 = None" "\<not> hasReadTrailers ?r1" "rr_body ?r1 = s'"
    "partialTrailerData ?r1 = drop n d" "rr_trailers ?r1 = rr_trailers r" "hasReadData ?r1"
    using t d by (simp_all add: after_read_def sc)
  then show "partialTrailerData ?r1 = drop n d" "rr_trailers ?r1 = rr_trailers r" "hasReadData ?r1" by blast+
  have "take n d @ pending ?r1 = take n d @ payload_left ?r1 @ ?tf"
    using t(6) left pend by (metis append_assoc append_take_drop_id)
  then show "on_track ?r1 (payload_left ?r1) ?tf"
    using after_read_inv [OF t(1) part t(3)] fields cl(1) pr(1) by (simp add: on_track_def)
qed

lemma on_track_Read:
  assumes track: "on_track r left (mk_frame flags (bytes_of text) @ rest)"
    and "flags AND compressedFlag = 0" and "length text < 2 ^ 32"
    and "ReadMIMEHeader EOF (text @ CRLF) = (tr, None, [])" and "0 < c"
  obtains (data) d left' r' where "Read c r = (d, None, r')" "d \<noteq> []" "left = d @ left'"
      "on_track r' left' (mk_frame flags (bytes_of text) @ rest)" "rr_trailers r' = rr_trailers r"
    | (finish) e r' where "left = []" "Read c r = ([], Some e, r')" "end_error rest e"
      "rr_trailers r' = Some (add_trailers tr (old_trailers r))"
proof (cases "partialTrailerData r = []")
  case False
  then have "left = []"
    using payload_left_partial [of r] track by (auto simp: on_track_def)
  with track False assms(2-5) obtain d e r' e' where "doRead c r = (d, e, r')"
    "adjustResult r' (d, e) = ([], Some e')" "end_error rest e'"
    "rr_trailers r' = Some (add_trailers tr (old_trailers r))"
    by (auto elim: on_track_trailers)
  with \<open>left = []\<close> track show ?thesis
    by (intro finish [of e' "r'\<lparr>rr_err := Some e'\<rparr>"]) (simp_all add: Read_def on_track_def)
next
  case part: True
  obtain d e s' where rd: "rd_read c (rr_body r) = (d, e, s')" by (cases "rd_read c (rr_body r)") auto
  obtain n rem hdr where sc: "scan (currMessageRemaining r) (currPartialMsgHeader r) d = (n, rem, hdr)"
    by (cases "scan (currMessageRemaining r) (currPartialMsgHeader r) d") auto
  let ?r1 = "after_read r d s'"
  note a = on_track_after [OF track part assms(5) rd sc]
  have t: "reader_inv r" "rr_err r = None" "\<not> hasReadTrailers r" "rd_clean (rr_body r)" "\<not> hasReadTrailers ?r1"
    "reader_inv ?r1" using track a(3) by (simp_all add: on_track_def)
  note dr = doRead_messages [OF t(1) part t(3) rd sc]
  show ?thesis
  proof (cases "n = 0")
    case True
    with a(1,4) have p1: "partialTrailerData ?r1 \<noteq> []" by simp
    then have pl: "payload_left ?r1 = []" using payload_left_partial t(6) by blast
    have "0 < length d" using a(1) by simp
    from on_track_trailers [OF a(3) [unfolded pl] p1 assms(2-4) this] obtain d' e' r' e'' where
      r': "doRead (length d) ?r1 = (d', e', r')" "adjustResult r' (d', e') = ([], Some e'')"
      "end_error rest e''" "rr_trailers r' = Some (add_trailers tr (old_trailers ?r1))"
      by blast
    have "doRead c r = (d', e', r')" using dr True a(1) r'(1) by simp
    with r' t(2) a(2,5) True pl show ?thesis
      by (intro finish [of e'' "r'\<lparr>rr_err := Some e''\<rparr>"]) (simp_all add: Read_def old_trailers_def)
  next
    case False
    have "drop n d \<noteq> []" if "e = Some EOF"
      using a(3,4) rd_read_clean [OF t(4) rd] that
      by (auto simp: on_track_def pending_def mk_frame_Cons after_read_def sc)
    then have "adjustResult ?r1 (take n d, e) = (take n d, None)"
      using rd_read_clean(2) [OF t(4) rd] t(5) a(4,6) by (auto simp: adjustResult_def)
    then have "Read c r = (take n d, None, ?r1)" using dr False t(2) by (simp add: Read_def)
    then show ?thesis by (rule data [OF _ _ a(2,3,5)]) (use False a(1) in simp)
  qed
qed

text \<open>The whole response, read with any buffer sizes.\<close>

lemma on_track_read_until:
  assumes "on_track r left (mk_frame flags (bytes_of text) @ rest)"
    and "flags AND compressedFlag = 0" and "length text < 2 ^ 32"
    and "ReadMIMEHeader EOF (text @ CRLF) = (tr, None, [])"
    and "\<forall>c \<in> set cs. 0 < c" and "length left < length cs"
  shows "\<exists>e r'. read_until Read cs r = (left, Some e, r') \<and> end_error rest e \<and>
    rr_trailers r' = Some (add_trailers tr (old_trailers r))"
  using assms(1,5,6)
proof (induction cs arbitrary: r left)
  case (Cons c cs)
  from Cons.prems have "0 < c" by simp
  from Cons.prems(1) assms(2-4) this show ?case
  proof (cases rule: on_track_Read)
    case (data d left' r')
    with Cons.IH [OF data(4)] Cons.prems(2,3) show ?thesis
      by (cases d) (auto simp: old_trailers_def split: prod.splits)
  qed auto
qed simp

end
