(* ===== verification/Utils.thy ===== *)
theory Utils
  imports Prelude
begin

text \<open>
  \<^verbatim>\<open>internal/stringutils\<close>, \<^verbatim>\<open>internal/sliceutils\<close> and \<^verbatim>\<open>internal/size\<close>, with the
  functions of \<^verbatim>\<open>strings\<close> they call. A slice that may be \<^verbatim>\<open>nil\<close> is an option.
\<close>

section \<open>internal/size\<close>

definition size_B :: int where "size_B = 1"
definition size_KB :: int where "size_KB = 1024 * size_B"
definition size_MB :: int where "size_MB = 1024 * size_KB"

section \<open>strings\<close>

definition HasPrefix :: "string \<Rightarrow> string \<Rightarrow> bool" where
  "HasPrefix s p \<longleftrightarrow> take (length p) s = p"

fun strings_Index :: "string \<Rightarrow> string \<Rightarrow> int" where
  "strings_Index s sep =
     (if HasPrefix s sep then 0
      else case s of
        [] \<Rightarrow> -1
      | _ # s' \<Rightarrow> (let i = strings_Index s' sep in if i = -1 then -1 else i + 1))"

declare strings_Index.simps [simp del]

section \<open>internal/stringutils\<close>

definition Split2 :: "string \<Rightarrow> string \<Rightarrow> string \<times> string" where
  "Split2 str sep =
     (let splitIdx = strings_Index str sep in
      if splitIdx = -1 then (str, [])
      else (take (nat splitIdx) str, drop (nat splitIdx + length sep) str))"

section \<open>internal/sliceutils\<close>

definition ShallowClone :: "'a list option \<Rightarrow> 'a list option" where
  "ShallowClone src =
     (case src of
        None \<Rightarrow> None
      | Some xs \<Rightarrow> if length xs = 0 then Some [] else Some (take (length xs) xs))"

fun find_loop :: "nat \<Rightarrow> 'a list \<Rightarrow> 'a \<Rightarrow> int" where
  "find_loop i [] e = -1"
| "find_loop i (x # xs) e = (if x = e then int i else find_loop (Suc i) xs e)"

definition Find :: "'a list \<Rightarrow> 'a \<Rightarrow> int" where
  "Find xs elem = find_loop 0 xs elem"

section \<open>Correctness\<close>

text \<open>\<^verbatim>\<open>ShallowClone\<close> copies, and keeps \<^verbatim>\<open>nil\<close> apart from empty.\<close>

lemma ShallowClone_id [simp]: "ShallowClone xs = xs"
  by (simp add: ShallowClone_def split: option.splits)

lemma find_loop_spec:
  "find_loop i xs e = -1 \<and> e \<notin> set xs \<or>
   (\<exists>j < length xs. find_loop i xs e = int (i + j) \<and> xs ! j = e \<and> e \<notin> set (take j xs))"
proof (induction xs arbitrary: i)
  case (Cons x xs)
  show ?case
  proof (cases "x = e")
    case False
    from Cons.IH [of "Suc i"] show ?thesis
    proof
      assume "\<exists>j < length xs. find_loop (Suc i) xs e = int (Suc i + j) \<and> xs ! j = e \<and>
        e \<notin> set (take j xs)"
      then obtain j where "j < length xs" "find_loop (Suc i) xs e = int (Suc i + j)"
        "xs ! j = e" "e \<notin> set (take j xs)" by blast
      with False show ?thesis by (intro disjI2 exI [of _ "Suc j"]) auto
    qed (use False in auto)
  qed auto
qed simp

lemma Find_spec:
  "Find xs e = -1 \<and> e \<notin> set xs \<or>
   (\<exists>j < length xs. Find xs e = int j \<and> xs ! j = e \<and> e \<notin> set (take j xs))"
  using find_loop_spec [of 0 xs e] by (simp add: Find_def)

lemma Find_mem_iff: "Find xs e \<noteq> -1 \<longleftrightarrow> e \<in> set xs"
  using Find_spec [of xs e] by (auto dest: nth_mem)

text \<open>\<^verbatim>\<open>strings.Index\<close> finds the first occurrence.\<close>

lemma HasPrefix_iff: "HasPrefix s p \<longleftrightarrow> (\<exists>t. s = p @ t)"
  by (auto simp: HasPrefix_def) (metis append_take_drop_id)

lemma HasPrefix_append [simp]: "HasPrefix (p @ t) p"
  by (auto simp: HasPrefix_iff)

lemma Index_cases:
  obtains (none) "strings_Index s sep = -1" "\<And>a b. s \<noteq> a @ sep @ b"
    | (found) a b where "s = a @ sep @ b" "strings_Index s sep = int (length a)"
        "\<And>a' b'. s = a' @ sep @ b' \<Longrightarrow> length a \<le> length a'"
proof (induction s arbitrary: thesis)
  case Nil
  show ?case
  proof (cases "sep = []")
    case True
    then show ?thesis
      by (intro Nil(2) [of "[]" "[]"]) (simp_all add: strings_Index.simps [of "[]"] HasPrefix_def)
  next
    case False
    then show ?thesis
      by (intro Nil(1)) (simp_all add: strings_Index.simps [of "[]"] HasPrefix_def)
  qed
next
  case (Cons c s)
  show ?case
  proof (cases "HasPrefix (c # s) sep")
    case True
    then obtain t where "c # s = sep @ t" by (auto simp: HasPrefix_iff)
    moreover have "strings_Index (c # s) sep = 0" using True by (simp add: strings_Index.simps)
    ultimately show ?thesis by (intro Cons.prems(2) [of "[]" t]) simp_all
  next
    case False
    then have np: "a' \<noteq> []" if "c # s = a' @ sep @ b'" for a' b'
      using that by (auto simp: HasPrefix_iff)
    show ?thesis
    proof (rule Cons.IH)
      assume n: "strings_Index s sep = -1" and "\<And>a b. s \<noteq> a @ sep @ b"
      then have "c # s \<noteq> a @ sep @ b" for a b using np [of a b] by (cases a) auto
      with n False show ?thesis
        by (intro Cons.prems(1)) (simp_all add: strings_Index.simps [of "c # s"])
    next
      fix a b
      assume f: "s = a @ sep @ b" "strings_Index s sep = int (length a)"
        and m: "\<And>a' b'. s = a' @ sep @ b' \<Longrightarrow> length a \<le> length a'"
      from f(2) False have "strings_Index (c # s) sep = int (length (c # a))"
        by (simp add: strings_Index.simps [of "c # s"])
      moreover have "length (c # a) \<le> length a'" if "c # s = a' @ sep @ b'" for a' b'
        using that np [OF that] m by (cases a') auto
      ultimately show ?thesis using f(1) by (intro Cons.prems(2) [of "c # a" b]) simp_all
    qed
  qed
qed

lemma Split2_cases:
  obtains (none) "Split2 str sep = (str, [])" "\<And>a b. str \<noteq> a @ sep @ b"
    | (split) a b where "str = a @ sep @ b" "Split2 str sep = (a, b)"
        "\<And>a' b'. str = a' @ sep @ b' \<Longrightarrow> length a \<le> length a'"
  by (rule Index_cases [of str sep]) (use that in \<open>auto simp: Split2_def\<close>)

text \<open>Splitting at a single character.\<close>

lemma Split2_char: "Split2 s [c] = (if c \<in> set s then (takeWhile (\<lambda>x. x \<noteq> c) s, tl (dropWhile (\<lambda>x. x \<noteq> c) s)) else (s, []))"
proof (cases rule: Split2_cases [of s "[c]"])
  case none
  then have "c \<notin> set s" by (auto simp: in_set_conv_decomp)
  with none(1) show ?thesis by simp
next
  case (split a b)
  have "c \<notin> set a"
  proof
    assume "c \<in> set a"
    then obtain x y where "a = x @ c # y" by (auto simp: in_set_conv_decomp)
    with split(1) split(3) [of x "y @ [c] @ b"] show False by simp
  qed
  then have "takeWhile (\<lambda>x. x \<noteq> c) s = a" "dropWhile (\<lambda>x. x \<noteq> c) s = c # b"
    using split(1) by (auto simp: takeWhile_append dropWhile_append)
  with split show ?thesis by simp
qed

lemma Split2_fst_iff:
  assumes "c \<notin> set a"
  shows "fst (Split2 s [c]) = a \<longleftrightarrow> s = a \<or> (\<exists>b. s = a @ c # b)"
proof (cases "c \<in> set s")
  case True
  have "takeWhile (\<lambda>x. x \<noteq> c) s @ c # tl (dropWhile (\<lambda>x. x \<noteq> c) s) = s"
    using True by (metis (mono_tags, lifting) dropWhile_eq_Nil_conv hd_dropWhile list.collapse takeWhile_dropWhile_id)
  moreover have "takeWhile (\<lambda>x. x \<noteq> c) (a @ c # b) = a" for b using assms by (auto simp: takeWhile_append)
  ultimately show ?thesis using True assms by (metis Split2_char fst_conv)
qed (auto simp: Split2_char)

section \<open>Properties\<close>

text \<open>
  \<^verbatim>\<open>Split2\<close> splits at the first occurrence of the separator: the two parts and the separator
  between them make up the string and no earlier split exists; without an occurrence the first part is
  the whole string.
\<close>

theorem Split2_first:
  "if \<exists>a b. str = a @ sep @ b
   then \<exists>a b. Split2 str sep = (a, b) \<and> str = a @ sep @ b \<and>
     \<not> (\<exists>a' b'. str = a' @ sep @ b' \<and> length a' < length a)
   else Split2 str sep = (str, [])"
proof (cases rule: Split2_cases [of str sep])
  case none
  then show ?thesis by auto
next
  case (split a b)
  from split(3) have "\<not> (\<exists>a' b'. str = a' @ sep @ b' \<and> length a' < length a)"
    using linorder_not_less by blast
  with split(1,2) show ?thesis by auto
qed

text \<open>
  \<^verbatim>\<open>Find\<close> returns the first index of the element, and -1 exactly when there is none.
\<close>

theorem Find_first:
  "if elem \<in> set xs
   then \<exists>j < length xs. Find xs elem = int j \<and> xs ! j = elem \<and> elem \<notin> set (take j xs)
   else Find xs elem = -1"
  using Find_spec [of xs elem] Find_mem_iff [of xs elem] by auto

end
