(* ===== verification/GrpcWebWriter.thy ===== *)
theory GrpcWebWriter
  imports HttpWriter GrpcProto GrpcWebReader Utils
begin

text \<open>
  \<^verbatim>\<open>internal/grpcweb/response_writer.go\<close>: the response writer that a gRPC server writes its
  HTTP/2-style response to, and that sends it as a gRPC-Web response, with the trailers in a frame at
  the end of the body (or as headers, if nothing else was sent).
\<close>

section \<open>State\<close>

text \<open>\<open>announcedTrailers\<close> is \<open>None\<close> for a \<^verbatim>\<open>nil\<close> slice.\<close>

record responseWriter =
  rw_w :: httpWriter
  announcedTrailers :: "string list option"

definition NewResponseWriter :: "httpWriter \<Rightarrow> responseWriter" where
  "NewResponseWriter w = \<lparr>rw_w = w, announcedTrailers = None\<rparr>"

text \<open>\<^verbatim>\<open>Header\<close> returns the underlying writer's map, which the caller changes in place.\<close>

definition Header :: "responseWriter \<Rightarrow> header" where
  "Header w = hw_header (rw_w w)"

definition set_header :: "(header \<Rightarrow> header) \<Rightarrow> responseWriter \<Rightarrow> responseWriter" where
  "set_header f w = w\<lparr>rw_w := (rw_w w)\<lparr>hw_header := f (Header w)\<rparr>\<rparr>"

section \<open>Operations\<close>

definition downgradedContentType :: "string \<Rightarrow> string" where
  "downgradedContentType ct =
     (let (contentType, contentSubtype) = Split2 ct ''+'';
          respContentType = ''application/grpc-web'' in
      if contentType = ''application/grpc'' \<and> contentSubtype \<noteq> []
      then respContentType @ ''+'' @ contentSubtype else respContentType)"

definition prepareHeadersIfNecessary :: "responseWriter \<Rightarrow> responseWriter" where
  "prepareHeadersIfNecessary w =
     (if announcedTrailers w \<noteq> None then w
      else
        let hdr = Header w;
            w = w\<lparr>announcedTrailers := ShallowClone (hindex hdr ''Trailer'')\<rparr>;
            hdr = hDel ''Trailer'' hdr;
            hdr = hSet ''Content-Type'' (downgradedContentType (hGet hdr ''Content-Type'')) hdr;
            hdr = hDel ''Content-Length'' hdr in
        set_header (\<lambda>_. hdr) w)"

definition Flush :: "responseWriter \<Rightarrow> responseWriter" where
  "Flush w =
     (if announcedTrailers w = None then w
      else let w = prepareHeadersIfNecessary w in w\<lparr>rw_w := hw_Flush (rw_w w)\<rparr>)"

definition WriteHeader :: "int \<Rightarrow> responseWriter \<Rightarrow> responseWriter" where
  "WriteHeader statusCode w =
     (let w = prepareHeadersIfNecessary w in w\<lparr>rw_w := hw_WriteHeader statusCode (rw_w w)\<rparr>)"

definition Write :: "bytes \<Rightarrow> responseWriter \<Rightarrow> nat \<times> err \<times> responseWriter" where
  "Write buf w =
     (let w = prepareHeadersIfNecessary w in
      case hw_Write buf (rw_w w) of (n, e, hw) \<Rightarrow> (n, e, w\<lparr>rw_w := hw\<rparr>))"

section \<open>Finalize\<close>

definition TrailerPrefix :: string where "TrailerPrefix = ''Trailer:''"

text \<open>
  In a trailers-only response the trailers map \<^emph>\<open>is\<close> the header map, so the loop changes the map
  it iterates over. The two maps live in a store: \<open>0\<close> is the header map, and \<open>tref\<close> is \<open>0\<close> or
  \<open>1\<close>.
\<close>

type_synonym hstore = "nat \<Rightarrow> header"

definition move_trailer :: "nat \<Rightarrow> string \<Rightarrow> hstore \<Rightarrow> hstore" where
  "move_trailer tref k st =
     (case hindex (st 0) k of
        None \<Rightarrow> st
      | Some vs \<Rightarrow>
          if \<not> HasPrefix k TrailerPrefix then st
          else
            let trailerName = CanonicalHeaderKey (drop (length TrailerPrefix) k);
                st = st(tref := hput trailerName (hvalues (st tref) trailerName @ vs) (st tref))
            in st(0 := hdelete k (st 0)))"

definition announced :: "header \<Rightarrow> string list \<Rightarrow> header" where
  "announced hdr ats =
     fold (\<lambda>at tr. let at = CanonicalHeaderKey at in hput at (hvalues hdr at) tr) ats []"

definition Finalize :: "string list \<Rightarrow> responseWriter \<Rightarrow> err \<times> responseWriter" where
  "Finalize ks w =
     (let hdr = Header w in
      case announcedTrailers w of
        None \<Rightarrow>
          let st = fold (move_trailer 0) ks ((\<lambda>_. [])(0 := hdelete ''Trailer'' hdr))
          in (None, set_header (\<lambda>_. st 0) w)
      | Some ats \<Rightarrow>
          let st = fold (move_trailer 1) ks ((\<lambda>_. [])(0 := hdr, 1 := announced hdr ats));
              w = set_header (\<lambda>_. st 0) w;
              buf = bytes_of (Header_Write (st 1));
              trailerFrameHeader = trailerMessageFlag # BigEndian_PutUint32 (word_of_nat (length buf)) in
          case hw_Write trailerFrameHeader (rw_w w) of
            (_, Some e, hw) \<Rightarrow> (Some e, w\<lparr>rw_w := hw\<rparr>)
          | (_, None, hw) \<Rightarrow>
              (case hw_Write buf hw of (_, e, hw) \<Rightarrow> (e, w\<lparr>rw_w := hw\<rparr>)))"

section \<open>The loop over the trailers\<close>

text \<open>The values that \<^verbatim>\<open>Trailer:\<close>-prefixed entries contribute to a name, in the order visited.\<close>

definition names_trailer :: "string \<Rightarrow> string \<Rightarrow> bool" where
  "names_trailer name k \<longleftrightarrow>
     HasPrefix k TrailerPrefix \<and> CanonicalHeaderKey (drop (length TrailerPrefix) k) = name"

definition prefixed_values :: "header \<Rightarrow> string list \<Rightarrow> string \<Rightarrow> string list" where
  "prefixed_values h ks name = concat (map (hvalues h) (filter (names_trailer name) ks))"

lemma move_trailer_apart:
  "hvalues (move_trailer (Suc 0) k st (Suc 0)) name =
     hvalues (st (Suc 0)) name @ (if names_trailer name k then hvalues (st 0) k else [])"
  "hindex (move_trailer (Suc 0) k st 0) k' =
     (if k' = k \<and> HasPrefix k TrailerPrefix then None else hindex (st 0) k')"
  by (auto simp: move_trailer_def names_trailer_def hvalues_def Let_def split: option.splits)

lemma move_trailers_apart:
  assumes "distinct ks"
  shows "hvalues (fold (move_trailer (Suc 0)) ks st (Suc 0)) name = hvalues (st (Suc 0)) name @ prefixed_values (st 0) ks name \<and>
    hindex (fold (move_trailer (Suc 0)) ks st 0) k =
      (if k \<in> set ks \<and> HasPrefix k TrailerPrefix then None else hindex (st 0) k)"
  using assms
proof (induction ks arbitrary: st)
  case (Cons k0 ks)
  let ?st = "move_trailer (Suc 0) k0 st"
  have "prefixed_values (?st 0) ks name = prefixed_values (st 0) ks name"
    using Cons.prems unfolding prefixed_values_def
    by (intro arg_cong [where f = concat] map_cong) (auto simp: hvalues_def move_trailer_apart)
  with Cons.IH [of ?st] Cons.prems show ?case
    by (auto simp: move_trailer_apart prefixed_values_def)
qed (simp_all add: prefixed_values_def)

text \<open>The header map itself as the destination: fine unless a trailer's own name has the prefix.\<close>

definition unnested :: "string list \<Rightarrow> bool" where
  "unnested ks \<longleftrightarrow> list_all (\<lambda>k. HasPrefix k TrailerPrefix \<longrightarrow>
     \<not> HasPrefix (CanonicalHeaderKey (drop (length TrailerPrefix) k)) TrailerPrefix) ks"

lemma move_trailer_shared:
  assumes "unnested [k]"
  shows "hvalues (move_trailer 0 k st 0) name =
    (if name = k \<and> HasPrefix k TrailerPrefix then []
     else hvalues (st 0) name @ (if names_trailer name k then hvalues (st 0) k else []))"
  using assms
  by (auto simp: move_trailer_def names_trailer_def unnested_def hvalues_def Let_def split: option.splits)

lemma move_trailers_shared:
  assumes "distinct ks" and "unnested ks"
  shows "hvalues (fold (move_trailer 0) ks st 0) name =
    (if HasPrefix name TrailerPrefix then if name \<in> set ks then [] else hvalues (st 0) name
     else hvalues (st 0) name @ prefixed_values (st 0) ks name)"
  using assms
proof (induction ks arbitrary: st)
  case (Cons k0 ks)
  let ?st = "move_trailer 0 k0 st"
  have un: "unnested [k0]" "unnested ks" using Cons.prems by (simp_all add: unnested_def)
  have step: "hvalues (?st 0) k = (if k = k0 then [] else hvalues (st 0) k)"
    if "HasPrefix k TrailerPrefix" for k
    using that un(1) by (auto simp: move_trailer_shared names_trailer_def unnested_def)
  have "prefixed_values (?st 0) ks name = prefixed_values (st 0) ks name"
    using Cons.prems unfolding prefixed_values_def
    by (intro arg_cong [where f = concat] map_cong) (auto simp: names_trailer_def step)
  moreover have "hvalues (?st 0) name = hvalues (st 0) name @
      (if names_trailer name k0 then hvalues (st 0) k0 else [])" if "\<not> HasPrefix name TrailerPrefix"
    using that un(1) by (auto simp: move_trailer_shared)
  ultimately show ?case
    using Cons.IH [OF _ un(2), of ?st] Cons.prems step [of name]
    by (auto simp: prefixed_values_def)
qed (simp add: prefixed_values_def)

section \<open>The trailers that are sent\<close>

definition finalTrailers :: "string list \<Rightarrow> string list \<Rightarrow> header \<Rightarrow> header" where
  "finalTrailers ks ats hdr = fold (move_trailer 1) ks ((\<lambda>_. [])(0 := hdr, 1 := announced hdr ats)) 1"

lemma hvalues_announced:
  "hvalues (announced hdr ats) name =
     (if name \<in> CanonicalHeaderKey ` set ats then hvalues hdr name else [])"
proof -
  have "announced hdr ats = fold (\<lambda>k. hput k (hvalues hdr k)) (map CanonicalHeaderKey ats) []"
    by (simp add: announced_def fold_map comp_def Let_def)
  then show ?thesis using hmap.index_put_all [of "hvalues hdr" "map CanonicalHeaderKey ats" "[]" name]
    by (auto simp: hvalues_def)
qed

lemma hvalues_finalTrailers:
  assumes "range_order hdr ks"
  shows "hvalues (finalTrailers ks ats hdr) name =
    (if name \<in> CanonicalHeaderKey ` set ats then hvalues hdr name else []) @ prefixed_values hdr ks name"
  using move_trailers_apart assms
  by (simp add: finalTrailers_def range_order_def hvalues_announced)

text \<open>The trailers have distinct canonical names, so that the wire format keeps them apart.\<close>

definition canonical_header :: "header \<Rightarrow> bool" where
  "canonical_header h \<longleftrightarrow> header_ok h \<and> (\<forall>k \<in> fst ` set h. CanonicalHeaderKey k = k)"

lemma canonical_hput:
  "canonical_header h \<Longrightarrow> canonical_header (hput (CanonicalHeaderKey k) vs h)"
  by (auto simp: canonical_header_def hput_def dom_update header_ok_def distinct_update)

lemma canonical_announced: "canonical_header (announced hdr ats)"
proof -
  have "canonical_header h \<Longrightarrow> canonical_header
    (fold (\<lambda>at tr. let at = CanonicalHeaderKey at in hput at (hvalues hdr at) tr) ats h)" for h
    by (induction ats arbitrary: h) (simp_all add: canonical_hput Let_def)
  from this [of "[]"] show ?thesis by (simp add: announced_def canonical_header_def)
qed

lemma canonical_finalTrailers: "canonical_header (finalTrailers ks ats hdr)"
proof -
  have "canonical_header (st 1) \<Longrightarrow> canonical_header (fold (move_trailer 1) ks st 1)" for st
    by (induction ks arbitrary: st) (auto simp: move_trailer_def Let_def canonical_hput split: option.split)
  then show ?thesis by (simp add: finalTrailers_def canonical_announced)
qed

section \<open>The trailers after the wire\<close>

lemma wire_view_keys: "fst ` set (wire_view h) \<subseteq> fst ` set h"
  by (force simp: wire_view_def)

lemma header_ok_wire_view: "header_ok h \<Longrightarrow> header_ok (wire_view h)"
proof (induction h)
  case (Cons kv h)
  then show ?case using wire_view_keys [of h] by (cases kv) (auto simp: wire_view_def header_ok_def)
qed (simp add: wire_view_def)

lemma canonical_wire_view: "canonical_header h \<Longrightarrow> canonical_header (wire_view (sort_key fst h))"
  using header_ok_wire_view [OF header_ok_sort [of h]] wire_view_keys [of "sort_key fst h"]
  unfolding canonical_header_def by fastforce

text \<open>
  The trailers a finished handler leaves behind: the values of the announced names and of the
  \<^verbatim>\<open>Trailer:\<close>-prefixed entries, as they look after the wire.
\<close>

definition sent_values :: "string list \<Rightarrow> string list \<Rightarrow> header \<Rightarrow> string \<Rightarrow> string list" where
  "sent_values ks ats hdr name =
     (if valid_field_name name
      then map norm_value ((if name \<in> CanonicalHeaderKey ` set ats then hvalues hdr name else []) @
        prefixed_values hdr ks name)
      else [])"

definition on_wire :: "string \<Rightarrow> string list \<Rightarrow> string list" where
  "on_wire name vs = (if valid_field_name name then map norm_value vs else [])"

lemma hvalues_wire:
  assumes "header_ok h"
  shows "hvalues (wire_view (sort_key fst h)) name = on_wire name (hvalues h name)"
  using hindex_wire_view_sort [OF assms, of name]
  by (cases "hindex h name") (auto simp: hvalues_def wire_values_def on_wire_def)

lemma hvalues_wire_final:
  assumes "range_order hdr ks"
  shows "hvalues (wire_view (sort_key fst (finalTrailers ks ats hdr))) name = sent_values ks ats hdr name"
proof -
  have "header_ok (finalTrailers ks ats hdr)" using canonical_finalTrailers by (simp add: canonical_header_def)
  then show ?thesis
    by (simp add: hvalues_wire hvalues_finalTrailers [OF assms] on_wire_def sent_values_def)
qed

lemma canonical_names [simp]:
  "CanonicalHeaderKey ''Trailer'' = ''Trailer''"
  "CanonicalHeaderKey ''Content-Type'' = ''Content-Type''"
  "CanonicalHeaderKey ''Content-Length'' = ''Content-Length''"
  by code_simp+

end
