(* ===== verification/WebResponse.thy ===== *)
theory WebResponse
  imports GrpcWebReader
begin

text \<open>
  What a client sees when it reads a whole gRPC-Web response through the reader of
  \<^verbatim>\<open>internal/grpcweb/response_reader.go\<close>: well-formed responses, truncated ones, responses
  with data after the trailers, and the end of the stream for an arbitrary body.
\<close>

section \<open>The shape of a response\<close>

text \<open>A message frame has the trailer flag unset and a payload whose length fits the header.\<close>

definition message_frames :: "(byte \<times> bytes) list \<Rightarrow> bool" where
  "message_frames fs \<longleftrightarrow>
     list_all (\<lambda>(flags, p). flags AND trailerMessageFlag = 0 \<and> length p < 2 ^ 32) fs"

text \<open>A trailers frame that is not compressed, and whose text parses to \<open>tr\<close>.\<close>

definition trailers_frame :: "byte \<Rightarrow> string \<Rightarrow> header \<Rightarrow> bool" where
  "trailers_frame flags text tr \<longleftrightarrow>
     flags AND trailerMessageFlag \<noteq> 0 \<and> flags AND compressedFlag = 0 \<and> length text < 2 ^ 32 \<and>
     ReadMIMEHeader EOF (text @ CRLF) = (tr, None, [])"

text \<open>The bytes of a body before its trailers frame: what the client is to see.\<close>

definition message_bytes :: "bytes \<Rightarrow> bytes" where
  "message_bytes body = take (fst (scan 0 [] body)) body"

lemma payload_left_New [simp]: "payload_left (NewResponseReader s t z) = message_bytes (rd_content s)"
  by (simp add: payload_left_def NewResponseReader_def pending_def message_bytes_def)

lemma rr_err_New [simp]: "rr_err (NewResponseReader s t z) = None"
  by (simp add: NewResponseReader_def)

lemma old_trailers_New [simp]:
  "old_trailers (NewResponseReader s t z) = (case t of None \<Rightarrow> [] | Some h \<Rightarrow> h)"
  by (simp add: old_trailers_def NewResponseReader_def)

lemma end_error_Nil: "end_error [] e \<longleftrightarrow> e = EOF"
  by (cases e) (auto simp: end_error_def)

lemma end_error_extra:
  assumes "end_error rest e" and "rest \<noteq> []"
  obtains n where "e = ErrExtraData n" and "0 < n" and "n \<le> int (length rest)"
  using assms by (cases e) (auto simp: end_error_def)

lemma scan_response:
  assumes "message_frames fs" and "flags AND trailerMessageFlag \<noteq> 0"
  shows "fst (scan 0 [] (frames_bytes fs @ mk_frame flags p @ rest)) = length (frames_bytes fs)"
  using assms scan_frames [of fs "mk_frame flags p @ rest"]
  by (simp add: message_frames_def frames_bytes_def mk_frame_Cons)

lemma message_bytes_response:
  assumes "message_frames fs" and "flags AND trailerMessageFlag \<noteq> 0"
  shows "message_bytes (frames_bytes fs @ mk_frame flags p @ rest) = frames_bytes fs"
  using scan_response [OF assms] by (simp add: message_bytes_def)

lemma read_response:
  assumes "rd_clean s" and "rd_progress s"
    and "rd_content s = frames_bytes fs @ mk_frame flags (bytes_of text) @ rest"
    and "message_frames fs" and "trailers_frame flags text tr"
    and "\<forall>c \<in> set cs. 0 < c" and "length (frames_bytes fs) < length cs"
  shows "\<exists>e r'. read_until Read cs (NewResponseReader s t z) = (frames_bytes fs, Some e, r') \<and>
    end_error rest e \<and> rr_trailers r' = Some (add_trailers tr (case t of None \<Rightarrow> [] | Some h \<Rightarrow> h))"
proof -
  have "on_track (NewResponseReader s t z) (frames_bytes fs) (mk_frame flags (bytes_of text) @ rest)"
    using assms scan_response [OF assms(4)] by (intro on_track_New) (auto simp: trailers_frame_def)
  from on_track_read_until [OF this _ _ _ assms(6,7)] assms(5) show ?thesis
    by (simp add: trailers_frame_def)
qed

section \<open>Well-formed responses\<close>

text \<open>
  Claim C9. A gRPC-Web response of message frames followed by an uncompressed trailers frame is read
  in full, however the transport cuts it into pieces and whatever buffer sizes the client reads with:
  the client gets exactly the bytes of the message frames, then \<^verbatim>\<open>io.EOF\<close>, and the trailers of
  the frame have been added to the trailers it passed in.
\<close>

theorem response_read_all:
  assumes "rd_clean s" and "rd_progress s"
    and "rd_content s = frames_bytes fs @ mk_frame flags (bytes_of text)"
    and "message_frames fs" and "trailers_frame flags text tr"
    and "\<forall>c \<in> set cs. 0 < c" and "length (frames_bytes fs) < length cs"
  shows "\<exists>r'. read_until Read cs (NewResponseReader s t z) = (frames_bytes fs, Some EOF, r') \<and>
    rr_trailers r' = Some (add_trailers tr (case t of None \<Rightarrow> [] | Some h \<Rightarrow> h))"
  using read_response [of s fs flags "text" "[]" tr cs t z] assms
  by (auto simp: end_error_Nil elim: end_error_extra)

text \<open>
  Anything after the trailers frame is an error: the client still gets the message bytes and the
  trailers, but the stream ends with the number of extra bytes seen and not with \<^verbatim>\<open>io.EOF\<close>.
\<close>

theorem response_extra_data:
  assumes "rd_clean s" and "rd_progress s"
    and "rd_content s = frames_bytes fs @ mk_frame flags (bytes_of text) @ rest" and "rest \<noteq> []"
    and "message_frames fs" and "trailers_frame flags text tr"
    and "\<forall>c \<in> set cs. 0 < c" and "length (frames_bytes fs) < length cs"
  shows "\<exists>n r'. read_until Read cs (NewResponseReader s t z) =
      (frames_bytes fs, Some (ErrExtraData n), r') \<and> 0 < n \<and> n \<le> int (length rest) \<and>
    rr_trailers r' = Some (add_trailers tr (case t of None \<Rightarrow> [] | Some h \<Rightarrow> h))"
  using read_response [of s fs flags "text" rest tr cs t z] assms
  by (auto simp: end_error_Nil elim: end_error_extra)

section \<open>Truncated responses\<close>

text \<open>The states while reading a body that ends before any trailers frame.\<close>

definition truncated :: "responseReader \<Rightarrow> bytes \<Rightarrow> bool" where
  "truncated r left \<longleftrightarrow>
     on_track r left [] \<and> partialTrailerData r = [] \<and> (hasReadData r \<or> left \<noteq> [])"

lemma truncated_Read:
  assumes "truncated r left" and "0 < c"
  obtains (data) d left' r' where "Read c r = (d, None, r')" "d \<noteq> []" "left = d @ left'"
      "truncated r' left'"
    | (finish) r' where "Read c r = (left, Some ErrUnexpectedEOF, r')"
proof -
  obtain d e s' where rd: "rd_read c (rr_body r) = (d, e, s')" by (cases "rd_read c (rr_body r)") auto
  obtain n rem hdr where sc: "scan (currMessageRemaining r) (currPartialMsgHeader r) d = (n, rem, hdr)"
    by (cases "scan (currMessageRemaining r) (currPartialMsgHeader r) d") auto
  note rf = rd_read_facts [OF rd]
  let ?r1 = "after_read r d s'"
  have t: "reader_inv r" "rr_err r = None" "\<not> hasReadTrailers r" "rd_clean (rr_body r)"
    "rd_progress (rr_body r)" "left = d @ rd_content s'" "payload_left r = left"
    "partialTrailerData r = []" "hasReadData r \<or> left \<noteq> []"
    using assms(1) rf by (auto simp: truncated_def on_track_def pending_def)
  note cl = rd_read_clean [OF t(4) rd] and pr = rd_read_progress [OF t(5) rd]
  have inv: "reader_inv ?r1" by (rule after_read_inv [OF t(1,8,3)])
  have left: "left = take n d @ payload_left ?r1"
    using after_read_payload [OF t(1,8,3) rf(1) sc] t(7) by simp
  have nb: "n \<le> length d" using scan_bounds [OF _ sc] t(1) by (simp add: reader_inv_def)
  have "partialTrailerData ?r1 = [] \<and> n = length d"
  proof (rule ccontr)
    assume "\<not> ?thesis"
    with nb have lt: "n < length d" and p: "partialTrailerData ?r1 \<noteq> []"
      by (auto simp: after_read_def sc)
    have "left = take n d" using left payload_left_partial [OF inv p] by simp
    with t(6) have "length d \<le> length (take n d)" by simp
    with lt show False by simp
  qed
  then have p1: "partialTrailerData ?r1 = []" and n: "n = length d" by simp_all
  have track: "on_track ?r1 (rd_content s') []"
    using t inv left cl(1) pr(1) n p1
    by (simp add: on_track_def pending_def after_read_def sc)
  have dr: "doRead c r = (d, e, ?r1)" using doRead_messages [OF t(1,8,3) rd sc] n by simp
  have hrd: "hasReadData ?r1 \<longleftrightarrow> hasReadData r \<or> d \<noteq> []" "\<not> hasReadTrailers ?r1"
    using t(3) by (simp_all add: after_read_def sc)
  show ?thesis
  proof (cases e)
    case None
    then have "d \<noteq> []" using pr(2) assms(2) by auto
    with None dr t(2) hrd track p1 t(6) show ?thesis
      by (intro data [of d ?r1 "rd_content s'"]) (simp_all add: Read_def adjustResult_def truncated_def)
  next
    case (Some x)
    then have e: "e = Some EOF" and "s' = []" using cl(2) by simp_all
    with t(6,9) hrd have "hasReadData ?r1" "left = d" by auto
    with e dr t(2) hrd(2) p1 show ?thesis
      by (intro finish [of "?r1\<lparr>rr_err := Some ErrUnexpectedEOF\<rparr>"]) (simp add: Read_def adjustResult_def)
  qed
qed

lemma truncated_read_until:
  assumes "truncated r left" and "\<forall>c \<in> set cs. 0 < c" and "length left < length cs"
  shows "\<exists>r'. read_until Read cs r = (left, Some ErrUnexpectedEOF, r')"
  using assms
proof (induction cs arbitrary: r left)
  case (Cons c cs)
  from Cons.prems have "0 < c" by simp
  with Cons.prems(1) show ?case
  proof (cases rule: truncated_Read)
    case (data d left' r')
    with Cons.IH [OF data(4)] Cons.prems(2,3) show ?thesis by (cases d) auto
  qed auto
qed simp

lemma scan_prefix:
  assumes "fst (scan 0 [] (xs @ ys)) = length (xs @ ys)"
  shows "fst (scan 0 [] xs) = length xs"
proof -
  obtain n rem hdr where sc: "scan 0 [] xs = (n, rem, hdr)" by (cases "scan 0 [] xs") auto
  have "n \<le> length xs"
    using scan_bounds [OF _ sc] by (simp add: parse_ok_def completeHeaderLen_def)
  with assms sc show ?thesis by (auto simp: scan_append split: if_splits)
qed

lemma read_truncated:
  assumes "rd_clean s" and "rd_progress s" and "rd_content s @ lost = frames_bytes fs"
    and "message_frames fs" and "rd_content s \<noteq> []"
    and "\<forall>c \<in> set cs. 0 < c" and "length (rd_content s) < length cs"
  shows "\<exists>r'. read_until Read cs (NewResponseReader s t z) =
    (rd_content s, Some ErrUnexpectedEOF, r')"
proof -
  have "fst (scan 0 [] (rd_content s @ lost)) = length (rd_content s @ lost)"
    using scan_frames [of fs "[]"] assms(3,4) by (simp add: message_frames_def frames_bytes_def)
  then have "fst (scan 0 [] (rd_content s)) = length (rd_content s)" by (rule scan_prefix)
  then have "on_track (NewResponseReader s t z) (rd_content s) []"
    using assms(1,2) by (intro on_track_New) simp_all
  then have "truncated (NewResponseReader s t z) (rd_content s)"
    using assms(5) by (simp add: truncated_def NewResponseReader_def)
  from truncated_read_until [OF this assms(6,7)] show ?thesis .
qed

text \<open>
  A body that breaks off before its trailers frame, anywhere in or between the message frames, is
  reported: the client gets every byte that arrived, then \<^verbatim>\<open>io.ErrUnexpectedEOF\<close>.
\<close>

theorem response_truncated:
  assumes "rd_clean s" and "rd_progress s" and "rd_content s @ lost = frames_bytes fs"
    and "message_frames fs" and "rd_content s \<noteq> []"
    and "\<forall>c \<in> set cs. 0 < c" and "length (rd_content s) < length cs"
  shows "\<exists>r'. read_until Read cs (NewResponseReader s t z) =
    (rd_content s, Some ErrUnexpectedEOF, r')"
  using assms by (rule read_truncated)

section \<open>Any body\<close>

text \<open>
  Claim C23. Whatever the body is (malformed frames, transport errors in the middle) and however it is read, the
  bytes delivered to the client are a prefix of the bytes before the trailers frame: no byte of the
  trailers frame or after it is ever passed on as message data.
\<close>

theorem response_delivers_prefix:
  assumes "read_until Read cs (NewResponseReader s t z) = (d, e, r')"
  shows "\<exists>rest. message_bytes (rd_content s) = d @ rest"
  using web_source.read_until_content [OF reader_inv_New assms] by auto

text \<open>The flags only grow, and the sticky error is set by \<^verbatim>\<open>Read\<close> alone.\<close>

definition flags_step :: "responseReader \<Rightarrow> bytes \<Rightarrow> responseReader \<Rightarrow> bool" where
  "flags_step r d r' \<longleftrightarrow>
     rr_err r' = rr_err r \<and> (hasReadData r \<or> d \<noteq> [] \<longrightarrow> hasReadData r')"

lemma doRead_partial_flags:
  assumes "partialTrailerData r \<noteq> []" and "doRead c r = (d, e, r')"
  shows "flags_step r d r'"
proof -
  obtain e1 r1 where t: "readFullTrailers r = (e1, r1)" by (cases "readFullTrailers r")
  from assms t readFullTrailers_frame(4,6) [OF t] show ?thesis
    by (cases e1) (auto simp: doRead_partial flags_step_def split: prod.splits)
qed

lemma doRead_flags:
  assumes "reader_inv r" and "doRead c r = (d, e, r')"
  shows "flags_step r d r'"
proof (cases "partialTrailerData r = []")
  case False
  then show ?thesis using doRead_partial_flags assms(2) by blast
next
  case part: True
  obtain d1 e1 b1 where rd: "rd_read c (rr_body r) = (d1, e1, b1)" by (cases "rd_read c (rr_body r)") auto
  show ?thesis
  proof (cases "hasReadTrailers r")
    case True
    with part assms rd show ?thesis by (auto simp: doRead_done flags_step_def)
  next
    case False
    obtain n rem hdr where sc: "scan (currMessageRemaining r) (currPartialMsgHeader r) d1 = (n, rem, hdr)"
      by (cases "scan (currMessageRemaining r) (currPartialMsgHeader r) d1") auto
    let ?r1 = "after_read r d1 b1"
    note eq = doRead_messages [OF assms(1) part False rd sc]
    have r1: "flags_step r d1 ?r1" by (simp add: flags_step_def after_read_def sc)
    show ?thesis
    proof (cases "n = 0 \<and> d1 \<noteq> []")
      case True
      then have "partialTrailerData ?r1 \<noteq> []" by (simp add: after_read_def sc)
      moreover have "doRead (length d1) ?r1 = (d, e, r')" using True eq assms(2) by simp
      ultimately have "flags_step ?r1 d r'" by (rule doRead_partial_flags)
      with r1 show ?thesis by (auto simp: flags_step_def)
    next
      case False
      then have "d = take n d1" "r' = ?r1" using eq assms(2) by auto
      with r1 show ?thesis by (auto simp: flags_step_def)
    qed
  qed
qed

lemma Read_flags:
  assumes "reader_inv r" and "rr_err r = None" and "Read c r = (d, e, r')"
  shows "rr_err r' = e" and "hasReadData r \<or> d \<noteq> [] \<Longrightarrow> hasReadData r'"
    and "e = Some EOF \<Longrightarrow> d = [] \<and> (hasReadTrailers r' \<or> \<not> hasReadData r')"
proof -
  obtain d1 e1 r1 where dr: "doRead c r = (d1, e1, r1)" by (cases "doRead c r") auto
  note f = doRead_flags [OF assms(1) dr, unfolded flags_step_def]
  have "rr_err r' = e \<and> (hasReadData r \<or> d \<noteq> [] \<longrightarrow> hasReadData r') \<and>
    (e = Some EOF \<longrightarrow> d = [] \<and> (hasReadTrailers r' \<or> \<not> hasReadData r'))"
    using assms dr f by (auto simp: Read_def adjustResult_def split: if_splits)
  then show "rr_err r' = e" "hasReadData r \<or> d \<noteq> [] \<Longrightarrow> hasReadData r'"
    "e = Some EOF \<Longrightarrow> d = [] \<and> (hasReadTrailers r' \<or> \<not> hasReadData r')" by blast+
qed

lemma read_until_EOF:
  assumes "reader_inv r" and "rr_err r = None" and "read_until Read cs r = (d, Some EOF, r')"
  shows "hasReadTrailers r' \<and> d = payload_left r \<or> \<not> hasReadData r' \<and> \<not> hasReadData r \<and> d = []"
  using assms
proof (induction cs arbitrary: r d)
  case (Cons c cs)
  obtain d1 e1 r1 where r: "Read c r = (d1, e1, r1)" by (cases "Read c r") auto
  note step = Read_step [OF Cons.prems(1) r] and fl = Read_flags [OF Cons.prems(1,2) r]
  show ?case
  proof (cases e1)
    case (Some x)
    with Cons.prems(3) r have "x = EOF" "d = d1" "r' = r1" by simp_all
    with Some fl step show ?thesis by (auto simp: payload_left_def)
  next
    case None
    with Cons.prems(3) r obtain d2 where d2: "read_until Read cs r1 = (d2, Some EOF, r')" "d = d1 @ d2"
      by (auto split: prod.splits)
    from Cons.IH [OF step(2) _ d2(1)] fl(1,2) None step(3) d2(2) show ?thesis by auto
  qed
qed simp

text \<open>
  Claim C10. The end of the stream is never reported early. For every body, decompressor and choice of buffer
  sizes, if the client sees \<^verbatim>\<open>io.EOF\<close> then either a trailers frame was read and every message byte
  before it was delivered, or not a single byte of the body was read and nothing was delivered, as for a
  response without a body.
\<close>

theorem response_EOF_complete:
  assumes "read_until Read cs (NewResponseReader s t z) = (d, Some EOF, r')"
  shows "hasReadTrailers r' \<and> d = message_bytes (rd_content s) \<or> \<not> hasReadData r' \<and> d = []"
  using read_until_EOF [OF reader_inv_New _ assms] by auto

text \<open>
  An error is final: once \<^verbatim>\<open>Read\<close> has reported one, every later call returns no data and the
  same error, and leaves the reader as it is.
\<close>

theorem Read_sticky:
  assumes "Read c r = (d, Some e, r')"
  shows "Read c' r' = ([], Some e, r')"
  using assms by (auto simp: Read_def split: prod.splits if_splits)

text \<open>
  Claim C11. \<^verbatim>\<open>consume\<close>, which works on whole runs of bytes, does exactly what the byte-by-byte automaton
  does, in every state the reader can reach: it does not panic, it stops at the first byte of the
  trailers frame and nowhere else, and it leaves the same parser state behind.
\<close>

theorem consume_equivalence:
  assumes "reader_inv r"
  shows "consume r buf =
    (case scan (currMessageRemaining r) (currPartialMsgHeader r) buf of (n, rem, hdr) \<Rightarrow>
       Inr (n, r\<lparr>currMessageRemaining := rem, currPartialMsgHeader := hdr\<rparr>))"
  using consume_scan [OF assms] by (auto split: prod.split)

section \<open>Trailers without a final line break\<close>

text \<open>
  A trailers frame whose text does not end in a line break makes the MIME parser report
  \<^verbatim>\<open>io.EOF\<close>. \<^verbatim>\<open>adjustResult\<close> takes that for the transport's end of file while trailer data
  is pending, and clears it.
\<close>

lemma ReadFull_prefix: "n \<le> length p \<Longrightarrow> ReadFull n (p, s) = (take n p, None, (drop n p, s))"
  by (cases n) (auto simp: ReadFull_def read_full_loop.simps)

lemma drain_limited_prefix:
  "n \<le> length p \<Longrightarrow> drain_limited n k (p, s) = (take n p, None, (drop n p, s))"
  by (cases n) (auto simp: drain_limited.simps)

lemma readFullTrailers_open:
  assumes "partialTrailerData r = mk_frame flags (bytes_of text)"
    and "flags AND compressedFlag = 0" and "length text < 2 ^ 32"
    and "ReadMIMEHeader EOF (text @ CRLF) = (tr, Some EOF, x)"
  shows "readFullTrailers r = (Some EOF, r)"
proof -
  let ?h = "MakeMessageHeader flags (word_of_nat (length text))"
  have len: "unat (BigEndian_Uint32 (drop (Suc 0) ?h)) = length text" "?h ! 0 = flags"
    using assms(3) by (simp_all add: MakeMessageHeader_eq unat_len32)
  show ?thesis
    using assms(1,2,4) len by (simp add: readFullTrailers_def finishTrailers_def completeHeaderLen_def
      ReadFull_prefix drain_limited_prefix mk_frame_def Let_def)
qed

lemma Read_open:
  assumes "partialTrailerData r = mk_frame flags (bytes_of text)" and "rr_err r = None"
    and "hasReadData r" and "\<not> hasReadTrailers r"
    and "flags AND compressedFlag = 0" and "length text < 2 ^ 32"
    and "ReadMIMEHeader EOF (text @ CRLF) = (tr, Some EOF, x)"
  shows "doRead c r = ([], Some EOF, r)" and "Read c r = ([], None, r)"
proof -
  have p: "partialTrailerData r \<noteq> []" by (simp add: assms(1) mk_frame_Cons)
  show dr: "doRead c r = ([], Some EOF, r)"
    using readFullTrailers_open [OF assms(1,5-7)] p by (simp add: doRead_partial)
  show "Read c r = ([], None, r)"
    using assms(2-4) p by (simp add: Read_def dr adjustResult_def)
qed

lemma open_trailers_stuck:
  assumes "flags AND trailerMessageFlag \<noteq> 0" and "flags AND compressedFlag = 0"
    and "length text < 2 ^ 32" and "ReadMIMEHeader EOF (text @ CRLF) = (tr, Some EOF, x)"
    and "\<forall>c \<in> set cs. length text + 5 \<le> c" and "e = None \<or> e = Some EOF"
  shows "\<exists>r'. read_until Read cs (NewResponseReader [(mk_frame flags (bytes_of text), e)] t z) =
    ([], None, r')"
proof (cases cs)
  case (Cons c cs')
  let ?fr = "mk_frame flags (bytes_of text)"
  let ?r = "NewResponseReader [(?fr, e)] t z" and ?r1 = "after_read (NewResponseReader [(?fr, e)] t z) ?fr []"
  have sc: "scan 0 [] ?fr = (0, 0, [])" using assms(1) by (simp add: mk_frame_Cons)
  have "rd_read c (rr_body ?r) = (?fr, e, [])"
    using assms(5) Cons by (simp add: NewResponseReader_def)
  from doRead_messages [OF reader_inv_New _ _ this, of 0 0 "[]"] sc have
    first: "doRead c ?r = doRead (length ?fr) ?r1"
    by (simp add: NewResponseReader_def mk_frame_Cons)
  have r1: "partialTrailerData ?r1 = ?fr" "rr_err ?r1 = None" "hasReadData ?r1" "\<not> hasReadTrailers ?r1"
    using sc by (simp_all add: after_read_def NewResponseReader_def mk_frame_Cons)
  note loop = Read_open [OF r1 assms(2-4)]
  have "Read c ?r = ([], None, ?r1)"
    using first loop [of "length ?fr"] r1 by (simp add: Read_def adjustResult_def mk_frame_Cons)
  moreover have "read_until Read cs' ?r1 = ([], None, ?r1)"
    by (induction cs') (simp_all add: loop)
  ultimately show ?thesis using Cons by simp
qed simp

text \<open>
  A response whose trailers text lacks the line break after its last line puts the reader into an
  endless loop: if the frame arrives in one piece, then every call of \<^verbatim>\<open>Read\<close>, no matter how many are made, returns
  no data and no error, so a client that reads until an error never gets one.
\<close>

theorem open_trailers_livelock:
  assumes "flags AND trailerMessageFlag \<noteq> 0" and "flags AND compressedFlag = 0"
    and "length text < 2 ^ 32" and "ReadMIMEHeader EOF (text @ CRLF) = (tr, Some EOF, x)"
    and "\<forall>c \<in> set cs. length text + 5 \<le> c" and "e = None \<or> e = Some EOF"
  shows "\<exists>r'. read_until Read cs (NewResponseReader [(mk_frame flags (bytes_of text), e)] t z) =
    ([], None, r')"
  using assms by (rule open_trailers_stuck)

section \<open>The types of the reader's fields\<close>

text \<open>
  In the code the count of a message's remaining bytes is an \<^verbatim>\<open>int64\<close> and the trailers are a map. The
  model has a number and a list of fields, so that the following is to hold of every state: the count stays
  below \<^verbatim>\<open>2^32\<close>, and no field of the trailers occurs twice.
\<close>

definition reader_typed :: "responseReader \<Rightarrow> bool" where
  "reader_typed r \<longleftrightarrow> currMessageRemaining r < 2 ^ 32 \<and> pred_option header_ok (rr_trailers r)"

lemma scan_remaining: "rem < 2 ^ 32 \<Longrightarrow> fst (snd (scan rem hdr bs)) < 2 ^ 32"
proof (induction rem hdr bs rule: scan.induct)
  case (2 rem hdr b bs)
  have "unat (BigEndian_Uint32 x) < 2 ^ 32" for x using unsigned_less [of "BigEndian_Uint32 x"] by simp
  with 2 show ?case by (auto simp: split_beta)
qed simp

lemma header_ok_add_trailers: "header_ok h \<Longrightarrow> header_ok (add_trailers tr h)"
  unfolding add_trailers_def by (induction tr arbitrary: h) (auto simp: Let_def split_beta)

lemma reader_typed_updates [simp]:
  "reader_typed (r\<lparr>rr_body := b\<rparr>) = reader_typed r" "reader_typed (r\<lparr>hasReadData := x\<rparr>) = reader_typed r"
  "reader_typed (r\<lparr>hasReadTrailers := x\<rparr>) = reader_typed r" "reader_typed (r\<lparr>partialTrailerData := y\<rparr>) = reader_typed r"
  "reader_typed (r\<lparr>rr_err := e\<rparr>) = reader_typed r"
  by (simp_all add: reader_typed_def)

lemma populateTrailers_typed [simp]: "reader_typed r \<Longrightarrow> reader_typed (populateTrailers r tr)"
  by (auto simp: reader_typed_def populateTrailers_def header_ok_add_trailers split: option.split)

lemma finishTrailers_typed [simp]: "reader_typed r \<Longrightarrow> reader_typed (snd (finishTrailers r n z))"
  by (simp add: finishTrailers_def Let_def split: prod.split)

lemma readFullTrailers_typed: "reader_typed r \<Longrightarrow> reader_typed (snd (readFullTrailers r))"
  by (simp add: readFullTrailers_def Let_def split: prod.split option.split)

lemma after_read_typed: "reader_typed r \<Longrightarrow> reader_typed (after_read r d body)"
  using scan_remaining [of "currMessageRemaining r" "currPartialMsgHeader r" d]
  by (auto simp: reader_typed_def after_read_def split: prod.split)

lemma doRead_partial_typed:
  assumes "reader_typed r" and "partialTrailerData r \<noteq> []"
  shows "reader_typed (snd (snd (doRead c r)))"
  using readFullTrailers_typed [OF assms(1)] assms(2) by (auto simp: doRead_partial split: prod.split option.split)

lemma doRead_typed:
  assumes "reader_inv r" and "reader_typed r"
  shows "reader_typed (snd (snd (doRead c r)))"
proof -
  consider "partialTrailerData r \<noteq> []" | "partialTrailerData r = []" "hasReadTrailers r"
    | "partialTrailerData r = []" "\<not> hasReadTrailers r" by blast
  then show ?thesis
  proof cases
    case 1
    then show ?thesis by (rule doRead_partial_typed [OF assms(2)])
  next
    case 2
    with assms(2) show ?thesis by (simp add: doRead_done split: prod.split)
  next
    case 3
    obtain d e b where rd: "rd_read c (rr_body r) = (d, e, b)" by (cases "rd_read c (rr_body r)") auto
    obtain n rem hdr where sc: "scan (currMessageRemaining r) (currPartialMsgHeader r) d = (n, rem, hdr)"
      by (cases "scan (currMessageRemaining r) (currPartialMsgHeader r) d") auto
    note ty = after_read_typed [OF assms(2), of d b]
    have "partialTrailerData (after_read r d b) \<noteq> []" if "n = 0" "d \<noteq> []"
      using that by (simp add: after_read_def sc)
    with doRead_partial_typed [OF ty] ty show ?thesis
      by (simp add: doRead_messages [OF assms(1) 3 rd sc])
  qed
qed

lemma Read_typed:
  assumes "reader_inv r" and "reader_typed r" and "Read c r = (d, e, r')"
  shows "reader_typed r'"
  using doRead_typed [OF assms(1,2), of c] assms(2,3) by (auto simp: Read_def split: if_splits prod.splits)

interpretation typed_source: byte_source Read payload_left "\<lambda>r. reader_inv r \<and> reader_typed r"
  by standard (use Read_step Read_typed in blast)+

text \<open>
  Claim C12. The reader's fields keep their types and its operations stay within bounds. After any sequence of reads, on
  any body and past any error, the count of a message's remaining bytes is below \<^verbatim>\<open>2^32\<close>, so that the
  \<^verbatim>\<open>int64\<close> never overflows; the partial header is shorter than a header; the trailers are a map; no slice
  of \<^verbatim>\<open>consume\<close> is out of range, whatever bytes come next; and the next \<^verbatim>\<open>Read\<close> reports no more
  bytes than its buffer holds.
\<close>

theorem reader_well_typed:
  assumes "reads Read cs (NewResponseReader s t z) = (d, r)" and "pred_option header_ok t"
  shows "currMessageRemaining r < 2 ^ 32 \<and> length (currPartialMsgHeader r) < completeHeaderLen \<and>
    pred_option header_ok (rr_trailers r) \<and>
    (\<forall>buf. \<exists>n r'. consume r buf = Inr (n, r') \<and> n \<le> length buf \<and> reader_typed r') \<and>
    (\<forall>c d' e' r'. Read c r = (d', e', r') \<longrightarrow> length d' \<le> c)"
proof -
  have "reader_typed (NewResponseReader s t z)" using assms(2) by (simp add: reader_typed_def NewResponseReader_def)
  with typed_source.reads_content [OF _ assms(1)] reader_inv_New have inv: "reader_inv r" and ty: "reader_typed r" by auto
  have "\<exists>n r'. consume r buf = Inr (n, r') \<and> n \<le> length buf \<and> reader_typed r'" for buf
  proof -
    obtain n rem hdr where sc: "scan (currMessageRemaining r) (currPartialMsgHeader r) buf = (n, rem, hdr)"
      by (cases "scan (currMessageRemaining r) (currPartialMsgHeader r) buf") auto
    with consume_scan [OF inv sc] scan_bounds [OF _ sc] inv ty
      scan_remaining [of "currMessageRemaining r" "currPartialMsgHeader r" buf] show ?thesis
      by (simp add: reader_typed_def reader_inv_def)
  qed
  with inv ty Read_step(1) [OF inv] show ?thesis by (auto simp: reader_inv_def parse_ok_def reader_typed_def)
qed

section \<open>Concrete responses\<close>

definition sample_frames :: "(byte \<times> bytes) list" where
  "sample_frames = [(0, [1, 2, 3]), (1, [])]"

definition sample_text :: string where
  "sample_text = ''Grpc-Status: 0'' @ CRLF"

definition sample_trailers :: header where
  "sample_trailers = [(''Grpc-Status'', [''0''])]"

text \<open>The body cut in the middle of a header, with the end of file on the last piece.\<close>

definition sample_body :: "bytes \<Rightarrow> reader" where
  "sample_body extra =
     (let b = frames_bytes sample_frames @ mk_frame 128 (bytes_of sample_text) @ extra
      in [(take 3 b, None), (take 7 (drop 3 b), None), (drop 10 b, Some EOF)])"

lemma sample_parse: "ReadMIMEHeader EOF (sample_text @ CRLF) = (sample_trailers, None, [])"
  by code_simp

lemma sample_length: "length (frames_bytes sample_frames) = 13" "length sample_text = 16"
  by (simp_all add: frames_bytes_def sample_frames_def sample_text_def CRLF_def)

lemma sample_facts:
  "rd_clean (sample_body extra)" "rd_progress (sample_body extra)"
  "rd_content (sample_body extra) =
     frames_bytes sample_frames @ mk_frame 128 (bytes_of sample_text) @ extra"
  by (simp_all add: sample_body_def Let_def rd_progress_def frames_bytes_def sample_frames_def mk_frame_Cons)

lemma sample_frames_ok: "message_frames sample_frames" "trailers_frame 128 sample_text sample_trailers"
  by (simp_all add: message_frames_def sample_frames_def trailers_frame_def sample_parse sample_length go_defs)

theorem response_read_all_witness:
  "\<exists>r'. read_until Read (replicate 14 4) (NewResponseReader (sample_body []) None None) =
      (frames_bytes sample_frames, Some EOF, r') \<and>
    rr_trailers r' = Some (add_trailers sample_trailers [])"
  using response_read_all [OF sample_facts(1,2) sample_facts(3) [of "[]", simplified] sample_frames_ok, of "replicate 14 4" None None]
  by (simp add: sample_length)

theorem response_extra_data_witness:
  "\<exists>n r'. read_until Read (replicate 14 4) (NewResponseReader (sample_body [7]) None None) =
      (frames_bytes sample_frames, Some (ErrExtraData n), r') \<and> 0 < n \<and> n \<le> 1"
  using response_extra_data [OF sample_facts [of "[7]"] _ sample_frames_ok, of "replicate 14 4" None None]
  by (auto simp: sample_length)

theorem response_truncated_witness:
  "\<exists>r'. read_until Read (replicate 8 1) (NewResponseReader [([0, 0, 0, 0, 3, 1, 2], None)] None None) =
    ([0, 0, 0, 0, 3, 1, 2], Some ErrUnexpectedEOF, r')"
proof -
  have "[0, 0, 0, 0, 3, 1, 2] @ 3 # mk_frame 1 [] = frames_bytes sample_frames" by code_simp
  with response_truncated [of "[([0, 0, 0, 0, 3, 1, 2], None)]" "3 # mk_frame 1 []" sample_frames
      "replicate 8 1" None None] sample_frames_ok(1)
  show ?thesis by (simp add: rd_progress_def)
qed

lemma sample_run:
  "\<exists>r'. read_until Read (replicate 14 4) (NewResponseReader (sample_body []) None None) =
      (frames_bytes sample_frames, Some EOF, r')"
  using read_response [OF sample_facts [of "[]"] sample_frames_ok, of "replicate 14 4" None None]
  by (auto simp: sample_length end_error_Nil)

theorem reader_well_typed_witness:
  "\<exists>d r. reads Read [3, 0, 1] (NewResponseReader (sample_body []) None None) = (d, r) \<and>
     currMessageRemaining r < 2 ^ 32 \<and> (\<forall>c d' e' r'. Read c r = (d', e', r') \<longrightarrow> length d' \<le> c)"
  using reader_well_typed [of "[3, 0, 1]" "sample_body []" None None] by (metis option.pred_inject(1) surj_pair)

theorem response_delivers_prefix_witness:
  "\<exists>d e r' rest. read_until Read (replicate 14 4) (NewResponseReader (sample_body []) None None) = (d, e, r') \<and>
     message_bytes (rd_content (sample_body [])) = d @ rest"
  using sample_run response_delivers_prefix by blast

theorem response_EOF_complete_witness:
  "\<exists>d r'. read_until Read (replicate 14 4) (NewResponseReader (sample_body []) None None) = (d, Some EOF, r') \<and>
     (hasReadTrailers r' \<and> d = message_bytes (rd_content (sample_body [])) \<or> \<not> hasReadData r' \<and> d = [])"
  using sample_run response_EOF_complete by blast

theorem Read_sticky_witness:
  "\<exists>r'. Read 4 (NewResponseReader [] None None) = ([], Some EOF, r') \<and> Read 9 r' = ([], Some EOF, r')"
proof -
  have "\<exists>r'. Read 4 (NewResponseReader [] None None) = ([], Some EOF, r')"
    by (simp add: Read_def doRead.simps NewResponseReader_def beginRead_def consume_def
        consume_loop.simps adjustResult_def)
  then show ?thesis using Read_sticky by blast
qed

theorem consume_equivalence_witness:
  "consume (NewResponseReader [] None None) [0, 0, 0, 0, 1, 9, 128, 0] =
     Inr (6, NewResponseReader [] None None)"
  using consume_equivalence [OF reader_inv_New, of "[]" None None "[0, 0, 0, 0, 1, 9, 128, 0]"]
  by (simp add: NewResponseReader_def completeHeaderLen_def trailerMessageFlag_def BigEndian_Uint32_def)

theorem open_trailers_livelock_witness:
  "\<exists>r'. read_until Read (replicate 1000 512)
      (NewResponseReader [(mk_frame 128 (bytes_of ''grpc-status: 0''), None)] None None) = ([], None, r')"
proof -
  have "ReadMIMEHeader EOF (''grpc-status: 0'' @ CRLF) = ([(''Grpc-Status'', [''0''])], Some EOF, [])"
    by code_simp
  from open_trailers_livelock [OF _ _ _ this, of 128 "replicate 1000 512" None None None] show ?thesis
    by (simp add: go_defs)
qed

end
