(* ===== verification/WebRoundTrip.thy ===== *)
theory WebRoundTrip
  imports GrpcWebWriter WebResponse
begin

text \<open>
  The two ends of the gRPC-Web path together: what a handler writes through the response writer of
  \<^verbatim>\<open>response_writer.go\<close> is what a client reads through the response reader of
  \<^verbatim>\<open>response_reader.go\<close>.
\<close>

section \<open>A handler\<close>

text \<open>What a handler does with the response writer, before the writer is finalized.\<close>

datatype rw_op = OpHeader "header \<Rightarrow> header" | OpWriteHeader int | OpWrite bytes | OpFlush

fun rw_step :: "rw_op \<Rightarrow> responseWriter \<Rightarrow> responseWriter" where
  "rw_step (OpHeader f) w = set_header f w"
| "rw_step (OpWriteHeader c) w = WriteHeader c w"
| "rw_step (OpWrite buf) w = snd (snd (Write buf w))"
| "rw_step OpFlush w = Flush w"

fun op_data :: "rw_op \<Rightarrow> bytes" where
  "op_data (OpWrite buf) = buf"
| "op_data _ = []"

definition handle :: "rw_op list \<Rightarrow> responseWriter \<Rightarrow> responseWriter" where
  "handle ops w = fold rw_step ops w"

definition written :: "rw_op list \<Rightarrow> bytes" where
  "written ops = concat (map op_data ops)"

lemma set_header_simps [simp]:
  "Header (set_header f w) = f (Header w)" "hw_body (rw_w (set_header f w)) = hw_body (rw_w w)"
  "announcedTrailers (set_header f w) = announcedTrailers w"
  "hw_healthy (rw_w (set_header f w)) = hw_healthy (rw_w w)"
  "hw_sent (rw_w (set_header f w)) = hw_sent (rw_w w)"
  by (simp_all add: set_header_def Header_def hw_healthy_def)

lemma prepare_simps [simp]:
  "hw_body (rw_w (prepareHeadersIfNecessary w)) = hw_body (rw_w w)"
  "hw_healthy (rw_w (prepareHeadersIfNecessary w)) = hw_healthy (rw_w w)"
  "hw_sent (rw_w (prepareHeadersIfNecessary w)) = hw_sent (rw_w w)"
  by (simp_all add: prepareHeadersIfNecessary_def Let_def)

lemma rw_step_body:
  assumes "hw_healthy (rw_w w)"
  shows "hw_body (rw_w (rw_step op w)) = hw_body (rw_w w) @ op_data op"
    and "hw_healthy (rw_w (rw_step op w))"
proof -
  have "hw_body (rw_w (rw_step op w)) = hw_body (rw_w w) @ op_data op \<and> hw_healthy (rw_w (rw_step op w))"
  proof (cases op)
    case (OpWrite buf)
    obtain n e hw where r: "hw_Write buf (rw_w (prepareHeadersIfNecessary w)) = (n, e, hw)"
      by (cases "hw_Write buf (rw_w (prepareHeadersIfNecessary w))") auto
    with hw_Write_healthy [OF _ r] assms OpWrite show ?thesis by (simp add: Write_def Let_def)
  qed (use assms in \<open>auto simp: WriteHeader_def Flush_def Let_def\<close>)
  then show "hw_body (rw_w (rw_step op w)) = hw_body (rw_w w) @ op_data op"
    "hw_healthy (rw_w (rw_step op w))" by simp_all
qed

lemma handle_body:
  assumes "hw_healthy (rw_w w)"
  shows "hw_body (rw_w (handle ops w)) = hw_body (rw_w w) @ written ops \<and> hw_healthy (rw_w (handle ops w))"
  using assms
  by (induction ops arbitrary: w) (simp_all add: handle_def written_def rw_step_body)

section \<open>Finalize on a working connection\<close>

definition trailers_text :: "string list \<Rightarrow> responseWriter \<Rightarrow> string" where
  "trailers_text ks w =
     Header_Write (finalTrailers ks (case announcedTrailers w of None \<Rightarrow> [] | Some ats \<Rightarrow> ats) (Header w))"

lemma Finalize_body:
  assumes "hw_healthy (rw_w w)" and "announcedTrailers w \<noteq> None"
  obtains w' where "Finalize ks w = (None, w')"
    and "hw_body (rw_w w') = hw_body (rw_w w) @ mk_frame trailerMessageFlag (bytes_of (trailers_text ks w))"
proof -
  from assms(2) obtain ats where ats: "announcedTrailers w = Some ats" by blast
  define st where "st = fold (move_trailer 1) ks ((\<lambda>_. [])(0 := Header w, 1 := announced (Header w) ats))"
  let ?w = "set_header (\<lambda>_. st 0) w"
  let ?buf = "bytes_of (trailers_text ks w)"
  let ?h = "trailerMessageFlag # BigEndian_PutUint32 (word_of_nat (length ?buf))"
  have buf: "bytes_of (Header_Write (st 1)) = ?buf"
    by (simp add: trailers_text_def finalTrailers_def st_def ats)
  obtain n1 e1 hw1 where w1: "hw_Write ?h (rw_w ?w) = (n1, e1, hw1)"
    by (cases "hw_Write ?h (rw_w ?w)") auto
  obtain n2 e2 hw2 where w2: "hw_Write ?buf hw1 = (n2, e2, hw2)" by (cases "hw_Write ?buf hw1") auto
  have h1: "e1 = None" "hw_healthy hw1" "hw_body hw1 = hw_body (rw_w w) @ ?h"
    using hw_Write_healthy [OF _ w1] assms(1) by simp_all
  note h2 = hw_Write_healthy [OF h1(2) w2]
  have "Finalize ks w = (None, ?w\<lparr>rw_w := hw2\<rparr>)"
    using h1 h2 w1 w2
    by (simp only: Finalize_def Let_def ats option.case buf st_def [symmetric] split)
  moreover have "hw_body (rw_w (?w\<lparr>rw_w := hw2\<rparr>)) = hw_body (rw_w w) @ mk_frame trailerMessageFlag ?buf"
    using h1(3) h2(4) by (simp add: mk_frame_Cons)
  ultimately show ?thesis by (rule that)
qed

text \<open>The trailers frame is read back as the wire view of the trailers.\<close>

lemma trailers_frame_Finalize:
  assumes "length (trailers_text ks w) < 2 ^ 32" and "announcedTrailers w = Some ats"
  shows "trailers_frame trailerMessageFlag (trailers_text ks w)
    (wire_view (sort_key fst (finalTrailers ks ats (Header w))))"
  using assms canonical_finalTrailers [of ks ats "Header w"]
    ReadMIMEHeader_Write [of "finalTrailers ks ats (Header w)" EOF "[]"]
  by (auto simp: trailers_frame_def trailers_text_def canonical_header_def go_defs)

lemma add_trailers_Cons:
  "add_trailers ((k, vs) # tr) h =
     add_trailers tr (hput (CanonicalHeaderKey k) (hvalues h (CanonicalHeaderKey k) @ vs) h)"
  by (simp add: add_trailers_def Let_def)

lemma hvalues_add_trailers:
  assumes "canonical_header tr"
  shows "hvalues (add_trailers tr h) k = hvalues h k @ hvalues tr k"
  using assms
proof (induction tr arbitrary: h)
  case (Cons kv tr)
  obtain k' vs where kv: "kv = (k', vs)" by (cases kv)
  have "canonical_header tr" "CanonicalHeaderKey k' = k'" "hvalues tr k' = []"
    using Cons.prems kv hindex_None_iff [of tr k']
    by (auto simp: canonical_header_def header_ok_def hvalues_def)
  with Cons.IH kv show ?case by (simp add: add_trailers_Cons hvalues_Cons)
qed (simp add: add_trailers_def hvalues_def)

section \<open>Round trip\<close>

lemma roundtrip_read:
  assumes "hw_healthy hw" and "hw_body hw = []" and "w = handle ops (NewResponseWriter hw)"
    and "announcedTrailers w = Some ats" and "range_order (Header w) ks"
    and "written ops = frames_bytes fs" and "message_frames fs"
    and "length (trailers_text ks w) < 2 ^ 32"
    and "rd_clean s" and "rd_progress s" and "rd_content s = hw_body (rw_w (snd (Finalize ks w)))"
    and "\<forall>c \<in> set cs. 0 < c" and "length (written ops) < length cs"
  shows "fst (Finalize ks w) = None \<and>
    (\<exists>r' tr. read_until Read cs (NewResponseReader s None z) = (written ops, Some EOF, r') \<and>
       rr_trailers r' = Some tr \<and> header_ok tr \<and> (\<forall>name. hvalues tr name = sent_values ks ats (Header w) name))"
proof -
  let ?t = "wire_view (sort_key fst (finalTrailers ks ats (Header w)))"
  have body: "hw_body (rw_w w) = written ops" "hw_healthy (rw_w w)"
    using handle_body [of "NewResponseWriter hw" ops] assms(1-3) by (simp_all add: NewResponseWriter_def)
  obtain w' where w': "Finalize ks w = (None, w')"
    "hw_body (rw_w w') = hw_body (rw_w w) @ mk_frame trailerMessageFlag (bytes_of (trailers_text ks w))"
    by (rule Finalize_body [OF body(2)]) (use assms(4) in simp_all)
  have content: "rd_content s = frames_bytes fs @ mk_frame trailerMessageFlag (bytes_of (trailers_text ks w)) @ []"
    using assms(6,11) w' body(1) by simp
  have "length (frames_bytes fs) < length cs" using assms(6,13) by simp
  from read_response [OF assms(9,10) content assms(7) trailers_frame_Finalize [OF assms(8,4)] assms(12) this,
      of None z]
  obtain r' where "read_until Read cs (NewResponseReader s None z) = (written ops, Some EOF, r')"
    "rr_trailers r' = Some (add_trailers ?t [])"
    using assms(6) by (auto simp: end_error_Nil)
  moreover have "hvalues (add_trailers ?t []) name = sent_values ks ats (Header w) name" for name
    using hvalues_add_trailers [OF canonical_wire_view [OF canonical_finalTrailers]]
      hvalues_wire_final [OF assms(5)] by simp
  ultimately show ?thesis using w'(1) header_ok_add_trailers [of "[]" ?t] by auto
qed

text \<open>
  From handler to client: if a handler writes message frames, in any pieces and with any
  flushes and header changes in between, and announced trailers before it started, then finalizing
  succeeds, and a client that reads the body, in whatever pieces it arrives and with whatever buffers,
  gets exactly the bytes written, then \<^verbatim>\<open>io.EOF\<close>, and as trailers exactly the values of the
  announced and the prefixed trailers, normalised the way HTTP does.
\<close>

theorem web_roundtrip:
  assumes "hw_healthy hw" and "hw_body hw = []" and "w = handle ops (NewResponseWriter hw)"
    and "announcedTrailers w = Some ats" and "range_order (Header w) ks"
    and "written ops = frames_bytes fs" and "message_frames fs"
    and "length (trailers_text ks w) < 2 ^ 32"
    and "rd_clean s" and "rd_progress s" and "rd_content s = hw_body (rw_w (snd (Finalize ks w)))"
    and "\<forall>c \<in> set cs. 0 < c" and "length (written ops) < length cs"
  shows "fst (Finalize ks w) = None \<and>
    (\<exists>r' tr. read_until Read cs (NewResponseReader s None z) = (written ops, Some EOF, r') \<and>
       rr_trailers r' = Some tr \<and> (\<forall>name. hvalues tr name = sent_values ks ats (Header w) name))"
  using roundtrip_read [OF assms] by blast

section \<open>Headers\<close>

lemma prepare_header:
  assumes "announcedTrailers w = None"
  shows "announcedTrailers (prepareHeadersIfNecessary w) = hindex (Header w) ''Trailer''"
    and "hindex (Header (prepareHeadersIfNecessary w)) k =
      (if k = ''Trailer'' \<or> k = ''Content-Length'' then None
       else if k = ''Content-Type'' then Some [downgradedContentType (hGet (Header w) ''Content-Type'')]
       else hindex (Header w) k)"
  using assms by (simp_all add: prepareHeadersIfNecessary_def Let_def hDel_def hSet_def hGet_def)

lemma downgradedContentType_cases:
  "downgradedContentType (''application/grpc+'' @ sub) =
     (if sub = [] then ''application/grpc-web'' else ''application/grpc-web+'' @ sub)"
  "downgradedContentType ''application/grpc'' = ''application/grpc-web''"
proof -
  have "Split2 (''application/grpc'' @ ''+'' @ sub) ''+'' = (''application/grpc'', sub)"
    by (simp add: Split2_def strings_Index.simps HasPrefix_def eval_nat_numeral)
  then show "downgradedContentType (''application/grpc+'' @ sub) =
     (if sub = [] then ''application/grpc-web'' else ''application/grpc-web+'' @ sub)"
    by (simp add: downgradedContentType_def)
  show "downgradedContentType ''application/grpc'' = ''application/grpc-web''" by code_simp
qed

text \<open>
  The headers that go out with the first \<^verbatim>\<open>WriteHeader\<close> are those of a gRPC-Web response: no
  \<^verbatim>\<open>Trailer\<close> and no \<^verbatim>\<open>Content-Length\<close> entry, a gRPC content type turned into the gRPC-Web
  content type with the same subtype, and every other header unchanged.
\<close>

theorem headers_downgraded:
  assumes "announcedTrailers w = None" and "hw_sent (rw_w w) = None"
    and "hGet (Header w) ''Content-Type'' = ''application/grpc+'' @ sub" and "sub \<noteq> []"
  shows "\<exists>h. hw_sent (rw_w (WriteHeader status w)) = Some (status, h) \<and>
    (\<forall>k. hindex h k =
       (if k = ''Trailer'' \<or> k = ''Content-Length'' then None
        else if k = ''Content-Type'' then Some [''application/grpc-web+'' @ sub]
        else hindex (Header w) k))"
proof -
  have "downgradedContentType (hGet (Header w) ''Content-Type'') = ''application/grpc-web+'' @ sub"
    unfolding assms(3) downgradedContentType_cases(1) using assms(4) by simp
  with assms(1,2) prepare_header [OF assms(1)] show ?thesis
    by (simp add: WriteHeader_def Let_def hw_WriteHeader_def Header_def [symmetric])
qed

text \<open>
  What a handler starts its response with: the status and the header map at its first
  \<^verbatim>\<open>WriteHeader\<close> or \<^verbatim>\<open>Write\<close>. A \<^verbatim>\<open>Flush\<close> before that has no effect.
\<close>

fun first_write :: "rw_op list \<Rightarrow> header \<Rightarrow> (int \<times> header) option" where
  "first_write [] h = None"
| "first_write (OpHeader f # ops) h = first_write ops (f h)"
| "first_write (OpWriteHeader c # ops) h = Some (c, h)"
| "first_write (OpWrite buf # ops) h = Some (200, h)"
| "first_write (OpFlush # ops) h = first_write ops h"

text \<open>The fields that go out for a handler's header map.\<close>

definition downgraded_values :: "header \<Rightarrow> string \<Rightarrow> string list" where
  "downgraded_values h k =
     (if k \<in> {''Trailer'', ''Content-Length''} then []
      else if k = ''Content-Type'' then [downgradedContentType (hGet h ''Content-Type'')]
      else hvalues h k)"

lemma prepare_values:
  "announcedTrailers w = None \<Longrightarrow> hvalues (Header (prepareHeadersIfNecessary w)) k = downgraded_values (Header w) k"
  by (auto simp: downgraded_values_def hvalues_def prepare_header)

lemma rw_step_sent:
  assumes "hw_sent (rw_w w) \<noteq> None"
  shows "hw_sent (rw_w (rw_step op w)) = hw_sent (rw_w w)"
proof (cases op)
  case (OpWrite buf)
  obtain n e hw where r: "hw_Write buf (rw_w (prepareHeadersIfNecessary w)) = (n, e, hw)"
    by (cases "hw_Write buf (rw_w (prepareHeadersIfNecessary w))") auto
  with hw_Write_sent(1) [OF r] assms OpWrite show ?thesis by (simp add: Write_def Let_def hw_WriteHeader_def)
qed (use assms in \<open>auto simp: WriteHeader_def Flush_def Let_def hw_WriteHeader_def hw_Flush_def\<close>)

lemma handle_Cons: "handle (op # ops) w = handle ops (rw_step op w)"
  by (simp add: handle_def)

lemma handle_sent_kept:
  "hw_sent (rw_w w) \<noteq> None \<Longrightarrow> hw_sent (rw_w (handle ops w)) = hw_sent (rw_w w)"
proof (induction ops arbitrary: w)
  case (Cons op ops)
  with rw_step_sent [of w op] Cons.IH [of "rw_step op w"] show ?case by (simp add: handle_Cons)
qed (simp add: handle_def)

lemma handle_sent:
  assumes "announcedTrailers w = None" and "hw_sent (rw_w w) = None" and "first_write ops (Header w) = Some (c, h)"
  shows "\<exists>h'. hw_sent (rw_w (handle ops w)) = Some (c, h') \<and> (\<forall>k. hvalues h' k = downgraded_values h k)"
  using assms
proof (induction ops arbitrary: w)
  case (Cons op ops)
  note v = prepare_values [OF Cons.prems(1), unfolded Header_def]
  show ?case
  proof (cases op)
    case (OpHeader f)
    with Cons.IH [of "set_header f w"] Cons.prems show ?thesis by (simp add: handle_Cons)
  next
    case (OpWriteHeader c')
    with Cons.prems v show ?thesis
      by (simp add: handle_Cons handle_sent_kept WriteHeader_def Let_def hw_WriteHeader_def Header_def)
  next
    case (OpWrite buf)
    obtain n e hw where r: "hw_Write buf (rw_w (prepareHeadersIfNecessary w)) = (n, e, hw)"
      by (cases "hw_Write buf (rw_w (prepareHeadersIfNecessary w))") auto
    with hw_Write_sent(1) [OF r] OpWrite Cons.prems v show ?thesis
      by (simp add: handle_Cons handle_sent_kept Write_def Let_def hw_WriteHeader_def StatusOK_def Header_def)
  next
    case OpFlush
    with Cons.IH [of w] Cons.prems show ?thesis by (simp add: handle_Cons Flush_def)
  qed
qed simp

text \<open>The trailers announced at the first write are announced for good.\<close>

lemma rw_step_announced:
  assumes "announcedTrailers w \<noteq> None"
  shows "announcedTrailers (rw_step op w) = announcedTrailers w"
proof -
  have "prepareHeadersIfNecessary w = w" using assms by (simp add: prepareHeadersIfNecessary_def)
  then show ?thesis
    by (cases op) (simp_all add: WriteHeader_def Write_def Flush_def Let_def split: prod.split)
qed

lemma handle_announced_kept:
  "announcedTrailers w \<noteq> None \<Longrightarrow> announcedTrailers (handle ops w) = announcedTrailers w"
proof (induction ops arbitrary: w)
  case (Cons op ops)
  with rw_step_announced [of w op] Cons.IH [of "rw_step op w"] show ?case by (simp add: handle_Cons)
qed (simp add: handle_def)

lemma handle_announced:
  assumes "announcedTrailers w = None" and "first_write ops (Header w) = Some (c, h)" and "hindex h ''Trailer'' = Some ats"
  shows "announcedTrailers (handle ops w) = Some ats"
  using assms
proof (induction ops arbitrary: w)
  case (Cons op ops)
  note a = prepare_header(1) [OF Cons.prems(1)]
  show ?case
  proof (cases op)
    case (OpHeader f)
    with Cons.IH [of "set_header f w"] Cons.prems show ?thesis by (simp add: handle_Cons)
  next
    case (OpWriteHeader c')
    with Cons.prems a have "announcedTrailers (rw_step op w) = Some ats" by (simp add: WriteHeader_def Let_def)
    then show ?thesis by (simp add: handle_Cons handle_announced_kept)
  next
    case (OpWrite buf)
    with Cons.prems a have "announcedTrailers (rw_step op w) = Some ats" by (simp add: Write_def Let_def split: prod.split)
    then show ?thesis by (simp add: handle_Cons handle_announced_kept)
  next
    case OpFlush
    with Cons.IH [of w] Cons.prems show ?thesis by (simp add: handle_Cons Flush_def)
  qed
qed simp

lemma Finalize_sent:
  assumes "hw_sent (rw_w w) \<noteq> None"
  shows "hw_sent (rw_w (snd (Finalize ks w))) = hw_sent (rw_w w)"
proof -
  have keep: "hw_sent hw' = hw_sent hw" if "hw_Write buf hw = (n, e, hw')" "hw_sent hw \<noteq> None" for buf hw n e hw'
    using hw_Write_sent(1) [OF that(1)] that(2) by (simp add: hw_WriteHeader_def)
  show ?thesis
    using assms
    by (auto simp: Finalize_def Let_def dest!: keep split: option.split prod.split)
qed

section \<open>Trailers-only responses\<close>

text \<open>
  Claim C26. A response without a body: if nothing was written and no header sent, finalizing sends nothing, and
  the headers become the trailers. Every name ends up with its own values followed by those of the
  \<^verbatim>\<open>Trailer:\<close>-prefixed entries for it; the prefixed entries and \<^verbatim>\<open>Trailer\<close> itself are gone.
  The loop changes the map it iterates over; this holds for every order of visits, as long as no
  trailer's name starts with the prefix itself.
\<close>

theorem Finalize_trailers_only:
  assumes "announcedTrailers w = None" and "range_order (Header w) ks" and "unnested ks"
  shows "\<exists>w'. Finalize ks w = (None, w') \<and> hw_body (rw_w w') = hw_body (rw_w w) \<and>
    hw_sent (rw_w w') = hw_sent (rw_w w) \<and>
    (\<forall>name. hvalues (Header w') name =
       (if HasPrefix name TrailerPrefix then []
        else (if name = ''Trailer'' then [] else hvalues (Header w) name) @
          prefixed_values (Header w) ks name))"
proof -
  let ?st = "fold (move_trailer 0) ks ((\<lambda>_. [])(0 := hdelete ''Trailer'' (Header w)))"
  let ?w' = "set_header (\<lambda>_. ?st 0) w"
  have ks: "distinct ks" "\<And>name. hvalues (Header w) name \<noteq> [] \<Longrightarrow> name \<in> set ks"
    using assms(2) range_order_mem by (simp add: range_order_def, blast)
  have "\<not> HasPrefix ''Trailer'' TrailerPrefix" by code_simp
  then have "prefixed_values (hdelete ''Trailer'' (Header w)) ks name = prefixed_values (Header w) ks name"
    for name
    unfolding prefixed_values_def
    by (intro arg_cong [where f = concat] map_cong) (auto simp: names_trailer_def)
  then have "hvalues (Header ?w') name =
      (if HasPrefix name TrailerPrefix then []
       else (if name = ''Trailer'' then [] else hvalues (Header w) name) @
         prefixed_values (Header w) ks name)" for name
    using move_trailers_shared [OF ks(1) assms(3), of "(\<lambda>_. [])(0 := hdelete ''Trailer'' (Header w))" name]
      ks(2) [of name] by auto
  moreover have "Finalize ks w = (None, ?w')" using assms(1) by (simp add: Finalize_def Let_def)
  ultimately show ?thesis by simp
qed

section \<open>Trailers that were not announced\<close>

definition never_announces :: "rw_op list \<Rightarrow> bool" where
  "never_announces ops \<longleftrightarrow>
     (\<forall>f h. OpHeader f \<in> set ops \<and> hindex h ''Trailer'' = None \<longrightarrow> hindex (f h) ''Trailer'' = None)"

lemma rw_step_unannounced:
  assumes "announcedTrailers w = None" and "hindex (Header w) ''Trailer'' = None" and "never_announces [op]"
  shows "announcedTrailers (rw_step op w) = None \<and> hindex (Header (rw_step op w)) ''Trailer'' = None"
proof (cases op)
  case (OpWrite buf)
  obtain n e hw where r: "hw_Write buf (rw_w (prepareHeadersIfNecessary w)) = (n, e, hw)"
    by (cases "hw_Write buf (rw_w (prepareHeadersIfNecessary w))") auto
  with OpWrite prepare_header [OF assms(1)] assms(2) hw_Write_sent(2) [OF r] show ?thesis
    by (simp add: Write_def Let_def) (simp add: Header_def)
next
  case (OpWriteHeader c)
  with prepare_header [OF assms(1)] assms(2) show ?thesis
    by (simp add: WriteHeader_def Let_def) (simp add: Header_def)
qed (use assms in \<open>auto simp: Flush_def never_announces_def\<close>)

lemma handle_unannounced:
  assumes "announcedTrailers w = None" and "hindex (Header w) ''Trailer'' = None" and "never_announces ops"
  shows "announcedTrailers (handle ops w) = None"
  using assms
proof (induction ops arbitrary: w)
  case (Cons op ops)
  have "never_announces [op]" "never_announces ops" using Cons.prems(3) by (auto simp: never_announces_def)
  with Cons.IH [of "rw_step op w"] rw_step_unannounced [OF Cons.prems(1,2)] show ?case
    by (simp add: handle_def)
qed (simp add: handle_def)

text \<open>
  Claim C36. A handler that sends data but never sets the \<^verbatim>\<open>Trailer\<close> header loses its trailers, the
  \<^verbatim>\<open>Trailer:\<close>-prefixed ones too: the writer takes the response for a trailers-only one, because its
  list of announced trailers stays \<^verbatim>\<open>nil\<close> even after headers were written. Finalizing reports
  success but sends no trailers frame, and the client's stream ends with
  \<^verbatim>\<open>io.ErrUnexpectedEOF\<close>.
\<close>

theorem unannounced_trailers_lost:
  assumes "hw_healthy hw" and "hw_body hw = []" and "w = handle ops (NewResponseWriter hw)"
    and "hindex (hw_header hw) ''Trailer'' = None" and "never_announces ops"
    and "written ops = frames_bytes fs" and "message_frames fs" and "written ops \<noteq> []"
    and "rd_clean s" and "rd_progress s" and "rd_content s = hw_body (rw_w (snd (Finalize ks w)))"
    and "\<forall>c \<in> set cs. 0 < c" and "length (written ops) < length cs"
  shows "fst (Finalize ks w) = None \<and>
    (\<exists>r'. read_until Read cs (NewResponseReader s None z) = (written ops, Some ErrUnexpectedEOF, r'))"
proof -
  have "announcedTrailers w = None"
    using handle_unannounced [of "NewResponseWriter hw" ops] assms(3-5)
    by (simp add: NewResponseWriter_def Header_def)
  then have fin: "fst (Finalize ks w) = None" "hw_body (rw_w (snd (Finalize ks w))) = hw_body (rw_w w)"
    by (simp_all add: Finalize_def Let_def)
  have "hw_body (rw_w w) = written ops"
    using handle_body [of "NewResponseWriter hw" ops] assms(1-3) by (simp add: NewResponseWriter_def)
  then have c: "rd_content s = written ops" using assms(11) fin(2) by simp
  from read_truncated [OF assms(9,10) _ assms(7), of "[]" cs None z] assms(6,8,12,13) c fin(1)
  show ?thesis by auto
qed

section \<open>Content types on the wire\<close>

lemma norm_value_id:
  assumes "LF \<notin> set v" and "CR \<notin> set v" and "v = [] \<or> \<not> ascii_space (hd v) \<and> \<not> ascii_space (last v)"
  shows "norm_value v = v"
proof -
  have "map (\<lambda>c. if c = LF \<or> c = CR then SP else c) v = v" using assms(1,2) by (intro map_idI) auto
  with trim_by_id [OF assms(3)] show ?thesis by (simp add: norm_value_def)
qed

text \<open>A gRPC content type that survives the wire as it is does so downgraded, too.\<close>

lemma downgraded_on_wire:
  assumes "ct = ''application/grpc'' \<or> (\<exists>sub. sub \<noteq> [] \<and> ct = ''application/grpc+'' @ sub)" and "norm_value ct = ct"
  shows "on_wire ''Content-Type'' [downgradedContentType ct] = [downgradedContentType ct]"
proof -
  have v: "valid_field_name ''Content-Type''" by code_simp
  from assms(1) have "norm_value (downgradedContentType ct) = downgradedContentType ct"
  proof
    assume "ct = ''application/grpc''"
    then show ?thesis unfolding downgradedContentType_cases(2) by simp code_simp
  next
    assume "\<exists>sub. sub \<noteq> [] \<and> ct = ''application/grpc+'' @ sub"
    then obtain sub where sub: "sub \<noteq> []" "ct = ''application/grpc+'' @ sub" by blast
    have "LF \<notin> set sub" "CR \<notin> set sub" using set_norm_value [of ct] assms(2) sub(2) by auto
    moreover have "\<not> ascii_space (last sub)"
      using trim_by_ends(2) [of ascii_space "map (\<lambda>c. if c = LF \<or> c = CR then SP else c) ct", folded norm_value_def] assms(2) sub
      by auto
    ultimately have "norm_value (''application/grpc-web+'' @ sub) = ''application/grpc-web+'' @ sub"
      using sub(1) by (intro norm_value_id) (simp_all add: ascii_space_def)
    with sub downgradedContentType_cases(1) [of sub] show ?thesis by simp
  qed
  with v show ?thesis by (simp add: on_wire_def)
qed

section \<open>Concrete handlers\<close>

text \<open>A handler that announces a trailer, writes a frame in two pieces and sets trailers at the end.\<close>

definition sample_ops :: "rw_op list" where
  "sample_ops =
     [OpHeader (hSet ''Trailer'' ''Grpc-Status''), OpHeader (hSet ''Content-Type'' ''application/grpc+proto''),
      OpWriteHeader 200, OpWrite [0, 0, 0], OpFlush, OpWrite [0, 1, 9],
      OpHeader (hSet ''Grpc-Status'' ''0''), OpHeader (hput ''Trailer:x-extra'' [''a'', '' b''])]"

abbreviation sample_w :: responseWriter where
  "sample_w \<equiv> handle sample_ops (NewResponseWriter new_httpWriter)"

definition sample_header :: header where
  "sample_header =
     [(''Content-Type'', [''application/grpc-web+proto'']), (''Grpc-Status'', [''0'']),
      (''Trailer:x-extra'', [''a'', '' b''])]"

lemma sample_strings:
  "CanonicalHeaderKey ''Grpc-Status'' = ''Grpc-Status''"
  "CanonicalHeaderKey ''X-Extra'' = ''X-Extra''" "CanonicalHeaderKey ''x-extra'' = ''X-Extra''"
  by code_simp+

lemma sample_type: "downgradedContentType ''application/grpc+proto'' = ''application/grpc-web+proto''"
  using downgradedContentType_cases(1) [of "''proto''"] by simp

lemma sample_w_state:
  "Header sample_w = sample_header \<and> announcedTrailers sample_w = Some [''Grpc-Status'']"
  by (simp add: handle_def sample_ops_def sample_header_def NewResponseWriter_def new_httpWriter_def
      set_header_def Header_def WriteHeader_def Write_def Flush_def prepareHeadersIfNecessary_def
      hw_WriteHeader_def hw_Write_def hw_Flush_def hSet_def hDel_def hGet_def hput_def hdelete_def
      hvalues_def hindex_def sample_strings sample_type)

abbreviation sample_ks :: "string list" where
  "sample_ks \<equiv> map fst sample_header"

lemma sample_final:
  "finalTrailers sample_ks [''Grpc-Status''] sample_header =
     [(''Grpc-Status'', [''0'']), (''X-Extra'', [''a'', '' b''])]"
  by (simp add: finalTrailers_def announced_def sample_header_def move_trailer_def hput_def hdelete_def
      hvalues_def hindex_def HasPrefix_def TrailerPrefix_def sample_strings)

lemma sample_text_length: "length (trailers_text sample_ks sample_w) < 2 ^ 32"
proof -
  have "length (Header_Write [(''Grpc-Status'', [''0'']), (''X-Extra'', [''a'', '' b''])]) = 40" by code_simp
  then show ?thesis using sample_w_state sample_final by (simp add: trailers_text_def)
qed

lemma sample_written: "written sample_ops = frames_bytes [(0, [9])]" "length (written sample_ops) = 6"
  "message_frames [(0, [9])]"
  by (simp_all add: written_def sample_ops_def frames_bytes_def mk_frame_Cons BigEndian_PutUint32_def
      message_frames_def)

lemma sample_values:
  "sent_values sample_ks [''Grpc-Status''] sample_header ''X-Extra'' = [''a'', ''b'']"
  by code_simp

theorem web_roundtrip_witness:
  "\<exists>s r' tr. rd_content s = hw_body (rw_w (snd (Finalize sample_ks sample_w))) \<and>
     read_until Read (replicate 7 2) (NewResponseReader s None None) = (written sample_ops, Some EOF, r') \<and>
     rr_trailers r' = Some tr \<and> hvalues tr ''X-Extra'' = [''a'', ''b'']"
proof -
  let ?s = "[(hw_body (rw_w (snd (Finalize sample_ks sample_w))), Some EOF)]"
  have "range_order (Header sample_w) sample_ks"
    unfolding conjunct1 [OF sample_w_state] by (rule range_order_self) code_simp
  from web_roundtrip [OF _ _ refl conjunct2 [OF sample_w_state] this sample_written(1,3) sample_text_length,
      of ?s "replicate 7 2" None]
  obtain r' tr where "read_until Read (replicate 7 2) (NewResponseReader ?s None None) = (written sample_ops, Some EOF, r')"
    "rr_trailers r' = Some tr" "hvalues tr ''X-Extra'' = [''a'', ''b'']"
    using sample_values
    by (auto simp: sample_written(2) rd_progress_def sample_w_state)
  then show ?thesis by (intro exI [of _ ?s]) auto
qed

theorem headers_downgraded_witness:
  "\<exists>h. hw_sent (rw_w (WriteHeader 200 (NewResponseWriter (new_httpWriter
      \<lparr>hw_header := [(''Content-Type'', [''application/grpc+proto''])]\<rparr>)))) = Some (200, h) \<and>
    hindex h ''Content-Type'' = Some [''application/grpc-web+proto''] \<and> hindex h ''Trailer'' = None"
proof -
  let ?w = "NewResponseWriter (new_httpWriter\<lparr>hw_header := [(''Content-Type'', [''application/grpc+proto''])]\<rparr>)"
  have "hGet (Header ?w) ''Content-Type'' = ''application/grpc+'' @ ''proto''"
    by (simp add: NewResponseWriter_def Header_def hGet_def hvalues_def hindex_def)
  from headers_downgraded [OF _ _ this, of 200] show ?thesis
    by (auto simp: NewResponseWriter_def)
qed

theorem Finalize_trailers_only_witness:
  "\<exists>w'. Finalize [''Trailer:grpc-status'', ''Grpc-Status''] (NewResponseWriter (new_httpWriter
      \<lparr>hw_header := [(''Grpc-Status'', [''1'']), (''Trailer:grpc-status'', [''2''])]\<rparr>)) = (None, w') \<and>
    hvalues (Header w') ''Grpc-Status'' = [''1'', ''2'']"
proof -
  let ?w = "NewResponseWriter (new_httpWriter
      \<lparr>hw_header := [(''Grpc-Status'', [''1'']), (''Trailer:grpc-status'', [''2''])]\<rparr>)"
  have h: "Header ?w = [(''Grpc-Status'', [''1'']), (''Trailer:grpc-status'', [''2''])]"
    by (simp add: NewResponseWriter_def Header_def)
  have "range_order (Header ?w) [''Trailer:grpc-status'', ''Grpc-Status'']"
    by (simp add: h range_order_def)
  moreover have "unnested [''Trailer:grpc-status'', ''Grpc-Status'']" by code_simp
  moreover have "prefixed_values (Header ?w) [''Trailer:grpc-status'', ''Grpc-Status''] ''Grpc-Status'' = [''2'']"
    "\<not> HasPrefix ''Grpc-Status'' TrailerPrefix" "hvalues (Header ?w) ''Grpc-Status'' = [''1'']"
    unfolding h by code_simp+
  ultimately show ?thesis
    using Finalize_trailers_only [of ?w "[''Trailer:grpc-status'', ''Grpc-Status'']"]
    by (auto simp: NewResponseWriter_def)
qed

theorem unannounced_trailers_lost_witness:
  "\<exists>s r'. rd_content s = hw_body (rw_w (snd (Finalize [] (handle [OpWrite [0, 0, 0, 0, 1, 9],
        OpHeader (hput ''Trailer:Grpc-Status'' [''0''])] (NewResponseWriter new_httpWriter))))) \<and>
     read_until Read (replicate 7 2) (NewResponseReader s None None) =
       ([0, 0, 0, 0, 1, 9], Some ErrUnexpectedEOF, r')"
proof -
  let ?ops = "[OpWrite [0, 0, 0, 0, 1, 9], OpHeader (hput ''Trailer:Grpc-Status'' [''0''])]"
  let ?w = "handle ?ops (NewResponseWriter new_httpWriter)"
  let ?s = "[(hw_body (rw_w (snd (Finalize [] ?w))), Some EOF)]"
  have fr: "written ?ops = frames_bytes [(0, [9])]" "written ?ops = [0, 0, 0, 0, 1, 9]"
    by (simp_all add: written_def frames_bytes_def mk_frame_Cons BigEndian_PutUint32_def)
  have "never_announces ?ops" by (simp add: never_announces_def)
  from unannounced_trailers_lost [OF _ _ refl _ this fr(1) sample_written(3), of new_httpWriter ?s "[]"
      "replicate 7 2" None]
  obtain r' where "read_until Read (replicate 7 2) (NewResponseReader ?s None None) =
       ([0, 0, 0, 0, 1, 9], Some ErrUnexpectedEOF, r')"
    by (auto simp: fr(2) rd_progress_def)
  then show ?thesis by (intro exI [of _ ?s]) auto
qed

end
