(* ===== verification/WsWriter.thy ===== *)
theory WsWriter
  imports GrpcWebWriter
begin

text \<open>
  \<^verbatim>\<open>server/websocket_writer.go\<close>: the response writer that a gRPC server writes to when the
  request came over a WebSocket. Headers, messages and trailers go, as gRPC frames, into one end of an
  \<^verbatim>\<open>io.Pipe\<close>; \<^verbatim>\<open>grpcwebsocket.Write\<close> reads the other end.
\<close>

section \<open>The pipe's writing end\<close>

text \<open>
  A \<^verbatim>\<open>Write\<close> on the pipe hands its data to the reader and returns when all of it was taken, or
  fails when the reader has gone away. The chunks taken are kept in order; the script has the failures,
  as in \<open>httpWriter\<close>.
\<close>

record pipeWriter =
  pw_chunks :: "bytes list"
  pw_closed :: bool
  pw_script :: "(nat \<times> go_error) option list"

definition pw_Write :: "bytes \<Rightarrow> pipeWriter \<Rightarrow> nat \<times> err \<times> pipeWriter" where
  "pw_Write p w =
     (if pw_closed w then (0, Some ErrClosedPipe, w)
      else case pw_script w of
        Some (n, e) # s \<Rightarrow>
          (min n (length p), Some e, w\<lparr>pw_chunks := pw_chunks w @ [take n p], pw_script := s\<rparr>)
      | s \<Rightarrow> (length p, None, w\<lparr>pw_chunks := pw_chunks w @ [p], pw_script := tl s\<rparr>))"

definition pw_Close :: "pipeWriter \<Rightarrow> pipeWriter" where
  "pw_Close w = w\<lparr>pw_closed := True\<rparr>"

definition pw_healthy :: "pipeWriter \<Rightarrow> bool" where
  "pw_healthy w \<longleftrightarrow> \<not> pw_closed w \<and> list_all (\<lambda>r. r = None) (pw_script w)"

text \<open>What the other end reads: the chunks one by one, then \<^verbatim>\<open>io.EOF\<close> if the writer was closed.\<close>

definition pipe_reader :: "pipeWriter \<Rightarrow> reader" where
  "pipe_reader w = map (\<lambda>c. (c, None)) (pw_chunks w) @ (if pw_closed w then [([], Some EOF)] else [])"

lemma pipe_reader_content: "rd_content (pipe_reader w) = concat (pw_chunks w)"
  by (simp add: pipe_reader_def rd_content_def comp_def)

lemma pipe_reader_clean: "rd_clean (pipe_reader w)"
proof -
  have "rd_clean (map (\<lambda>c. (c, None)) cs @ s)" if "rd_clean s" for cs s
    using that by (induction cs) simp_all
  then show ?thesis by (simp add: pipe_reader_def)
qed

lemma pipe_reader_pipe_like: "pipe_like (pipe_reader w)"
  by (auto simp: pipe_reader_def pipe_like_def list_all_iff)

lemma pw_Write_healthy:
  assumes "pw_healthy w" and "pw_Write p w = (n, e, w')"
  shows "n = length p" "e = None" "pw_healthy w'" "pw_chunks w' = pw_chunks w @ [p]"
  using assms by (cases "pw_script w"; auto simp: pw_Write_def pw_healthy_def)+

section \<open>wsResponseWriter\<close>

record wsResponseWriter =
  ww_writer :: pipeWriter
  ww_header :: header
  headerWritten :: bool
  ww_announcedTrailers :: "string list option"

definition newWebSocketResponseWriter :: "(nat \<times> go_error) option list \<Rightarrow> wsResponseWriter" where
  "newWebSocketResponseWriter script =
     \<lparr>ww_writer = \<lparr>pw_chunks = [], pw_closed = False, pw_script = script\<rparr>, ww_header = [],
      headerWritten = False, ww_announcedTrailers = None\<rparr>"

definition ws_Header :: "wsResponseWriter \<Rightarrow> header" where
  "ws_Header w = ww_header w"

text \<open>A metadata frame is written in two pieces, its header and its text; the first error is returned.\<close>

definition write_metadata :: "string \<Rightarrow> pipeWriter \<Rightarrow> err \<times> pipeWriter" where
  "write_metadata buf w =
     (case pw_Write (MakeMessageHeader MetadataFlags (word_of_nat (length buf))) w of
        (_, Some e, w) \<Rightarrow> (Some e, w)
      | (_, None, w) \<Rightarrow> (case pw_Write (bytes_of buf) w of (_, e, w) \<Rightarrow> (e, w)))"

text \<open>\<^verbatim>\<open>WriteHeader\<close> ignores write errors, and writes the text even if the header failed.\<close>

definition ws_WriteHeader :: "int \<Rightarrow> wsResponseWriter \<Rightarrow> wsResponseWriter" where
  "ws_WriteHeader statusCode w =
     (if headerWritten w then w
      else
        let hdr = ww_header w;
            w = w\<lparr>ww_announcedTrailers := ShallowClone (hindex hdr ''Trailer'')\<rparr>;
            hdr = hDel ''Trailer'' hdr;
            hdr = hDel ''Content-Length'' hdr;
            buf = Header_Write hdr;
            (_, _, p) = pw_Write (MakeMessageHeader MetadataFlags (word_of_nat (length buf))) (ww_writer w);
            (_, _, p) = pw_Write (bytes_of buf) p in
        w\<lparr>ww_header := hdr, ww_writer := p, headerWritten := True\<rparr>)"

definition ws_Write :: "bytes \<Rightarrow> wsResponseWriter \<Rightarrow> nat \<times> err \<times> wsResponseWriter" where
  "ws_Write p w =
     (let w = (if \<not> headerWritten w then ws_WriteHeader StatusOK w else w) in
      case pw_Write p (ww_writer w) of (n, e, pw) \<Rightarrow> (n, e, w\<lparr>ww_writer := pw\<rparr>))"

definition ws_Flush :: "wsResponseWriter \<Rightarrow> wsResponseWriter" where
  "ws_Flush w = w"

text \<open>
  \<^verbatim>\<open>Close\<close> collects the trailers with the same loop as the gRPC-Web writer (\<open>move_trailer\<close>,
  visiting the header in the order \<open>ks\<close>), sends them, and closes the pipe on every path.
\<close>

definition closing_trailers :: "string list \<Rightarrow> wsResponseWriter \<Rightarrow> header \<times> header" where
  "closing_trailers ks w =
     (let hdr = ww_header w in
      case ww_announcedTrailers w of
        None \<Rightarrow>
          let st = fold (move_trailer 0) ks ((\<lambda>_. [])(0 := hdelete ''Trailer'' hdr)) in (st 0, st 0)
      | Some ats \<Rightarrow>
          let st = fold (move_trailer 1) ks ((\<lambda>_. [])(0 := hdr, 1 := announced hdr ats)) in (st 1, st 0))"

definition Close :: "string list \<Rightarrow> wsResponseWriter \<Rightarrow> err \<times> wsResponseWriter" where
  "Close ks w =
     (let (trailers, hdr) = closing_trailers ks w;
          w = w\<lparr>ww_header := hdr\<rparr>;
          (e, p) = write_metadata (Header_Write trailers) (ww_writer w)
      in (e, w\<lparr>ww_writer := pw_Close p\<rparr>))"

section \<open>A handler's response as a stream of frames\<close>

datatype ww_op = WsHeader "header \<Rightarrow> header" | WsWriteHeader int | WsWrite bytes | WsFlush

fun ww_step :: "ww_op \<Rightarrow> wsResponseWriter \<Rightarrow> wsResponseWriter" where
  "ww_step (WsHeader f) w = w\<lparr>ww_header := f (ww_header w)\<rparr>"
| "ww_step (WsWriteHeader c) w = ws_WriteHeader c w"
| "ww_step (WsWrite p) w = snd (snd (ws_Write p w))"
| "ww_step WsFlush w = ws_Flush w"

fun ww_data :: "ww_op \<Rightarrow> bytes" where
  "ww_data (WsWrite p) = p"
| "ww_data _ = []"

definition ww_handle :: "ww_op list \<Rightarrow> wsResponseWriter \<Rightarrow> wsResponseWriter" where
  "ww_handle ops w = fold ww_step ops w"

text \<open>The headers that \<^verbatim>\<open>WriteHeader\<close> sends.\<close>

definition response_headers :: "header \<Rightarrow> header" where
  "response_headers h = hDel ''Content-Length'' (hDel ''Trailer'' h)"

definition ww_bytes :: "wsResponseWriter \<Rightarrow> bytes" where
  "ww_bytes w = concat (pw_chunks (ww_writer w))"

lemma ws_WriteHeader_healthy:
  assumes "pw_healthy (ww_writer w)" and "\<not> headerWritten w"
  shows "ws_WriteHeader c w = w
    \<lparr>ww_header := response_headers (ww_header w), headerWritten := True,
     ww_announcedTrailers := hindex (ww_header w) ''Trailer'',
     ww_writer := (ww_writer (ws_WriteHeader c w))\<rparr>"
    and "ww_bytes (ws_WriteHeader c w) =
      ww_bytes w @ mk_frame MetadataFlags (bytes_of (Header_Write (response_headers (ww_header w))))"
    and "pw_healthy (ww_writer (ws_WriteHeader c w))"
proof -
  let ?t = "Header_Write (response_headers (ww_header w))"
  obtain n1 e1 p1 where 1: "pw_Write (MakeMessageHeader MetadataFlags (word_of_nat (length ?t))) (ww_writer w) = (n1, e1, p1)"
    by (cases "pw_Write (MakeMessageHeader MetadataFlags (word_of_nat (length ?t))) (ww_writer w)") auto
  obtain n2 e2 p2 where 2: "pw_Write (bytes_of ?t) p1 = (n2, e2, p2)" by (cases "pw_Write (bytes_of ?t) p1") auto
  note h1 = pw_Write_healthy [OF assms(1) 1]
  note h2 = pw_Write_healthy [OF h1(3) 2]
  have eq: "ws_WriteHeader c w = w\<lparr>ww_header := response_headers (ww_header w), headerWritten := True,
     ww_announcedTrailers := hindex (ww_header w) ''Trailer'', ww_writer := p2\<rparr>"
    using assms(2) 1 2 by (simp add: ws_WriteHeader_def response_headers_def Let_def)
  then show "ws_WriteHeader c w = w\<lparr>ww_header := response_headers (ww_header w), headerWritten := True,
     ww_announcedTrailers := hindex (ww_header w) ''Trailer'',
     ww_writer := (ww_writer (ws_WriteHeader c w))\<rparr>" by simp
  show "ww_bytes (ws_WriteHeader c w) = ww_bytes w @ mk_frame MetadataFlags (bytes_of ?t)"
    using h1(4) h2(4) by (simp add: eq ww_bytes_def mk_frame_def)
  show "pw_healthy (ww_writer (ws_WriteHeader c w))" using h2(3) by (simp add: eq)
qed

text \<open>The header in force when the first of the operations sends it.\<close>

fun sent_header :: "ww_op list \<Rightarrow> header \<Rightarrow> header option" where
  "sent_header [] h = None"
| "sent_header (WsHeader f # ops) h = sent_header ops (f h)"
| "sent_header (WsFlush # ops) h = sent_header ops h"
| "sent_header (_ # ops) h = Some h"

definition ww_written :: "ww_op list \<Rightarrow> bytes" where
  "ww_written ops = concat (map ww_data ops)"

lemma ww_written_simps [simp]: "ww_written [] = []" "ww_written (op # ops) = ww_data op @ ww_written ops"
  by (simp_all add: ww_written_def)

definition headers_frame :: "header \<Rightarrow> bytes" where
  "headers_frame h = mk_frame MetadataFlags (bytes_of (Header_Write (response_headers h)))"

lemma ww_step_written:
  assumes "pw_healthy (ww_writer w)" and "headerWritten w"
  shows "ww_bytes (ww_step op w) = ww_bytes w @ ww_data op \<and> headerWritten (ww_step op w) \<and>
    ww_announcedTrailers (ww_step op w) = ww_announcedTrailers w \<and> pw_healthy (ww_writer (ww_step op w))"
proof (cases op)
  case (WsWrite p)
  obtain n e pw where 1: "pw_Write p (ww_writer w) = (n, e, pw)" by (cases "pw_Write p (ww_writer w)") auto
  with WsWrite assms pw_Write_healthy [OF assms(1) 1] show ?thesis
    by (simp add: ws_Write_def ww_bytes_def)
qed (use assms in \<open>simp_all add: ws_WriteHeader_def ws_Flush_def ww_bytes_def\<close>)

lemma ww_handle_written:
  assumes "pw_healthy (ww_writer w)" and "headerWritten w"
  shows "ww_bytes (ww_handle ops w) = ww_bytes w @ ww_written ops \<and> headerWritten (ww_handle ops w) \<and>
    ww_announcedTrailers (ww_handle ops w) = ww_announcedTrailers w \<and> pw_healthy (ww_writer (ww_handle ops w))"
  using assms
proof (induction ops arbitrary: w)
  case (Cons op ops)
  from ww_step_written [OF Cons.prems, of op] Cons.IH [of "ww_step op w"] show ?case
    by (simp add: ww_handle_def)
qed (simp add: ww_handle_def)

lemma ww_first:
  assumes "pw_healthy (ww_writer w)" and "\<not> headerWritten w" and "op = WsWrite p \<or> op = WsWriteHeader c"
  shows "ww_bytes (ww_step op w) = ww_bytes w @ headers_frame (ww_header w) @ ww_data op \<and>
    headerWritten (ww_step op w) \<and> pw_healthy (ww_writer (ww_step op w)) \<and>
    ww_announcedTrailers (ww_step op w) = hindex (ww_header w) ''Trailer''"
proof -
  have wh: "headerWritten (ws_WriteHeader k w)"
    "ww_announcedTrailers (ws_WriteHeader k w) = hindex (ww_header w) ''Trailer''" for k
    using arg_cong [OF ws_WriteHeader_healthy(1) [OF assms(1,2), of k], of headerWritten]
      arg_cong [OF ws_WriteHeader_healthy(1) [OF assms(1,2), of k], of ww_announcedTrailers] by simp_all
  note wb = ws_WriteHeader_healthy(2,3) [OF assms(1,2)]
  from assms(3) show ?thesis
  proof
    assume op: "op = WsWrite p"
    have "ww_step op w = ww_step op (ws_WriteHeader StatusOK w)"
      using op assms(2) wh(1) by (simp add: ws_Write_def)
    with ww_step_written [OF wb(2) wh(1), where op = op] wb(1) wh(2) show ?thesis
      by (simp add: headers_frame_def)
  qed (use wb wh in \<open>simp add: headers_frame_def\<close>)
qed

lemma ww_handle_bytes:
  assumes "pw_healthy (ww_writer w)" and "\<not> headerWritten w" and "ww_announcedTrailers w = None"
  shows "ww_bytes (ww_handle ops w) =
      ww_bytes w @ (case sent_header ops (ww_header w) of None \<Rightarrow> [] | Some h \<Rightarrow> headers_frame h @ ww_written ops) \<and>
    ww_announcedTrailers (ww_handle ops w) =
      (case sent_header ops (ww_header w) of None \<Rightarrow> None | Some h \<Rightarrow> hindex h ''Trailer'') \<and>
    pw_healthy (ww_writer (ww_handle ops w))"
  using assms
proof (induction ops arbitrary: w)
  case (Cons op ops)
  have eq: "ww_handle (op # ops) w = ww_handle ops (ww_step op w)" by (simp add: ww_handle_def)
  show ?case
  proof (cases op)
    case (WsHeader f)
    with Cons.IH [of "ww_step op w"] Cons.prems eq show ?thesis
      by (simp add: ww_bytes_def split: option.splits)
  next
    case WsFlush
    with Cons.IH [of w] Cons.prems eq show ?thesis by (simp add: ws_Flush_def split: option.splits)
  next
    case (WsWriteHeader c)
    with ww_first [OF Cons.prems(1,2), of op] ww_handle_written [of "ww_step op w" ops] eq show ?thesis
      by simp
  next
    case (WsWrite p)
    with ww_first [OF Cons.prems(1,2), of op p] ww_handle_written [of "ww_step op w" ops] eq show ?thesis
      by simp
  qed
qed (simp add: ww_handle_def)

lemma Close_healthy:
  assumes "pw_healthy (ww_writer w)"
  obtains w' where "Close ks w = (None, w')" and "pw_closed (ww_writer w')"
    and "ww_bytes w' = ww_bytes w @ mk_frame MetadataFlags (bytes_of (Header_Write (fst (closing_trailers ks w))))"
proof -
  obtain tr hdr where t: "closing_trailers ks w = (tr, hdr)" by (cases "closing_trailers ks w")
  let ?t = "Header_Write tr"
  obtain n1 e1 p1 where 1: "pw_Write (MakeMessageHeader MetadataFlags (word_of_nat (length ?t))) (ww_writer w) = (n1, e1, p1)"
    by (cases "pw_Write (MakeMessageHeader MetadataFlags (word_of_nat (length ?t))) (ww_writer w)") auto
  obtain n2 e2 p2 where 2: "pw_Write (bytes_of ?t) p1 = (n2, e2, p2)" by (cases "pw_Write (bytes_of ?t) p1") auto
  note h1 = pw_Write_healthy [OF assms 1]
  note h2 = pw_Write_healthy [OF h1(3) 2]
  show ?thesis
  proof (rule that)
    show "Close ks w = (None, w\<lparr>ww_header := hdr, ww_writer := pw_Close p2\<rparr>)"
      using 1 2 h1(2) h2(2) by (simp add: Close_def t write_metadata_def Let_def)
    show "ww_bytes (w\<lparr>ww_header := hdr, ww_writer := pw_Close p2\<rparr>) =
      ww_bytes w @ mk_frame MetadataFlags (bytes_of (Header_Write (fst (closing_trailers ks w))))"
      using h1(4) h2(4) by (simp add: t ww_bytes_def pw_Close_def mk_frame_def)
  qed (simp add: pw_Close_def)
qed

end
