(* ===== verification/GrpcWebSocket.thy ===== *)
theory GrpcWebSocket
  imports GoIO GrpcProto
begin

text \<open>
  \<^verbatim>\<open>internal/grpcwebsocket\<close>: sending a stream of gRPC frames over a WebSocket connection, one
  binary message per frame. The connection belongs to a library; here it is the list of binary messages
  it has accepted and a script of the results that its future \<^verbatim>\<open>Write\<close> calls return
  (\<open>None\<close>: accepted; nothing but successes after the script's end). A message whose
  \<^verbatim>\<open>Write\<close> fails is not accepted.
\<close>

definition SubprotocolName :: string where "SubprotocolName = ''grpc-ws''"

section \<open>The connection\<close>

record ws_out =
  ws_sent :: "bytes list"
  ws_results :: "err list"

definition conn_Write :: "bytes \<Rightarrow> ws_out \<Rightarrow> err \<times> ws_out" where
  "conn_Write msg c =
     (case ws_results c of
        Some e # rs \<Rightarrow> (Some e, c\<lparr>ws_results := rs\<rparr>)
      | rs \<Rightarrow> (None, c\<lparr>ws_sent := ws_sent c @ [msg], ws_results := tl rs\<rparr>))"

definition ws_healthy :: "ws_out \<Rightarrow> bool" where
  "ws_healthy c \<longleftrightarrow> list_all (\<lambda>r. r = None) (ws_results c)"

section \<open>Write\<close>

function Write :: "reader \<Rightarrow> ws_out \<Rightarrow> err \<times> reader \<times> ws_out" where
  "Write r conn =
     (case CopyNFull MessageHeaderLength r of
        (_, Some e, r) \<Rightarrow> if e = EOF then (None, r, conn) else (Some e, r, conn)
      | (msg, None, r) \<Rightarrow>
          (case ParseMessageHeader msg of
             Inl e \<Rightarrow> (Some e, r, conn)
           | Inr (_, len) \<Rightarrow>
               (case CopyN (unat len) r of
                  (_, Some e, r) \<Rightarrow>
                    (Some (if e = EOF \<or> e = ErrUnexpectedEOF then ErrUnexpectedEOF else e), r, conn)
                | (payload, None, r) \<Rightarrow>
                    (case conn_Write (msg @ payload) conn of
                       (Some e, conn) \<Rightarrow> (Some e, r, conn)
                     | (None, conn) \<Rightarrow> Write r conn))))"
  by pat_completeness auto
termination
proof (relation "measure (\<lambda>(r, conn). length (rd_content r))", goal_cases)
  case 1
  then show ?case by simp
next
  case (2 r conn x y z r1 b ba n x1 y1 z1 r2 x2 conn2)
  then have "length (rd_content r) = 5 + length (rd_content r1)"
    "length (rd_content r2) \<le> length (rd_content r1)"
    using CopyNFull_content [of MessageHeaderLength r x None r1] CopyNFull_None_iff [of MessageHeaderLength r x None r1]
      CopyN_content [of "unat n" r1 x1 None r2]
    by (auto simp: MessageHeaderLength_def)
  then show ?case by simp
qed

declare Write.simps [simp del]

section \<open>One round of the loop\<close>

text \<open>The loop has read a complete frame.\<close>

lemma Write_round:
  assumes "CopyNFull MessageHeaderLength r = (h, None, r1)" and "ParseMessageHeader h = Inr (flags, len)"
    and "CopyN (unat len) r1 = (p, None, r2)"
  shows "h @ p = mk_frame flags p \<and> length p < 2 ^ 32 \<and> rd_content r = mk_frame flags p @ rd_content r2"
proof -
  have "length p = unat len" using CopyN_None_iff [OF assms(3)] by simp
  then have "mk_frame flags p = h @ p" using Make_Parse [OF assms(2)] by (simp add: mk_frame_def)
  with CopyNFull_content [OF assms(1)] CopyN_content [OF assms(3)] \<open>length p = unat len\<close> unat32_less [of len]
  show ?thesis by simp
qed

lemma CopyNFull_parse:
  assumes "CopyNFull MessageHeaderLength r = (h, None, r1)"
  obtains flags len where "ParseMessageHeader h = Inr (flags, len)"
  using CopyNFull_None_iff [OF assms] by (auto simp: ParseMessageHeader_def)

text \<open>How a round goes, by the two copies and the connection.\<close>

lemma Write_cases:
  obtains (header) e h r1 where "CopyNFull MessageHeaderLength r = (h, Some e, r1)"
      "Write r c = (if e = EOF then None else Some e, r1, c)"
    | (payload) e h flags len d r1 r2 where "CopyNFull MessageHeaderLength r = (h, None, r1)"
      "ParseMessageHeader h = Inr (flags, len)" "CopyN (unat len) r1 = (d, Some e, r2)"
      "Write r c = (Some (if e = EOF \<or> e = ErrUnexpectedEOF then ErrUnexpectedEOF else e), r2, c)"
    | (failed) e flags p r2 c2 where "length p < 2 ^ 32" "rd_content r = mk_frame flags p @ rd_content r2"
      "conn_Write (mk_frame flags p) c = (Some e, c2)" "Write r c = (Some e, r2, c2)"
    | (sent) flags p r2 c2 where "length p < 2 ^ 32" "rd_content r = mk_frame flags p @ rd_content r2"
      "conn_Write (mk_frame flags p) c = (None, c2)" "Write r c = Write r2 c2"
proof -
  obtain h e1 r1 where 1: "CopyNFull MessageHeaderLength r = (h, e1, r1)"
    by (cases "CopyNFull MessageHeaderLength r") auto
  show ?thesis
  proof (cases e1)
    case (Some e)
    with 1 show ?thesis by (intro header [of h e r1]) (simp_all add: Write.simps [of r])
  next
    case None
    note cp = 1 [unfolded None]
    from CopyNFull_parse [OF cp] obtain flags len where 2: "ParseMessageHeader h = Inr (flags, len)" .
    obtain p e2 r2 where 3: "CopyN (unat len) r1 = (p, e2, r2)" by (cases "CopyN (unat len) r1") auto
    show ?thesis
    proof (cases e2)
      case (Some e)
      with cp 2 3 show ?thesis by (intro payload [of h r1 flags len p e r2]) (simp_all add: Write.simps [of r])
    next
      case None
      note f = Write_round [OF cp 2 3 [unfolded None]]
      obtain e3 c2 where 4: "conn_Write (h @ p) c = (e3, c2)" by (cases "conn_Write (h @ p) c")
      have eq: "Write r c = (case e3 of Some e \<Rightarrow> (Some e, r2, c2) | None \<Rightarrow> Write r2 c2)"
        using cp 2 3 None 4 by (simp add: Write.simps [of r] split: option.split)
      from 4 f eq show ?thesis by (cases e3) (auto intro: failed sent)
    qed
  qed
qed

lemma conn_Write_sent: "conn_Write m c = (None, c') \<Longrightarrow> ws_sent c' = ws_sent c @ [m]"
  by (auto simp: conn_Write_def split: list.splits option.splits)

lemma conn_Write_failed: "conn_Write m c = (Some e, c') \<Longrightarrow> ws_sent c' = ws_sent c"
  by (auto simp: conn_Write_def split: list.splits option.splits)

lemma conn_Write_healthy:
  "ws_healthy c \<Longrightarrow> conn_Write m c = (e, c') \<Longrightarrow> e = None \<and> ws_healthy c'"
  by (auto simp: conn_Write_def ws_healthy_def split: list.splits option.splits)

section \<open>What is sent\<close>

text \<open>Whatever the stream and the connection do, the messages sent are frames of the stream, in order.\<close>

lemma Write_sends_frames:
  "Write r c = (e, r', c') \<Longrightarrow> \<exists>fs lost. list_all frame_ok fs \<and>
     ws_sent c' = ws_sent c @ frame_list fs \<and>
     rd_content r = frames_bytes fs @ lost @ rd_content r'"
proof (induction "length (rd_content r)" arbitrary: r c rule: less_induct)
  case less
  show ?case
  proof (cases rule: Write_cases [of r c])
    case (header e h r1)
    with less.prems CopyNFull_content [OF header(1)] show ?thesis
      by (intro exI [of _ "[]"] exI [of _ h]) auto
  next
    case (payload e h flags len d r1 r2)
    with less.prems CopyNFull_content [OF payload(1)] CopyN_content [OF payload(3)] show ?thesis
      by (intro exI [of _ "[]"] exI [of _ "h @ d"]) auto
  next
    case (failed e flags p r2 c2)
    with less.prems conn_Write_failed [OF failed(3)] show ?thesis
      by (intro exI [of _ "[]"] exI [of _ "mk_frame flags p"]) auto
  next
    case (sent flags p r2 c2)
    have "length (rd_content r2) < length (rd_content r)" by (simp add: sent(2))
    from less.hyps [OF this, of c2] less.prems sent(4) obtain fs lost where
      "list_all frame_ok fs" "ws_sent c' = ws_sent c2 @ frame_list fs"
      "rd_content r2 = frames_bytes fs @ lost @ rd_content r'" by auto
    with sent conn_Write_sent [OF sent(3)] show ?thesis
      by (intro exI [of _ "(flags, p) # fs"] exI [of _ lost]) (auto simp: frame_ok_def)
  qed
qed

text \<open>A stream that ends cleanly is sent up to its last complete frame.\<close>

lemma Write_next_frame:
  assumes "rd_clean r" and "rd_content r = mk_frame flags p @ rest" and "length p < 2 ^ 32"
  obtains r2 where "rd_clean r2" and "rd_content r2 = rest" and "pipe_like r \<Longrightarrow> pipe_like r2"
    and "Write r c = (case conn_Write (mk_frame flags p) c of
           (Some e, c2) \<Rightarrow> (Some e, r2, c2) | (None, c2) \<Rightarrow> Write r2 c2)"
proof -
  let ?h = "MakeMessageHeader flags (word_of_nat (length p))"
  have "MessageHeaderLength \<le> length (rd_content r)" by (simp add: assms(2) MessageHeaderLength_def)
  then obtain r1 where r1: "CopyN MessageHeaderLength r = (take MessageHeaderLength (rd_content r), None, r1)"
    "rd_clean r1" "rd_content r1 = drop MessageHeaderLength (rd_content r)"
    by (rule CopyN_clean [OF assms(1)])
  then have h: "CopyNFull MessageHeaderLength r = (?h, None, r1)" "rd_content r1 = p @ rest"
    by (simp_all add: CopyNFull_def assms(2) mk_frame_def MessageHeaderLength_def)
  have p: "ParseMessageHeader ?h = Inr (flags, word_of_nat (length p))" by (simp add: Parse_Make)
  have len: "unat (word_of_nat (length p) :: 32 word) = length p" using assms(3) by (rule unat_len32)
  obtain r2 where r2: "CopyN (length p) r1 = (p, None, r2)" "rd_clean r2" "rd_content r2 = rest"
    using CopyN_clean [OF r1(2), of "length p"] h(2) by auto
  obtain e c2 where c2: "conn_Write (mk_frame flags p) c = (e, c2)" by (cases "conn_Write (mk_frame flags p) c")
  have "Write r c = (case conn_Write (mk_frame flags p) c of
      (Some e, c2) \<Rightarrow> (Some e, r2, c2) | (None, c2) \<Rightarrow> Write r2 c2)"
    using h(1) p len r2(1) c2 by (simp add: Write.simps [of r] mk_frame_def split: option.split)
  moreover have "pipe_like r2" if "pipe_like r" using CopyN_pipe_like that r1(1) r2(1) by blast
  ultimately show ?thesis using that r2(2,3) by blast
qed

lemma Write_clean_frame:
  assumes "rd_clean r" and "rd_content r = mk_frame flags p @ rest" and "length p < 2 ^ 32"
    and "ws_healthy c"
  obtains r2 c2 where "rd_clean r2" and "rd_content r2 = rest" and "ws_healthy c2"
    and "ws_sent c2 = ws_sent c @ [mk_frame flags p]" and "Write r c = Write r2 c2"
proof -
  obtain e c2 where c2: "conn_Write (mk_frame flags p) c = (e, c2)" by (cases "conn_Write (mk_frame flags p) c")
  note ok = conn_Write_healthy [OF assms(4) c2]
  with c2 conn_Write_sent [of "mk_frame flags p" c c2] that show ?thesis
    by (auto intro: Write_next_frame [OF assms(1-3), of c])
qed

text \<open>The connection accepts the first \<open>k\<close> messages and fails on the next one.\<close>

lemma Write_failing:
  assumes "rd_clean r" and "pipe_like r" and "rd_content r = frames_bytes fs @ rest"
    and "list_all frame_ok fs" and "ws_results c = replicate k None @ Some e # rs" and "length fs = Suc k"
  obtains r2 c2 where "Write r c = (Some e, r2, c2)" and "rd_content r2 = rest" and "pipe_like r2"
    and "ws_sent c2 = ws_sent c @ take k (frame_list fs)"
  using assms
proof (induction fs arbitrary: r c k thesis)
  case (Cons f fs)
  obtain flags p where f: "f = (flags, p)" by (cases f)
  have fp: "rd_content r = mk_frame flags p @ frames_bytes fs @ rest" "length p < 2 ^ 32"
    using Cons.prems f by (simp_all add: frame_ok_def)
  obtain r1 where r1: "rd_clean r1" "rd_content r1 = frames_bytes fs @ rest" "pipe_like r1"
    "Write r c = (case conn_Write (mk_frame flags p) c of
       (Some e, c2) \<Rightarrow> (Some e, r1, c2) | (None, c2) \<Rightarrow> Write r1 c2)"
    by (rule Write_next_frame [OF Cons.prems(2) fp, of c]) (use Cons.prems(3) that in blast)
  show ?case
  proof (cases k)
    case 0
    with Cons.prems r1 show ?thesis
      by (intro Cons.prems(1) [of r1 "c\<lparr>ws_results := rs\<rparr>"]) (simp_all add: conn_Write_def)
  next
    case (Suc k')
    let ?c1 = "c\<lparr>ws_sent := ws_sent c @ [mk_frame flags p], ws_results := replicate k' None @ Some e # rs\<rparr>"
    have "conn_Write (mk_frame flags p) c = (None, ?c1)" using Cons.prems(6) Suc by (simp add: conn_Write_def)
    with r1(4) have "Write r c = Write r1 ?c1" by simp
    then show ?thesis
      using Cons.prems Suc f r1 Cons.IH [of r1 ?c1 k'] by auto
  qed
qed simp

lemma Write_clean_frames:
  assumes "rd_clean r" and "rd_content r = frames_bytes fs @ rest" and "list_all frame_ok fs"
    and "ws_healthy c"
  obtains r2 c2 where "rd_clean r2" and "rd_content r2 = rest" and "ws_healthy c2"
    and "ws_sent c2 = ws_sent c @ frame_list fs" and "Write r c = Write r2 c2"
  using assms
proof (induction fs arbitrary: r c thesis)
  case (Cons f fs)
  obtain flags p where f: "f = (flags, p)" by (cases f)
  have "rd_content r = mk_frame flags p @ frames_bytes fs @ rest" "length p < 2 ^ 32"
    using Cons.prems f by (simp_all add: frame_ok_def)
  from Write_clean_frame [OF Cons.prems(2) this Cons.prems(5)] obtain r1 c1 where
    1: "rd_clean r1" "rd_content r1 = frames_bytes fs @ rest" "ws_healthy c1"
    "ws_sent c1 = ws_sent c @ [mk_frame flags p]" "Write r c = Write r1 c1" .
  obtain r2 c2 where "rd_clean r2" "rd_content r2 = rest" "ws_healthy c2"
    "ws_sent c2 = ws_sent c1 @ frame_list fs" "Write r1 c1 = Write r2 c2"
    by (rule Cons.IH [OF _ 1(1,2) _ 1(3)]) (use Cons.prems(4) in simp_all)
  with Cons.prems(1) 1 f show ?case by simp
qed simp

lemma Write_clean_exhausted:
  assumes "rd_clean r" and "rd_content r = []"
  shows "Write r c = (None, [], c)"
proof -
  obtain r1 where r1: "CopyN MessageHeaderLength r = (rd_content r, Some EOF, r1)"
    using CopyN_clean_short [OF assms(1), of MessageHeaderLength] assms(2)
    by (auto simp: MessageHeaderLength_def)
  with CopyN_exhausts [OF assms(1) r1] assms(2) show ?thesis
    by (simp add: Write.simps [of r] CopyNFull_def)
qed

lemma Write_clean_end:
  assumes "rd_clean r" and "rd_content r = take k (mk_frame flags p)" and "k < 5 + length p"
    and "length p < 2 ^ 32"
  shows "\<exists>r'. Write r c = (if k = 0 then None else Some ErrUnexpectedEOF, r', c) \<and> rd_content r' = []"
proof (cases "k < 5")
  case True
  then have "length (rd_content r) < MessageHeaderLength" by (simp add: assms(2) MessageHeaderLength_def)
  then obtain r1 where "CopyN MessageHeaderLength r = (rd_content r, Some EOF, r1)" "rd_content r1 = []"
    by (rule CopyN_clean_short [OF assms(1)])
  then show ?thesis
    by (cases "k = 0") (simp_all add: Write.simps [of r] CopyNFull_def assms(2) mk_frame_Cons)
next
  case False
  let ?h = "MakeMessageHeader flags (word_of_nat (length p))"
  have "MessageHeaderLength \<le> length (rd_content r)" using False assms(3) by (simp add: assms(2) MessageHeaderLength_def)
  then obtain r1 where r1: "CopyN MessageHeaderLength r = (take MessageHeaderLength (rd_content r), None, r1)"
    "rd_clean r1" "rd_content r1 = drop MessageHeaderLength (rd_content r)"
    by (rule CopyN_clean [OF assms(1)])
  then have h: "CopyNFull MessageHeaderLength r = (?h, None, r1)" "rd_content r1 = take (k - 5) p"
    using False by (simp_all add: CopyNFull_def assms(2) mk_frame_def MessageHeaderLength_def)
  then have "length (rd_content r1) < length p" using assms(3) False by simp
  then obtain r2 where r2: "CopyN (length p) r1 = (rd_content r1, Some EOF, r2)" "rd_content r2 = []"
    by (rule CopyN_clean_short [OF r1(2)])
  have "Write r c = (Some ErrUnexpectedEOF, r2, c)"
    using h(1) r2(1) unat_len32 [OF assms(4)] by (simp add: Write.simps [of r] Parse_Make)
  with r2(2) False show ?thesis by simp
qed

section \<open>Properties\<close>

text \<open>
  Claim C24. Every message that goes over the WebSocket is exactly one well-formed gRPC frame, whatever the
  stream delivers and whenever the connection fails; and the messages sent, put together, are
  a prefix of the stream.
\<close>

theorem ws_Write_sends_frames:
  assumes "Write r c = (e, r', c')"
  shows "\<exists>msgs. ws_sent c' = ws_sent c @ msgs \<and> list_all (\<lambda>m. ValidateGRPCFrame m = None) msgs \<and>
    (\<exists>rest. rd_content r = concat msgs @ rest)"
proof -
  from Write_sends_frames [OF assms] obtain fs lost where fs: "list_all frame_ok fs"
    "ws_sent c' = ws_sent c @ frame_list fs" "rd_content r = frames_bytes fs @ lost @ rd_content r'"
    by blast
  moreover note Validate_frame_list [OF fs(1)]
  ultimately show ?thesis by (metis concat_frame_list)
qed

text \<open>
  A stream of complete frames is sent frame by frame and ends without an error; a stream that
  breaks off inside a frame is sent up to the last complete frame and ends with
  \<^verbatim>\<open>io.ErrUnexpectedEOF\<close>. This holds for every way the stream is cut into reads.
\<close>

theorem ws_Write_stream:
  assumes "rd_clean r" and "ws_healthy c" and "list_all frame_ok fs"
    and "rd_content r = frames_bytes fs @ take k (mk_frame flags p)"
    and "k < 5 + length p" and "length p < 2 ^ 32"
  shows "\<exists>r' c'. Write r c = (if k = 0 then None else Some ErrUnexpectedEOF, r', c') \<and>
    ws_sent c' = ws_sent c @ frame_list fs"
proof -
  from assms(1,4,3,2) obtain r2 c2 where 2: "rd_clean r2" "rd_content r2 = take k (mk_frame flags p)"
    "ws_sent c2 = ws_sent c @ frame_list fs" "Write r c = Write r2 c2"
    by (rule Write_clean_frames)
  from Write_clean_end [OF 2(1,2) assms(5,6), of c2] 2(3,4) show ?thesis by auto
qed

theorem ws_Write_sends_frames_witness:
  "\<exists>msgs. ws_sent (snd (snd (Write [([0, 0, 0], None), ([0, 1, 7, 9], None)] \<lparr>ws_sent = [], ws_results = []\<rparr>))) = msgs \<and>
    list_all (\<lambda>m. ValidateGRPCFrame m = None) msgs \<and> (\<exists>rest. [0, 0, 0, 0, 1, 7, 9] = concat msgs @ rest)"
proof -
  obtain e r' c' where "Write [([0, 0, 0], None), ([0, 1, 7, 9], None)] \<lparr>ws_sent = [], ws_results = []\<rparr> = (e, r', c')"
    by (cases "Write [([0, 0, 0], None), ([0, 1, 7, 9], None)] \<lparr>ws_sent = [], ws_results = []\<rparr>") auto
  from this ws_Write_sends_frames [OF this] show ?thesis by auto
qed

theorem ws_Write_stream_witness:
  "\<exists>r' c'. Write [([0, 0, 0], None), ([0, 1, 7, 9], None)] \<lparr>ws_sent = [], ws_results = [None]\<rparr> =
      (Some ErrUnexpectedEOF, r', c') \<and> ws_sent c' = [mk_frame 0 [7]]"
  using ws_Write_stream [of "[([0, 0, 0], None), ([0, 1, 7, 9], None)]" "\<lparr>ws_sent = [], ws_results = [None]\<rparr>"
    "[(0, [7])]" 1 9 "[]"]
  by (simp add: ws_healthy_def frame_ok_def mk_frame_Cons BigEndian_PutUint32_def)

end
