(* ===== verification/GrpcMessage.thy ===== *)
theory GrpcMessage
  imports Prelude
begin

text \<open>
  \<^verbatim>\<open>internal/grpcproto/message.go\<close>: the percent encoding of the \<^verbatim>\<open>grpc-message\<close> header, with
  the parts of \<^verbatim>\<open>unicode/utf8\<close> it uses. A rune is its code point, a \<open>nat\<close>.
\<close>

section \<open>unicode/utf8\<close>

definition RuneError :: nat where
  "RuneError = 65533"

definition in_range :: "nat \<Rightarrow> nat \<Rightarrow> char \<Rightarrow> bool" where
  "in_range lo hi c \<longleftrightarrow> lo \<le> code c \<and> code c \<le> hi"

text \<open>
  \<^verbatim>\<open>utf8.DecodeRuneInString\<close>: the first rune and its width; an ill-formed sequence is one byte wide
  and gives \<^verbatim>\<open>RuneError\<close>. Overlong forms, surrogates and values above \<^verbatim>\<open>U+10FFFF\<close> are
  ill-formed, which restricts the second byte after \<^verbatim>\<open>E0\<close>, \<^verbatim>\<open>ED\<close>, \<^verbatim>\<open>F0\<close> and
  \<^verbatim>\<open>F4\<close>.
\<close>

fun DecodeRuneInString :: "string \<Rightarrow> nat \<times> nat" where
  "DecodeRuneInString [] = (RuneError, 0)"
| "DecodeRuneInString (c0 # s) =
     (let b0 = code c0 in
      if b0 < 128 then (b0, 1)
      else if 194 \<le> b0 \<and> b0 \<le> 223 then
        (case s of
           c1 # _ \<Rightarrow> if in_range 128 191 c1 then ((b0 - 192) * 64 + (code c1 - 128), 2)
                     else (RuneError, 1)
         | _ \<Rightarrow> (RuneError, 1))
      else if 224 \<le> b0 \<and> b0 \<le> 239 then
        (case s of
           c1 # c2 # _ \<Rightarrow>
             if in_range (if b0 = 224 then 160 else 128) (if b0 = 237 then 159 else 191) c1
                \<and> in_range 128 191 c2
             then ((b0 - 224) * 4096 + (code c1 - 128) * 64 + (code c2 - 128), 3)
             else (RuneError, 1)
         | _ \<Rightarrow> (RuneError, 1))
      else if 240 \<le> b0 \<and> b0 \<le> 244 then
        (case s of
           c1 # c2 # c3 # _ \<Rightarrow>
             if in_range (if b0 = 240 then 144 else 128) (if b0 = 244 then 143 else 191) c1
                \<and> in_range 128 191 c2 \<and> in_range 128 191 c3
             then ((b0 - 240) * 262144 + (code c1 - 128) * 4096 + (code c2 - 128) * 64
                   + (code c3 - 128), 4)
             else (RuneError, 1)
         | _ \<Rightarrow> (RuneError, 1))
      else (RuneError, 1))"

text \<open>The conversion \<^verbatim>\<open>string(r)\<close> of a rune.\<close>

definition string_of_rune :: "nat \<Rightarrow> string" where
  "string_of_rune r =
     map char_of
      (if r < 128 then [r]
       else if r < 2048 then [192 + r div 64, 128 + r mod 64]
       else if 1114111 < r \<or> 55296 \<le> r \<and> r \<le> 57343 then [239, 191, 189]
       else if r < 65536 then [224 + r div 4096, 128 + r div 64 mod 64, 128 + r mod 64]
       else [240 + r div 262144, 128 + r div 4096 mod 64, 128 + r div 64 mod 64, 128 + r mod 64])"

text \<open>A position is ill-formed if it decodes to \<^verbatim>\<open>RuneError\<close> with width 1.\<close>

definition ill_formed :: "string \<Rightarrow> bool" where
  "ill_formed s \<longleftrightarrow> DecodeRuneInString s = (RuneError, 1)"

lemma Decode_size:
  "s \<noteq> [] \<Longrightarrow> 0 < snd (DecodeRuneInString s) \<and> snd (DecodeRuneInString s) \<le> length s"
  by (cases s) (auto simp: Let_def split: list.splits)

lemma Decode_drop:
  "s \<noteq> [] \<Longrightarrow> DecodeRuneInString s = (r, sz) \<Longrightarrow> length (drop sz s) < length s"
  using Decode_size [of s] by simp

section \<open>Percent encoding\<close>

text \<open>The bytes that are passed through: printable ASCII, space included, but the percent sign.\<close>

definition allowed :: "char \<Rightarrow> bool" where
  "allowed c \<longleftrightarrow> CHR '' '' \<le> c \<and> c \<le> CHR ''~'' \<and> c \<noteq> CHR ''%''"

text \<open>\<^verbatim>\<open>fmt.Sprintf("%%%02X", b)\<close> for a byte.\<close>

definition hex_digit :: "nat \<Rightarrow> char" where
  "hex_digit n = char_of (if n < 10 then 48 + n else 55 + n)"

definition percent_byte :: "char \<Rightarrow> string" where
  "percent_byte b = [CHR ''%'', hex_digit (code b div 16), hex_digit (code b mod 16)]"

function encodeGrpcMessageUnchecked :: "string \<Rightarrow> string" where
  "encodeGrpcMessageUnchecked msg =
     (if msg = [] then []
      else case DecodeRuneInString msg of (r, sz) \<Rightarrow>
        concat (map (\<lambda>b. if 1 < sz then percent_byte b
                         else if allowed b then [b] else percent_byte b) (string_of_rune r))
        @ encodeGrpcMessageUnchecked (drop sz msg))"
  by pat_completeness auto
termination
  by (relation "measure length") (use Decode_drop [OF _ sym] in simp_all)

declare encodeGrpcMessageUnchecked.simps [simp del]

definition EncodeGrpcMessage :: "string \<Rightarrow> string" where
  "EncodeGrpcMessage msg =
     (if msg = [] then []
      else if list_ex (\<lambda>c. \<not> allowed c) msg then encodeGrpcMessageUnchecked msg
      else msg)"

section \<open>The receiving side\<close>

text \<open>
  The reference the encoding is measured against: the decoding that a gRPC peer applies (a percent
  sign with two hexadecimal digits stands for a byte, everything else for itself), and the text with
  each ill-formed byte replaced by \<^verbatim>\<open>U+FFFD\<close>.
\<close>

definition unhex :: "char \<Rightarrow> nat option" where
  "unhex c =
     (if in_range 48 57 c then Some (code c - 48)
      else if in_range 65 70 c then Some (code c - 55)
      else if in_range 97 102 c then Some (code c - 87)
      else None)"

fun percent_decode :: "string \<Rightarrow> string" where
  "percent_decode (c # h # l # s) =
     (if c = CHR ''%'' then
        (case (unhex h, unhex l) of
           (Some x, Some y) \<Rightarrow> char_of (16 * x + y) # percent_decode s
         | _ \<Rightarrow> c # percent_decode (h # l # s))
      else c # percent_decode (h # l # s))"
| "percent_decode s = s"

function to_valid_utf8 :: "string \<Rightarrow> string" where
  "to_valid_utf8 s =
     (if s = [] then []
      else case DecodeRuneInString s of (r, sz) \<Rightarrow>
        string_of_rune r @ to_valid_utf8 (drop sz s))"
  by pat_completeness auto
termination
  by (relation "measure length") (use Decode_drop [OF _ sym] in simp_all)

declare to_valid_utf8.simps [simp del]

text \<open>\<^verbatim>\<open>utf8.Valid\<close>: no position is ill-formed.\<close>

function utf8_Valid :: "string \<Rightarrow> bool" where
  "utf8_Valid s =
     (if s = [] then True else if ill_formed s then False
      else utf8_Valid (drop (snd (DecodeRuneInString s)) s))"
  by pat_completeness auto
termination
  by (relation "measure length") (use Decode_drop [OF _ surjective_pairing] in simp_all)

declare utf8_Valid.simps [simp del]

section \<open>Correctness\<close>

text \<open>Encoding a well-formed rune gives back the bytes it was decoded from.\<close>

lemma rune2:
  fixes a b :: nat
  assumes "194 \<le> a" "a \<le> 223" "128 \<le> b" "b \<le> 191"
  shows "string_of_rune ((a - 192) * 64 + (b - 128)) = [char_of a, char_of b]"
proof -
  define x y where "x = a - 192" and "y = b - 128"
  then have "a = 192 + x" "b = 128 + y" "2 \<le> x" "x < 32" "y < 64" using assms by auto
  then show ?thesis by (simp add: string_of_rune_def)
qed

lemma base64_digits:
  fixes q z :: nat
  assumes "z < 64"
  shows "(q * 64 + z) div 64 = q" and "(q * 64 + z) mod 64 = z"
  using assms by simp_all

lemma rune3:
  fixes a b c :: nat
  assumes "224 \<le> a" "a \<le> 239" "128 \<le> b" "b \<le> 191" "128 \<le> c" "c \<le> 191"
    and "a = 224 \<longrightarrow> 160 \<le> b" "a = 237 \<longrightarrow> b \<le> 159"
  shows "string_of_rune ((a - 224) * 4096 + (b - 128) * 64 + (c - 128)) =
    [char_of a, char_of b, char_of c]"
proof -
  define x y z where "x = a - 224" and "y = b - 128" and "z = c - 128"
  then have *: "a = 224 + x" "b = 128 + y" "c = 128 + z" "x < 16" "y < 64" "z < 64"
    "x = 0 \<longrightarrow> 32 \<le> y" "x = 13 \<longrightarrow> y < 32" using assms by arith+
  let ?r = "x * 4096 + y * 64 + z"
  have r: "?r = (x * 64 + y) * 64 + z" by simp
  have div: "?r div 4096 = x" "?r div 64 mod 64 = y" "?r mod 64 = z"
    using * div_mult2_eq [of ?r 64 64] by (simp_all only: r base64_digits) simp
  have "2048 \<le> ?r" using *(5-7) by (cases "x = 0") simp_all
  moreover have "?r < 65536" using *(4-6) by linarith
  moreover have "\<not> (55296 \<le> ?r \<and> ?r \<le> 57343)"
  proof (cases "x = 13")
    case True
    with *(6,8) show ?thesis by linarith
  next
    case False
    then have "x \<le> 12 \<or> 14 \<le> x" by linarith
    with *(5,6) show ?thesis by linarith
  qed
  ultimately have "string_of_rune ?r = map char_of [224 + x, 128 + y, 128 + z]"
    unfolding string_of_rune_def div by (simp only: not_less [symmetric]) auto
  then show ?thesis by (simp add: *(1-3))
qed

lemma rune4:
  fixes a b c d :: nat
  assumes "240 \<le> a" "a \<le> 244" "128 \<le> b" "b \<le> 191" "128 \<le> c" "c \<le> 191" "128 \<le> d" "d \<le> 191"
    and "a = 240 \<longrightarrow> 144 \<le> b" "a = 244 \<longrightarrow> b \<le> 143"
  shows "string_of_rune ((a - 240) * 262144 + (b - 128) * 4096 + (c - 128) * 64 + (d - 128)) =
    [char_of a, char_of b, char_of c, char_of d]"
proof -
  define w x y z where "w = a - 240" and "x = b - 128" and "y = c - 128" and "z = d - 128"
  then have *: "a = 240 + w" "b = 128 + x" "c = 128 + y" "d = 128 + z"
    "w \<le> 4" "x < 64" "y < 64" "z < 64" "w = 0 \<longrightarrow> 16 \<le> x" "w = 4 \<longrightarrow> x < 16" using assms by arith+
  let ?r = "w * 262144 + x * 4096 + y * 64 + z"
  have r: "?r = ((w * 64 + x) * 64 + y) * 64 + z" by simp
  have "?r div 4096 = w * 64 + x"
    using * div_mult2_eq [of ?r 64 64] by (simp only: r base64_digits) simp
  then have div: "?r div 262144 = w" "?r div 4096 mod 64 = x" "?r div 64 mod 64 = y"
    "?r mod 64 = z"
    using * div_mult2_eq [of ?r 4096 64] by (simp_all only: r base64_digits)
  have "65536 \<le> ?r" using *(9) by (cases "w = 0") simp_all
  moreover have "?r \<le> 1114111"
  proof (cases "w = 4")
    case False
    with *(5-8) have "w \<le> 3" "x < 64" "y < 64" "z < 64" by simp_all
    then show ?thesis by linarith
  qed (use *(6-8,10) in linarith)
  ultimately have "string_of_rune ?r = map char_of [240 + w, 128 + x, 128 + y, 128 + z]"
    by (simp only: string_of_rune_def div) auto
  then show ?thesis by (simp add: *(1-4))
qed

lemma string_of_rune_decode:
  assumes "s \<noteq> []" and "\<not> ill_formed s"
  shows "string_of_rune (fst (DecodeRuneInString s)) = take (snd (DecodeRuneInString s)) s"
proof -
  obtain c0 t where s: "s = c0 # t" using assms(1) by (cases s) auto
  consider "code c0 < 128" | "128 \<le> code c0" "code c0 < 194" | "194 \<le> code c0" "code c0 \<le> 223"
    | "224 \<le> code c0" "code c0 \<le> 239" | "240 \<le> code c0" "code c0 \<le> 244" | "244 < code c0"
    by linarith
  then show ?thesis
  proof cases
    case 1
    then show ?thesis by (simp add: s string_of_rune_def)
  next
    case 3
    with assms(2) show ?thesis
      by (cases t) (auto simp: s ill_formed_def in_range_def rune2
          simp del: Nat.add_diff_assoc Nat.add_diff_assoc2 split: if_splits)
  next
    case 4
    with assms(2) obtain c1 c2 u where t: "t = c1 # c2 # u"
      by (auto simp: s ill_formed_def Let_def split: list.splits)
    with 4 assms(2) have ok: "in_range (if code c0 = 224 then 160 else 128)
        (if code c0 = 237 then 159 else 191) c1 \<and> in_range 128 191 c2"
      by (auto simp: s ill_formed_def Let_def split: if_splits)
    then have "string_of_rune ((code c0 - 224) * 4096 + (code c1 - 128) * 64 + (code c2 - 128)) =
        [char_of (code c0), char_of (code c1), char_of (code c2)]"
      using 4 by (intro rune3) (auto simp: in_range_def split: if_splits)
    with 4 ok show ?thesis
      by (simp add: s t Let_def del: Nat.add_diff_assoc Nat.add_diff_assoc2)
  next
    case 5
    with assms(2) obtain c1 c2 c3 u where t: "t = c1 # c2 # c3 # u"
      by (auto simp: s ill_formed_def Let_def split: list.splits)
    with 5 assms(2) have ok: "in_range (if code c0 = 240 then 144 else 128)
        (if code c0 = 244 then 143 else 191) c1 \<and> in_range 128 191 c2 \<and> in_range 128 191 c3"
      by (auto simp: s ill_formed_def Let_def split: if_splits)
    then have "string_of_rune ((code c0 - 240) * 262144 + (code c1 - 128) * 4096
          + (code c2 - 128) * 64 + (code c3 - 128)) =
        [char_of (code c0), char_of (code c1), char_of (code c2), char_of (code c3)]"
      using 5 by (intro rune4) (auto simp: in_range_def split: if_splits)
    with 5 ok show ?thesis
      by (simp add: s t Let_def del: Nat.add_diff_assoc Nat.add_diff_assoc2)
  qed (use assms(2) in \<open>simp_all add: s ill_formed_def\<close>)
qed

text \<open>Text that is well-formed is not changed by the replacement of ill-formed bytes.\<close>

lemma to_valid_utf8_id: "utf8_Valid s \<Longrightarrow> to_valid_utf8 s = s"
proof (induction s rule: to_valid_utf8.induct)
  case (1 s)
  show ?case
  proof (cases "s = []")
    case True
    then show ?thesis by (simp add: to_valid_utf8.simps)
  next
    case False
    obtain r sz where d: "DecodeRuneInString s = (r, sz)" by (cases "DecodeRuneInString s")
    from False "1.prems" d have "\<not> ill_formed s" "utf8_Valid (drop sz s)"
      by (auto simp: utf8_Valid.simps [of s] split: if_splits)
    with False d "1.IH" [OF False d [symmetric]] string_of_rune_decode [of s]
    show ?thesis by (simp add: to_valid_utf8.simps [of s])
  qed
qed

text \<open>The decoder undoes one encoded byte, and passes an allowed byte through.\<close>

lemma allowed_code: "allowed c \<longleftrightarrow> 32 \<le> code c \<and> code c \<le> 126 \<and> code c \<noteq> 37"
proof -
  have "code c = code (CHR ''%'') \<longleftrightarrow> c = CHR ''%''" by (rule of_char_eq_iff)
  then show ?thesis
    by (auto simp: allowed_def less_eq_char_def)
qed

lemma unhex_hex_digit: "n < 16 \<Longrightarrow> unhex (hex_digit n) = Some n"
  by (auto simp: unhex_def hex_digit_def in_range_def)

lemma code_div16: "code b div 16 < 16"
  using of_char_less_256 [of b] by linarith

lemma percent_decode_byte: "percent_decode (percent_byte b @ s) = b # percent_decode s"
  by (simp add: percent_byte_def unhex_hex_digit code_div16)

lemma percent_decode_allowed: "allowed b \<Longrightarrow> percent_decode (b # s) = b # percent_decode s"
  by (cases "b # s" rule: percent_decode.cases) (auto simp: allowed_def split: option.splits)

lemma percent_decode_concat:
  assumes "\<And>b. b \<in> set bs \<Longrightarrow> f b = percent_byte b \<or> f b = [b] \<and> allowed b"
  shows "percent_decode (concat (map f bs) @ s) = bs @ percent_decode s"
  using assms
proof (induction bs)
  case (Cons b bs)
  then have "f b = percent_byte b \<or> f b = [b] \<and> allowed b" by simp
  moreover have "percent_decode (concat (map f bs) @ s) = bs @ percent_decode s"
    using Cons by simp
  ultimately show ?case by (auto simp: percent_decode_byte percent_decode_allowed)
qed simp

lemma percent_decode_unchecked:
  "percent_decode (encodeGrpcMessageUnchecked msg) = to_valid_utf8 msg"
proof (induction msg rule: encodeGrpcMessageUnchecked.induct)
  case (1 msg)
  then show ?case
    by (cases "DecodeRuneInString msg")
      (auto simp: encodeGrpcMessageUnchecked.simps [of msg] to_valid_utf8.simps [of msg]
        percent_decode_concat)
qed

text \<open>The check in front is an optimisation: it gives the result of the full encoding.\<close>

lemma Unchecked_Cons_allowed:
  assumes "allowed c"
  shows "encodeGrpcMessageUnchecked (c # s) = c # encodeGrpcMessageUnchecked s"
proof -
  have "code c < 128" using assms by (simp add: allowed_code)
  then have "DecodeRuneInString (c # s) = (code c, 1)" "string_of_rune (code c) = [c]"
    by (simp_all add: string_of_rune_def)
  with assms show ?thesis by (subst encodeGrpcMessageUnchecked.simps) simp
qed

lemma Unchecked_allowed: "list_all allowed s \<Longrightarrow> encodeGrpcMessageUnchecked s = s"
  by (induction s) (simp_all add: Unchecked_Cons_allowed encodeGrpcMessageUnchecked.simps [of "[]"])

lemma Encode_eq_Unchecked: "EncodeGrpcMessage msg = encodeGrpcMessageUnchecked msg"
  using Unchecked_allowed [of msg]
  by (auto simp: EncodeGrpcMessage_def encodeGrpcMessageUnchecked.simps [of "[]"]
      list_ex_iff list_all_iff)

text \<open>Only printable ASCII characters are written.\<close>

definition printable :: "char \<Rightarrow> bool" where
  "printable c \<longleftrightarrow> 32 \<le> code c \<and> code c \<le> 126"

lemma percent_byte_printable: "list_all printable (percent_byte b)"
proof -
  have "code b div 16 < 16" "code b mod 16 < 16" by (simp_all add: code_div16)
  then show ?thesis by (auto simp: percent_byte_def hex_digit_def printable_def)
qed

lemma allowed_printable: "allowed c \<Longrightarrow> printable c"
  by (simp add: allowed_code printable_def)

lemma Unchecked_printable: "list_all printable (encodeGrpcMessageUnchecked msg)"
proof (induction msg rule: encodeGrpcMessageUnchecked.induct)
  case (1 msg)
  have pb: "printable x" if "x \<in> set (percent_byte b)" for x b
    using percent_byte_printable [of b] that by (simp add: list_all_iff)
  from 1 show ?case
    by (cases "DecodeRuneInString msg")
      (auto simp: encodeGrpcMessageUnchecked.simps [of msg] list_all_iff pb
        allowed_printable split: if_splits)
qed

section \<open>Properties\<close>

text \<open>
  Claim C32. Decoding an encoded message gives the message back, with each ill-formed byte replaced by the
  Unicode replacement character; the encoding consists of printable ASCII characters only; and
  a message that is valid UTF-8 comes back unchanged.
\<close>

theorem EncodeGrpcMessage_roundtrip:
  "percent_decode (EncodeGrpcMessage msg) = to_valid_utf8 msg \<and>
   list_all printable (EncodeGrpcMessage msg) \<and>
   (if utf8_Valid msg then percent_decode (EncodeGrpcMessage msg) = msg else True)"
  by (simp add: Encode_eq_Unchecked percent_decode_unchecked Unchecked_printable to_valid_utf8_id)

text \<open>
  The scan for characters that need no encoding is only a shortcut: it never changes the result.
\<close>

theorem EncodeGrpcMessage_fast_path: "EncodeGrpcMessage msg = encodeGrpcMessageUnchecked msg"
  by (rule Encode_eq_Unchecked)

end
