(* ===== verification/WsProxy.thy ===== *)
theory WsProxy
  imports HttpWriter GrpcWebSocket GrpcMessage GrpcWebWriter
begin

text \<open>
  \<^verbatim>\<open>client/ws_proxy.go\<close> and \<^verbatim>\<open>client/non_buffering_writer.go\<close>: the client side of
  gRPC over WebSockets. A local HTTP/2 server receives the gRPC client's call, sends the request body
  to the remote server as WebSocket messages, and writes the messages that come back into the response.
\<close>

section \<open>Response writers as interface values\<close>

text \<open>
  The handler gets its response writer as a \<^verbatim>\<open>http.ResponseWriter\<close>, whose methods depend on the
  writer: the one of \<^verbatim>\<open>net/http\<close>, or that one wrapped in a \<^verbatim>\<open>nonBufferingWriter\<close>. The
  wrapper has no state of its own, so that an interface value is a choice of methods on \<open>httpWriter\<close>.
\<close>

record writer_ops =
  op_WriteHeader :: "int \<Rightarrow> httpWriter \<Rightarrow> httpWriter"
  op_Write :: "bytes \<Rightarrow> httpWriter \<Rightarrow> nat \<times> err \<times> httpWriter"

definition plain_ops :: writer_ops where
  "plain_ops = \<lparr>op_WriteHeader = hw_WriteHeader, op_Write = hw_Write\<rparr>"

definition dontFlushHeadersHeaderKey :: string where
  "dontFlushHeadersHeaderKey = ''Grpchttp1-Dont-Flush-Headers''"

definition nb_flush :: "httpWriter \<Rightarrow> httpWriter" where
  [simp]: "nb_flush w = hw_Flush w"

definition nb_WriteHeader :: "int \<Rightarrow> httpWriter \<Rightarrow> httpWriter" where
  "nb_WriteHeader statusCode w =
     (let dontFlushHeaders = (hGet (hw_header w) dontFlushHeadersHeaderKey = ''true'');
          w = w\<lparr>hw_header := hDel dontFlushHeadersHeaderKey (hw_header w)\<rparr>;
          w = hw_WriteHeader statusCode w in
      if dontFlushHeaders then w else nb_flush w)"

definition nb_Write :: "bytes \<Rightarrow> httpWriter \<Rightarrow> nat \<times> err \<times> httpWriter" where
  "nb_Write buf w =
     (if length buf = 0 then (0, None, w)
      else case hw_Write buf w of (n, e, w) \<Rightarrow> (n, e, nb_flush w))"

definition nonBuffering_ops :: writer_ops where
  "nonBuffering_ops = \<lparr>op_WriteHeader = nb_WriteHeader, op_Write = nb_Write\<rparr>"

definition nonBufferingHandler :: "(writer_ops \<Rightarrow> httpWriter \<Rightarrow> 'a) \<Rightarrow> httpWriter \<Rightarrow> 'a" where
  "nonBufferingHandler handler w =
     (if hw_flusher w then handler nonBuffering_ops w else handler plain_ops w)"

section \<open>The connection's incoming side\<close>

text \<open>
  What \<^verbatim>\<open>conn.Read\<close> of the WebSocket library returns, call by call: a message (binary or
  text), a close frame with its status, or another error. After the end of the script the connection is
  lost.
\<close>

datatype close_status = StatusNormalClosure | StatusGoingAway | OtherStatus int

datatype ws_event = Message bool bytes | Closed close_status go_error | Failed go_error

definition conn_Read :: "ws_event list \<Rightarrow> ws_event \<times> ws_event list" where
  "conn_Read evs =
     (case evs of [] \<Rightarrow> (Failed (ErrExt ''connection lost''), []) | ev # evs \<Rightarrow> (ev, evs))"

section \<open>Reading the response\<close>

definition wrong_type :: go_error where
  "wrong_type = ErrNew ''incorrect message type; expected MessageBinary but got MessageText''"

text \<open>
  \<^verbatim>\<open>setHeader\<close> adds the parsed fields to the response's header, as trailers with
  \<^verbatim>\<open>http.TrailerPrefix\<close>.
\<close>

definition add_fields :: "bool \<Rightarrow> header \<Rightarrow> header \<Rightarrow> header" where
  "add_fields isTrailers hdr wHdr =
     fold (\<lambda>(k, vs) h. fold (\<lambda>v h. hAdd (if isTrailers then TrailerPrefix @ k else k) v h) vs h) hdr wHdr"

definition setHeader :: "bytes \<Rightarrow> bool \<Rightarrow> httpWriter \<Rightarrow> err \<times> httpWriter" where
  "setHeader msg isTrailers w =
     (case ReadMIMEHeader EOF (string_of msg @ CRLF) of
        (hdr, Some e, _) \<Rightarrow> (Some e, w)
      | (hdr, None, _) \<Rightarrow> (None, w\<lparr>hw_header := add_fields isTrailers hdr (hw_header w)\<rparr>))"

definition readHeader :: "ws_event list \<Rightarrow> httpWriter \<Rightarrow> err \<times> ws_event list \<times> httpWriter" where
  "readHeader evs w =
     (case conn_Read evs of
        (Closed _ e, evs) \<Rightarrow> (Some e, evs, w)
      | (Failed e, evs) \<Rightarrow> (Some e, evs, w)
      | (Message binary msg, evs) \<Rightarrow>
          if \<not> binary then (Some wrong_type, evs, w)
          else case ValidateGRPCFrame msg of
            Some e \<Rightarrow> (Some e, evs, w)
          | None \<Rightarrow>
              (case IsMetadataFrame msg of
                 Inl e \<Rightarrow> (Some e, evs, w)
               | Inr False \<Rightarrow> (Some (ErrNew ''did not receive metadata message''), evs, w)
               | Inr True \<Rightarrow>
                   (case setHeader (drop MessageHeaderLength msg) False w of (e, w) \<Rightarrow> (e, evs, w))))"

text \<open>The loop of \<^verbatim>\<open>readFromServer\<close>; \<open>dataExpected\<close> is the function's local variable.\<close>

fun read_messages ::
  "writer_ops \<Rightarrow> bool \<Rightarrow> ws_event list \<Rightarrow> httpWriter \<Rightarrow> err \<times> ws_event list \<times> httpWriter" where
  "read_messages ops dataExpected [] w =
     (if dataExpected then (Some (ErrWrap ''reading response body'' (ErrExt ''connection lost'')), [], w)
      else (Some (ErrWrap ''non-EOF error while reading response body'' (ErrExt ''connection lost'')), [], w))"
| "read_messages ops dataExpected (Closed status e # evs) w =
     (if dataExpected then (Some (ErrWrap ''reading response body'' e), evs, w)
      else if status = StatusNormalClosure \<or> status = StatusGoingAway then (None, evs, w)
      else (Some (ErrWrap ''non-EOF error while reading response body'' e), evs, w))"
| "read_messages ops dataExpected (Failed e # evs) w =
     (if dataExpected then (Some (ErrWrap ''reading response body'' e), evs, w)
      else if e = EOF then (None, evs, w)
      else (Some (ErrWrap ''non-EOF error while reading response body'' e), evs, w))"
| "read_messages ops dataExpected (Message binary msg # evs) w =
     (if \<not> dataExpected then (Some (ErrNew ''received message after receiving trailers''), evs, w)
      else if \<not> binary then (Some wrong_type, evs, w)
      else case ValidateGRPCFrame msg of
        Some e \<Rightarrow> (Some e, evs, w)
      | None \<Rightarrow>
          (case IsDataFrame msg of
             Inl e \<Rightarrow> (Some e, evs, w)
           | Inr True \<Rightarrow>
               (case op_Write ops msg w of
                  (_, Some e, w) \<Rightarrow> (Some e, evs, w)
                | (_, None, w) \<Rightarrow> read_messages ops True evs w)
           | Inr False \<Rightarrow>
               (case IsMetadataFrame msg of
                  Inl e \<Rightarrow> (Some e, evs, w)
                | Inr False \<Rightarrow>
                    (Some (ErrNew ''received an invalid message: expected either data or trailers''), evs, w)
                | Inr True \<Rightarrow>
                    (case IsCompressed msg of
                       Inl e \<Rightarrow> (Some e, evs, w)
                     | Inr True \<Rightarrow>
                         (Some (ErrNew ''compression flag is set; compressed metadata is not supported''), evs, w)
                     | Inr False \<Rightarrow>
                         (case setHeader (drop MessageHeaderLength msg) True w of
                            (Some e, w) \<Rightarrow> (Some e, evs, w)
                          | (None, w) \<Rightarrow> read_messages ops False evs w)))))"

text \<open>
  The context that \<^verbatim>\<open>CloseRead\<close> returns in the end is not used; the call only has later frames
  from the server discarded, so it is left out.
\<close>

definition readFromServer ::
  "writer_ops \<Rightarrow> ws_event list \<Rightarrow> httpWriter \<Rightarrow> err \<times> ws_event list \<times> httpWriter" where
  "readFromServer ops evs w =
     (case readHeader evs w of
        (Some e, evs, w) \<Rightarrow> (Some (ErrWrap ''reading response header'' e), evs, w)
      | (None, evs, w) \<Rightarrow>
          if 0 < length (hvalues (hw_header w) ''Grpc-Status'') then (None, evs, w)
          else read_messages ops True evs (op_WriteHeader ops StatusOK w))"

section \<open>Writing the request\<close>

definition writeToServer :: "reader \<Rightarrow> ws_out \<Rightarrow> err \<times> ws_out" where
  "writeToServer body conn =
     (case GrpcWebSocket.Write body conn of
        (Some e, _, conn) \<Rightarrow> (Some e, conn)
      | (None, _, conn) \<Rightarrow> conn_Write EndStreamHeader conn)"

section \<open>A call\<close>

record websocketConn =
  wc_w :: httpWriter
  wc_errFlag :: "32 word"
  wc_err :: err

definition setError :: "go_error \<Rightarrow> websocketConn \<Rightarrow> websocketConn" where
  "setError e c =
     (let old = wc_errFlag c; c = c\<lparr>wc_errFlag := 1\<rparr> in if old = 0 then c\<lparr>wc_err := Some e\<rparr> else c)"

text \<open>\<open>unavailable\<close> is the number of the status code \<^verbatim>\<open>codes.Unavailable\<close> of the gRPC library.\<close>

definition writeErrorIfNecessary :: "nat \<Rightarrow> writer_ops \<Rightarrow> websocketConn \<Rightarrow> websocketConn" where
  "writeErrorIfNecessary unavailable ops c =
     (case wc_err c of
        None \<Rightarrow> c
      | Some e \<Rightarrow>
          if 0 < length (hvalues (hw_header (wc_w c)) ''Grpc-Status'') then c
          else
            let w = op_WriteHeader ops StatusOK (wc_w c);
                h = hSet ''Trailer:Grpc-Status'' (show_nat unavailable) (hw_header w);
                errMsg = Error (ErrWrap ''transport'' e);
                h = hSet ''Trailer:Grpc-Message'' (EncodeGrpcMessage errMsg) h
            in c\<lparr>wc_w := w\<lparr>hw_header := h\<rparr>\<rparr>)"

text \<open>
  The part of \<^verbatim>\<open>ServeHTTP\<close> after the WebSocket was dialled. The request is sent by a goroutine of
  its own; it and the reading of the response share nothing but the error of the call, which the first
  of them to fail sets. \<open>writerFirst\<close> says whether the goroutine's error came first. The theory
  \<open>WsCall\<close> has the steps of both and shows that every interleaving ends like this.
\<close>

definition serve_dialled ::
  "nat \<Rightarrow> bool \<Rightarrow> writer_ops \<Rightarrow> reader \<Rightarrow> ws_out \<Rightarrow> ws_event list \<Rightarrow> httpWriter \<Rightarrow> httpWriter \<times> ws_out" where
  "serve_dialled unavailable writerFirst ops body out evs w =
     (let (we, out) = writeToServer body out;
          (re, _, w) = readFromServer ops evs w;
          c = \<lparr>wc_w = w, wc_errFlag = 0, wc_err = None\<rparr>;
          set = (\<lambda>e c. case e of None \<Rightarrow> c | Some e \<Rightarrow> setError e c);
          c = (if writerFirst then set re (set we c) else set we (set re c));
          c = writeErrorIfNecessary unavailable ops c
      in (wc_w c, out))"

section \<open>Metadata frames\<close>

lemma frame_payload [simp]: "drop MessageHeaderLength (mk_frame flags p) = p"
  by (simp add: mk_frame_def MessageHeaderLength_def)

lemma metadata_flags: "MetadataFlags AND metadataMask \<noteq> 0" "MetadataFlags AND compressionMask = 0"
  by (simp_all add: go_defs)

lemma readHeader_metadata:
  assumes "length ht < 2 ^ 32" and "ReadMIMEHeader EOF (ht @ CRLF) = (hdr, None, r)"
  shows "readHeader (Message True (mk_frame MetadataFlags (bytes_of ht)) # evs) w =
    (None, evs, w\<lparr>hw_header := add_fields False hdr (hw_header w)\<rparr>)"
  using assms metadata_flags by (simp add: readHeader_def conn_Read_def setHeader_def)

lemma read_messages_trailers:
  assumes "length tt < 2 ^ 32" and "ReadMIMEHeader EOF (tt @ CRLF) = (tr, None, r)"
  shows "read_messages ops True (Message True (mk_frame MetadataFlags (bytes_of tt)) # evs) w =
    read_messages ops False evs (w\<lparr>hw_header := add_fields True tr (hw_header w)\<rparr>)"
  using assms metadata_flags by (simp add: setHeader_def)

section \<open>The interface of a response writer\<close>

text \<open>
  What the proxy relies on when it writes a response: on a working connection data is appended in
  order and headers are left alone, but for the marker that only the wrapper knows.
\<close>

locale response_writer =
  fixes ops :: writer_ops
  assumes Write_ok: "hw_healthy w \<Longrightarrow> op_Write ops buf w = (n, e, w') \<Longrightarrow>
      n = length buf \<and> e = None \<and> hw_body w' = hw_body w @ buf \<and> hw_header w' = hw_header w \<and> hw_healthy w'"
    and WriteHeader_ok: "hw_body (op_WriteHeader ops c w) = hw_body w \<and>
      hw_healthy (op_WriteHeader ops c w) = hw_healthy w \<and>
      (k \<noteq> dontFlushHeadersHeaderKey \<longrightarrow> hindex (hw_header (op_WriteHeader ops c w)) k = hindex (hw_header w) k)"
    and Write_keeps_sent: "op_Write ops buf w = (n, e, w') \<Longrightarrow> hw_sent w \<noteq> None \<Longrightarrow> hw_sent w' = hw_sent w"
    and WriteHeader_sends: "hw_sent w = None \<Longrightarrow>
      hw_sent (op_WriteHeader ops c w) = Some (c, hw_header (op_WriteHeader ops c w))"
begin

lemma read_data_frame:
  assumes "hw_healthy w" and "flags AND metadataMask = 0" and "length p < 2 ^ 32"
  obtains w' where "read_messages ops True (Message True (mk_frame flags p) # evs) w = read_messages ops True evs w'"
    and "hw_body w' = hw_body w @ mk_frame flags p" and "hw_header w' = hw_header w" and "hw_healthy w'"
proof -
  obtain n e w' where w': "op_Write ops (mk_frame flags p) w = (n, e, w')"
    by (cases "op_Write ops (mk_frame flags p) w") auto
  from Write_ok [OF assms(1) w'] assms(2,3) w' show ?thesis by (intro that [of w']) simp_all
qed

lemma read_data_frames:
  assumes "hw_healthy w" and "list_all (\<lambda>(flags, p). flags AND metadataMask = 0 \<and> length p < 2 ^ 32) fs"
  obtains w' where "read_messages ops True (map (Message True) (frame_list fs) @ evs) w = read_messages ops True evs w'"
    and "hw_body w' = hw_body w @ frames_bytes fs" and "hw_header w' = hw_header w" and "hw_healthy w'"
  using assms
proof (induction fs arbitrary: w thesis)
  case (Cons f fs)
  obtain flags p where f: "f = (flags, p)" by (cases f)
  have fp: "flags AND metadataMask = 0" "length p < 2 ^ 32" using Cons.prems(3) f by simp_all
  obtain w1 where w1: "read_messages ops True (map (Message True) (frame_list (f # fs)) @ evs) w =
      read_messages ops True (map (Message True) (frame_list fs) @ evs) w1"
    "hw_body w1 = hw_body w @ mk_frame flags p" "hw_header w1 = hw_header w" "hw_healthy w1"
    using read_data_frame [OF Cons.prems(2) fp, of "map (Message True) (frame_list fs) @ evs"] f by auto
  obtain w2 where w2: "read_messages ops True (map (Message True) (frame_list fs) @ evs) w1 = read_messages ops True evs w2"
    "hw_body w2 = hw_body w1 @ frames_bytes fs" "hw_header w2 = hw_header w1" "hw_healthy w2"
    by (rule Cons.IH [OF _ w1(4)]) (use Cons.prems(3) in simp_all)
  show ?case by (rule Cons.prems(1) [of w2]) (use f w1 w2 in simp_all)
qed simp

text \<open>A whole response: headers, messages, trailers, and the server's close frame.\<close>

lemma read_response_stream:
  assumes "hw_healthy w" and "list_all (\<lambda>(flags, p). flags AND metadataMask = 0 \<and> length p < 2 ^ 32) fs"
    and "length ht < 2 ^ 32" and "ReadMIMEHeader EOF (ht @ CRLF) = (hdr, None, [])"
    and "length tt < 2 ^ 32" and "ReadMIMEHeader EOF (tt @ CRLF) = (tr, None, [])"
    and "hvalues (add_fields False hdr (hw_header w)) ''Grpc-Status'' = []"
    and "status = StatusNormalClosure \<or> status = StatusGoingAway"
  obtains w1 w' where "w1 = op_WriteHeader ops StatusOK (w\<lparr>hw_header := add_fields False hdr (hw_header w)\<rparr>)"
    and "readFromServer ops (Message True (mk_frame MetadataFlags (bytes_of ht)) #
        map (Message True) (frame_list fs) @
        Message True (mk_frame MetadataFlags (bytes_of tt)) # Closed status e # evs) w = (None, evs, w')"
    and "hw_body w' = hw_body w @ frames_bytes fs"
    and "hw_header w' = add_fields True tr (hw_header w1)"
proof -
  let ?w0 = "w\<lparr>hw_header := add_fields False hdr (hw_header w)\<rparr>"
  let ?w1 = "op_WriteHeader ops StatusOK ?w0"
  let ?tail = "Message True (mk_frame MetadataFlags (bytes_of tt)) # Closed status e # evs"
  have "hw_healthy ?w1" "hw_body ?w1 = hw_body w"
    using WriteHeader_ok [of StatusOK ?w0] assms(1) by (simp_all add: hw_healthy_def)
  moreover obtain w2 where w2: "read_messages ops True (map (Message True) (frame_list fs) @ ?tail) ?w1 =
      read_messages ops True ?tail w2"
    "hw_body w2 = hw_body ?w1 @ frames_bytes fs" "hw_header w2 = hw_header ?w1"
    by (rule read_data_frames [OF \<open>hw_healthy ?w1\<close> assms(2)])
  moreover note readHeader_metadata [OF assms(3,4)]
  moreover have "read_messages ops True ?tail w2 = (None, evs, w2\<lparr>hw_header := add_fields True tr (hw_header w2)\<rparr>)"
    unfolding read_messages_trailers [OF assms(5,6)] using assms(8) by auto
  ultimately show ?thesis
    using assms(7) by (intro that [OF refl, of "w2\<lparr>hw_header := add_fields True tr (hw_header w2)\<rparr>"])
      (simp_all add: readFromServer_def)
qed

end

interpretation plain: response_writer plain_ops
proof (standard, goal_cases)
  case (1 w buf n e w')
  from hw_Write_healthy [OF 1(1), of buf n e w'] 1(2) show ?case by (simp add: plain_ops_def)
next
  case (2 c w k)
  show ?case by (simp add: plain_ops_def)
next
  case (3 buf w n e w')
  then show ?case using hw_Write_sent(1) [of buf w n e w'] by (simp add: plain_ops_def hw_WriteHeader_def)
next
  case (4 w c)
  then show ?case by (simp add: plain_ops_def hw_WriteHeader_def)
qed

lemma nb_key: "CanonicalHeaderKey dontFlushHeadersHeaderKey = dontFlushHeadersHeaderKey"
  by code_simp

interpretation nonBuffering: response_writer nonBuffering_ops
proof (standard, goal_cases)
  case (1 w buf n e w')
  obtain n1 e1 w1 where r: "hw_Write buf w = (n1, e1, w1)" by (cases "hw_Write buf w") auto
  from hw_Write_healthy [OF 1(1) r] 1 r show ?case
    by (auto simp: nonBuffering_ops_def nb_Write_def split: if_splits)
next
  case (2 c w k)
  have "hw_healthy (w\<lparr>hw_header := h\<rparr>) = hw_healthy w" for h by (simp add: hw_healthy_def)
  then show ?case by (simp add: nonBuffering_ops_def nb_WriteHeader_def Let_def hDel_def nb_key)
next
  case (3 buf w n e w')
  obtain n1 e1 w1 where r: "hw_Write buf w = (n1, e1, w1)" by (cases "hw_Write buf w") auto
  from hw_Write_sent(1) [OF r] 3 r show ?case
    by (auto simp: nonBuffering_ops_def nb_Write_def hw_WriteHeader_def hw_Flush_def split: if_splits)
next
  case (4 w c)
  then show ?case by (auto simp: nonBuffering_ops_def nb_WriteHeader_def Let_def hw_WriteHeader_def hw_Flush_def)
qed

section \<open>Header fields\<close>

lemma CanonicalHeaderKey_trailer [simp]: "CanonicalHeaderKey (TrailerPrefix @ k) = TrailerPrefix @ k"
  by (simp add: CanonicalHeaderKey_def TrailerPrefix_def token_byte_def is_lower_def is_upper_def is_digit_def)

lemma hvalues_hAdd_all:
  "hvalues (fold (hAdd k) vs h) name =
     hvalues h name @ (if name = CanonicalHeaderKey k then vs else [])"
  by (induction vs arbitrary: h) (auto simp: hAdd_def Let_def)

lemma hvalues_add_fields_trailers:
  assumes "header_ok tr"
  shows "hvalues (add_fields True tr h) (TrailerPrefix @ name) = hvalues h (TrailerPrefix @ name) @ hvalues tr name"
    and "\<not> HasPrefix n TrailerPrefix \<Longrightarrow> hvalues (add_fields True tr h) n = hvalues h n"
proof -
  have step: "add_fields True ((k, vs) # tr) h = add_fields True tr (fold (hAdd (TrailerPrefix @ k)) vs h)" for k vs tr h
    by (simp add: add_fields_def)
  show "hvalues (add_fields True tr h) (TrailerPrefix @ name) = hvalues h (TrailerPrefix @ name) @ hvalues tr name"
    using assms
  proof (induction tr arbitrary: h)
    case (Cons kv tr)
    obtain k vs where kv: "kv = (k, vs)" by (cases kv)
    from Cons.prems kv have "k \<notin> fst ` set tr" "header_ok tr" by (simp_all add: header_ok_def)
    with Cons.IH kv show ?case
      by (auto simp: step hvalues_hAdd_all hvalues_Cons hvalues_notin)
  qed (simp add: add_fields_def hvalues_def)
  show "hvalues (add_fields True tr h) n = hvalues h n" if n: "\<not> HasPrefix n TrailerPrefix"
  proof (induction tr arbitrary: h)
    case (Cons kv tr)
    obtain k vs where kv: "kv = (k, vs)" by (cases kv)
    have "n \<noteq> TrailerPrefix @ k" using n by auto
    with Cons kv show ?case by (simp add: step hvalues_hAdd_all)
  qed (simp add: add_fields_def)
qed

lemma hvalues_add_fields_headers:
  assumes "canonical_header hdr"
  shows "hvalues (add_fields False hdr h) name = hvalues h name @ hvalues hdr name"
  using assms
proof (induction hdr arbitrary: h)
  case (Cons kv hdr)
  obtain k vs where kv: "kv = (k, vs)" by (cases kv)
  from Cons.prems kv have "k \<notin> fst ` set hdr" "canonical_header hdr" "CanonicalHeaderKey k = k"
    by (auto simp: canonical_header_def header_ok_def)
  with Cons.IH kv show ?case
    by (auto simp: add_fields_def hvalues_hAdd_all hvalues_Cons hvalues_notin)
qed (simp add: add_fields_def hvalues_def)

end
