(* ===== verification/Transition.thy ===== *)
theory Transition
  imports Main
begin

text \<open>
  Labelled step relations for the parts of the program that run concurrently: runs, and the interface
  through which a component's invariant is shown to hold in all its reachable states.
\<close>

inductive run :: "('s \<Rightarrow> 'l \<Rightarrow> 's \<Rightarrow> bool) \<Rightarrow> 's \<Rightarrow> 'l list \<Rightarrow> 's \<Rightarrow> bool" for step where
  run_Nil: "run step s [] s"
| run_snoc: "run step s ls s' \<Longrightarrow> step s' l s'' \<Longrightarrow> run step s (ls @ [l]) s''"

inductive_cases run_NilE: "run step s [] s'"

lemma run_single: "step s l s' \<Longrightarrow> run step s [l] s'"
  using run_snoc [OF run_Nil, of step s l s'] by simp

lemma run_append: "run step s' ls' s'' \<Longrightarrow> run step s ls s' \<Longrightarrow> run step s (ls @ ls') s''"
proof (induction rule: run.induct)
  case (run_snoc s0 ls0 s1 l s2)
  then show ?case using run.run_snoc [of step s "ls @ ls0" s1 l s2] by simp
qed simp

lemma run_Cons: "step s l s' \<Longrightarrow> run step s' ls s'' \<Longrightarrow> run step s (l # ls) s''"
  using run_append [of step s' ls s'' s "[l]"] run_single [of step s l s'] by simp

text \<open>A run of at most \<open>n\<close> steps to a state that satisfies \<open>P\<close>.\<close>

definition within :: "nat \<Rightarrow> ('s \<Rightarrow> 'l \<Rightarrow> 's \<Rightarrow> bool) \<Rightarrow> 's \<Rightarrow> ('s \<Rightarrow> bool) \<Rightarrow> bool" where
  "within n step s P \<longleftrightarrow> (\<exists>ls s'. run step s ls s' \<and> length ls \<le> n \<and> P s')"

lemma within_here: "P s \<Longrightarrow> within n step s P"
  unfolding within_def using run_Nil by fastforce

lemma within_step:
  assumes "step s l s'" and "within n step s' P"
  shows "within (Suc n) step s P"
proof -
  obtain ls s'' where "run step s' ls s''" "length ls \<le> n" "P s''" using assms(2) unfolding within_def by blast
  with run_Cons [of step, OF assms(1)] show ?thesis
    unfolding within_def by (intro exI [of _ "l # ls"] exI [of _ s'']) simp
qed

lemma within_mono: "within m step s P \<Longrightarrow> m \<le> n \<Longrightarrow> within n step s P"
  unfolding within_def by (meson le_trans)

lemma within_trans:
  assumes "within n step s P" and "\<And>ls s'. run step s ls s' \<Longrightarrow> P s' \<Longrightarrow> within m step s' Q"
  shows "within (n + m) step s Q"
proof -
  obtain ls s' where 1: "run step s ls s'" "length ls \<le> n" "P s'" using assms(1) unfolding within_def by blast
  obtain ls' s'' where 2: "run step s' ls' s''" "length ls' \<le> m" "Q s''"
    using assms(2) [OF 1(1,3)] unfolding within_def by blast
  have "run step s (ls @ ls') s''" by (rule run_append [OF 2(1) 1(1)])
  with 1(2) 2(2,3) show ?thesis
    unfolding within_def by (intro exI [of _ "ls @ ls'"] exI [of _ s'']) simp
qed

lemma within_one: "step s l s' \<Longrightarrow> P s' \<Longrightarrow> within 1 step s P"
  using within_step [of step s l s' 0 P] within_here [of P s' 0 step] by simp

locale invariant =
  fixes init :: "'s \<Rightarrow> bool" and step :: "'s \<Rightarrow> 'l \<Rightarrow> 's \<Rightarrow> bool" and inv :: "'s \<Rightarrow> bool"
  assumes inv_init: "init s \<Longrightarrow> inv s"
    and inv_step: "inv s \<Longrightarrow> step s l s' \<Longrightarrow> inv s'"
begin

lemma inv_run: "run step s ls s' \<Longrightarrow> inv s \<Longrightarrow> inv s'"
  by (induction rule: run.induct) (auto intro: inv_step)

lemma reachable_inv: "init s \<Longrightarrow> run step s ls s' \<Longrightarrow> inv s'"
  using inv_run inv_init by blast

end

text \<open>A state in which nothing can happen any more.\<close>

definition halted :: "('s \<Rightarrow> 'l \<Rightarrow> 's \<Rightarrow> bool) \<Rightarrow> 's \<Rightarrow> bool" where
  "halted step s \<longleftrightarrow> (\<forall>l s'. \<not> step s l s')"

text \<open>
  A system each of whose steps uses up some of a potential: its runs are bounded, and every run can be
  continued until nothing can happen any more.
\<close>

locale terminating = invariant init step inv
  for init :: "'s \<Rightarrow> bool" and step :: "'s \<Rightarrow> 'l \<Rightarrow> 's \<Rightarrow> bool" and inv :: "'s \<Rightarrow> bool" +
  fixes potential :: "'s \<Rightarrow> nat"
  assumes potential_step: "inv s \<Longrightarrow> step s l s' \<Longrightarrow> potential s' < potential s"
begin

lemma run_bounded: "run step s ls s' \<Longrightarrow> inv s \<Longrightarrow> length ls + potential s' \<le> potential s"
proof (induction rule: run.induct)
  case (run_snoc s ls s' l s'')
  then have "potential s'' < potential s'" using potential_step inv_run by blast
  with run_snoc show ?case by simp
qed simp

lemma run_to_halt: "inv s \<Longrightarrow> \<exists>ls s'. run step s ls s' \<and> halted step s'"
proof (induction "potential s" arbitrary: s rule: less_induct)
  case less
  show ?case
  proof (cases "halted step s")
    case True
    then show ?thesis using run_Nil [of step s] by blast
  next
    case False
    then obtain l s' where l: "step s l s'" unfolding halted_def by blast
    with less potential_step inv_step obtain ls s'' where "run step s' ls s''" "halted step s''" by blast
    with run_Cons [of step, OF l] show ?thesis by blast
  qed
qed

end

text \<open>
  A system that delivers a stream: \<open>todo s\<close> is what is still to come in state \<open>s\<close>, and every step takes
  its output off the front. Something may be lost only in a system that has been aborted.
\<close>

locale streaming = invariant init step inv
  for init :: "'s \<Rightarrow> bool" and step :: "'s \<Rightarrow> 'l \<Rightarrow> 's \<Rightarrow> bool" and inv :: "'s \<Rightarrow> bool" +
  fixes out :: "'l \<Rightarrow> 'b list" and todo :: "'s \<Rightarrow> 'b list" and aborted :: "'s \<Rightarrow> bool"
  assumes todo_step: "inv s \<Longrightarrow> step s l s' \<Longrightarrow>
      \<exists>lost. todo s = out l @ todo s' @ lost \<and> (lost \<noteq> [] \<longrightarrow> aborted s')"
    and aborted_step: "aborted s \<Longrightarrow> step s l s' \<Longrightarrow> aborted s'"
begin

lemma run_todo:
  "run step s ls s' \<Longrightarrow> inv s \<Longrightarrow>
     \<exists>lost. todo s = concat (map out ls) @ todo s' @ lost \<and> (lost \<noteq> [] \<longrightarrow> aborted s')"
proof (induction rule: run.induct)
  case (run_snoc s ls s' l s'')
  then obtain lost where 1: "todo s = concat (map out ls) @ todo s' @ lost" "lost \<noteq> [] \<longrightarrow> aborted s'" by blast
  from run_snoc have "inv s'" using inv_run by blast
  with run_snoc.hyps todo_step obtain lost' where
    2: "todo s' = out l @ todo s'' @ lost'" "lost' \<noteq> [] \<longrightarrow> aborted s''" by blast
  with 1 aborted_step run_snoc.hyps(2) show ?case by (intro exI [of _ "lost' @ lost"]) auto
qed simp

end

end
