(* ===== verification/WsReader.thy ===== *)
theory WsReader
  imports Transition GrpcWebSocket
begin

text \<open>
  \<^verbatim>\<open>server/websocket_reader.go\<close>: the request body of a call that came over a WebSocket. A
  goroutine (\<^verbatim>\<open>readerLoop\<close>) gets a reader for the next message from the connection and hands it
  to \<^verbatim>\<open>Read\<close> over a channel; a second channel of capacity one, the barrier, makes the two take
  turns, because the connection allows one reader at a time.

  The state of the object and of the goroutine is the record \<open>wsReader\<close>; the calls of
  \<^verbatim>\<open>Read\<close>, the goroutine and the cancellation of the context interleave as steps.
\<close>

section \<open>State\<close>

text \<open>
  What the connection's \<^verbatim>\<open>Reader\<close> method returns, call by call: a message, binary or text, with
  the data its reader will deliver and the error after it (\<open>None\<close> for \<^verbatim>\<open>io.EOF\<close>), or an error.
\<close>

datatype ws_arrival = Arrives bool bytes err | ReaderFails go_error

datatype readerResult = ReaderOf bytes err | ResultErr go_error

text \<open>Where the goroutine stands, and where the current call of \<^verbatim>\<open>Read\<close> stands.\<close>

datatype loop_state = AtBarrier | Fetching | Offering readerResult | Stopped

datatype read_phase = Idle | Waiting nat | Consuming nat readerResult

record wsReader =
  wr_conn :: "ws_arrival list"
  wr_currMsg :: bytes
  wr_cancelled :: bool
  wr_barrier :: nat
  wr_loop :: loop_state
  wr_phase :: read_phase
  wr_err :: err

definition newWebSocketReader :: "ws_arrival list \<Rightarrow> wsReader" where
  "newWebSocketReader conn =
     \<lparr>wr_conn = conn, wr_currMsg = [], wr_cancelled = False, wr_barrier = 1, wr_loop = AtBarrier,
      wr_phase = Idle, wr_err = None\<rparr>"

section \<open>The goroutine\<close>

definition fetch :: "ws_arrival \<Rightarrow> readerResult" where
  "fetch a =
     (case a of
        Arrives binary d e \<Rightarrow>
          if \<not> binary
          then ResultErr (ErrNew ''incorrect message type; expected MessageBinary but got MessageText'')
          else ReaderOf d e
      | ReaderFails e \<Rightarrow> ResultErr e)"

definition conn_lost :: ws_arrival where
  "conn_lost = ReaderFails (ErrExt ''connection lost'')"

definition conn_Reader :: "wsReader \<Rightarrow> ws_arrival \<times> wsReader" where
  "conn_Reader r =
     (case wr_conn r of [] \<Rightarrow> (conn_lost, r) | a # as \<Rightarrow> (a, r\<lparr>wr_conn := as\<rparr>))"

section \<open>Read\<close>

text \<open>
  The messages \<^verbatim>\<open>doRead\<close> accepts: it returns the error that the message causes, if any.
\<close>

definition check_message :: "bytes \<Rightarrow> err" where
  "check_message msg =
     (case ValidateGRPCFrame msg of
        Some e \<Rightarrow> Some e
      | None \<Rightarrow>
          if IsEndOfStream msg then Some EOF
          else case IsDataFrame msg of
            Inl e \<Rightarrow> Some e
          | Inr False \<Rightarrow> Some (ErrNew ''message is not a gRPC data frame'')
          | Inr True \<Rightarrow> None)"

text \<open>The end of \<^verbatim>\<open>doRead\<close>: copy from the current message into a buffer of \<open>c\<close> bytes.\<close>

definition copy_out :: "nat \<Rightarrow> wsReader \<Rightarrow> bytes \<times> wsReader" where
  "copy_out c r = (take c (wr_currMsg r), r\<lparr>wr_currMsg := drop c (wr_currMsg r)\<rparr>)"

text \<open>\<^verbatim>\<open>doRead\<close> after it received a result; the token goes back into the barrier.\<close>

definition doRead_result :: "nat \<Rightarrow> readerResult \<Rightarrow> wsReader \<Rightarrow> bytes \<times> err \<times> wsReader" where
  "doRead_result c rr r =
     (case rr of
        ResultErr e \<Rightarrow> ([], Some e, r)
      | ReaderOf _ (Some e) \<Rightarrow> ([], Some e, r)
      | ReaderOf msg None \<Rightarrow>
          let r = r\<lparr>wr_barrier := wr_barrier r + 1\<rparr> in
          (case check_message msg of
             Some e \<Rightarrow> ([], Some e, r)
           | None \<Rightarrow>
               (case copy_out c (r\<lparr>wr_currMsg := msg\<rparr>) of (d, r) \<Rightarrow> (d, None, r))))"

text \<open>\<^verbatim>\<open>Read\<close> keeps the error that \<^verbatim>\<open>doRead\<close> returned.\<close>

definition finish_read :: "bytes \<times> err \<times> wsReader \<Rightarrow> wsReader" where
  "finish_read res = (case res of (d, e, r) \<Rightarrow> r\<lparr>wr_err := e, wr_phase := Idle\<rparr>)"

definition barrier_capacity :: nat where "barrier_capacity = 1"

section \<open>Steps\<close>

text \<open>
  \<open>Ret d e\<close>: a call of \<^verbatim>\<open>Read\<close> returns \<open>d\<close> and \<open>e\<close>; \<open>Internal\<close>: anything else. The
  context is one that \<^verbatim>\<open>Close\<close> cancels, so that its error is \<^verbatim>\<open>context canceled\<close>.
\<close>

datatype ws_label = Internal | Ret bytes err

inductive wsr_step :: "wsReader \<Rightarrow> ws_label \<Rightarrow> wsReader \<Rightarrow> bool" where
  loop_pass: "wr_loop r = AtBarrier \<Longrightarrow> wr_barrier r = Suc n \<Longrightarrow>
    wsr_step r Internal (r\<lparr>wr_barrier := n, wr_loop := Fetching\<rparr>)"
| loop_fetch: "wr_loop r = Fetching \<Longrightarrow> conn_Reader r = (a, r') \<Longrightarrow>
    wsr_step r Internal (r'\<lparr>wr_loop := Offering (fetch a)\<rparr>)"
| loop_stop: "wr_cancelled r \<Longrightarrow> wr_loop r = AtBarrier \<or> wr_loop r = Offering rr \<Longrightarrow>
    wsr_step r Internal (r\<lparr>wr_loop := Stopped\<rparr>)"
| read_sticky: "wr_phase r = Idle \<Longrightarrow> wr_err r = Some e \<Longrightarrow> wsr_step r (Ret [] (Some e)) r"
| read_copy: "wr_phase r = Idle \<Longrightarrow> wr_err r = None \<Longrightarrow> wr_currMsg r \<noteq> [] \<Longrightarrow>
    copy_out c r = (d, r') \<Longrightarrow> wsr_step r (Ret d None) r'"
| read_wait: "wr_phase r = Idle \<Longrightarrow> wr_err r = None \<Longrightarrow> wr_currMsg r = [] \<Longrightarrow>
    wsr_step r Internal (r\<lparr>wr_phase := Waiting c\<rparr>)"
| read_cancelled: "wr_phase r = Waiting c \<Longrightarrow> wr_cancelled r \<Longrightarrow>
    e = ErrWrap ''reading websocket message'' (ErrExt ''context canceled'') \<Longrightarrow>
    wsr_step r (Ret [] (Some e)) (finish_read ([], Some e, r))"
| read_receive: "wr_phase r = Waiting c \<Longrightarrow> wr_loop r = Offering rr \<Longrightarrow>
    wsr_step r Internal (r\<lparr>wr_phase := Consuming c rr, wr_loop := AtBarrier\<rparr>)"
| read_return: "wr_phase r = Consuming c rr \<Longrightarrow> doRead_result c rr r = (d, e, r') \<Longrightarrow>
    wr_barrier r' \<le> barrier_capacity \<Longrightarrow> wsr_step r (Ret d e) (finish_read (d, e, r'))"
| close: "wsr_step r Internal (r\<lparr>wr_cancelled := True\<rparr>)"

section \<open>One reader at a time\<close>

text \<open>
  The token of the barrier: it is in the channel, or the goroutine has it while it gets a reader and offers it, or
  \<^verbatim>\<open>Read\<close> has it while it reads the message.
\<close>

definition tokens :: "wsReader \<Rightarrow> nat" where
  "tokens r =
     wr_barrier r +
     (case wr_loop r of Fetching \<Rightarrow> 1 | Offering _ \<Rightarrow> 1 | _ \<Rightarrow> 0) +
     (case wr_phase r of Consuming _ _ \<Rightarrow> 1 | _ \<Rightarrow> 0)"

definition wsr_inv :: "wsReader \<Rightarrow> bool" where
  "wsr_inv r \<longleftrightarrow>
     tokens r \<le> 1 \<and> (\<not> wr_cancelled r \<and> wr_err r = None \<longrightarrow> tokens r = 1) \<and>
     (wr_loop r = Stopped \<longrightarrow> wr_cancelled r) \<and>
     (wr_phase r \<noteq> Idle \<longrightarrow> wr_err r = None \<and> wr_currMsg r = [])"

inductive_simps wsr_step_simps: "wsr_step r l r'"

lemma conn_Reader_simps:
  "conn_Reader r = (a, r') \<Longrightarrow> r' = r\<lparr>wr_conn := wr_conn r'\<rparr>"
  by (auto simp: conn_Reader_def split: list.splits)

lemma doRead_result_cases:
  assumes "doRead_result c rr r = (d, e, r')"
  obtains (failed) x where "d = []" "e = Some x" "r' = r" "rr = ResultErr x \<or> (\<exists>m. rr = ReaderOf m (Some x))"
    | (rejected) x m where "d = []" "e = Some x" "r' = r\<lparr>wr_barrier := wr_barrier r + 1\<rparr>" "rr = ReaderOf m None"
        "check_message m = Some x"
    | (accepted) m where "d = take c m" "e = None"
        "r' = r\<lparr>wr_barrier := wr_barrier r + 1, wr_currMsg := drop c m\<rparr>" "rr = ReaderOf m None" "check_message m = None"
  using assms that
  by (auto simp: doRead_result_def copy_out_def Let_def split: readerResult.splits option.splits
      dest!: sym [of "Some _"])

lemma wsr_inv_return:
  assumes "wsr_inv r" and "wr_phase r = Consuming c rr" and "doRead_result c rr r = (d, e, r')"
  shows "wsr_inv (finish_read (d, e, r'))"
  using assms(3)
  by (cases rule: doRead_result_cases)
    (use assms(1,2) in \<open>auto simp: wsr_inv_def tokens_def finish_read_def split: loop_state.splits\<close>)

lemma wsr_inv_step:
  assumes "wsr_inv r" and "wsr_step r l r'"
  shows "wsr_inv r'"
  using assms(2,1)
proof cases
  case (loop_fetch a r1)
  with conn_Reader_simps [OF loop_fetch(4)] assms(1) show ?thesis
    by (cases r1) (auto simp: wsr_inv_def tokens_def split: read_phase.splits)
next
  case (read_return c rr d e r1)
  with wsr_inv_return assms(1) show ?thesis by blast
qed (use assms(1) in \<open>auto simp: wsr_inv_def tokens_def copy_out_def finish_read_def
    split: loop_state.splits read_phase.splits\<close>)

lemma wsr_inv_new: "wsr_inv (newWebSocketReader conn)"
  by (simp add: wsr_inv_def tokens_def newWebSocketReader_def)

interpretation wsr: invariant "\<lambda>r. r = newWebSocketReader conn" wsr_step wsr_inv
  by standard (auto simp: wsr_inv_new intro: wsr_inv_step)

section \<open>The stream that the reader delivers\<close>

text \<open>
  The specification: the messages one after the other up to the first that is not accepted, and the
  error that this one gives.
\<close>

fun ws_stream :: "readerResult list \<Rightarrow> bytes \<times> go_error" where
  "ws_stream [] = ([], ErrExt ''connection lost'')"
| "ws_stream (ResultErr e # rs) = ([], e)"
| "ws_stream (ReaderOf m (Some e) # rs) = ([], e)"
| "ws_stream (ReaderOf m None # rs) =
     (case check_message m of
        Some e \<Rightarrow> ([], e)
      | None \<Rightarrow> (m @ fst (ws_stream rs), snd (ws_stream rs)))"

text \<open>The results still on their way to \<^verbatim>\<open>Read\<close>, and what it will deliver.\<close>

definition upstream :: "wsReader \<Rightarrow> readerResult list" where
  "upstream r =
     (case wr_loop r of Offering rr \<Rightarrow> rr # map fetch (wr_conn r) | Stopped \<Rightarrow> [] | _ \<Rightarrow> map fetch (wr_conn r))"

definition wsr_results :: "wsReader \<Rightarrow> readerResult list" where
  "wsr_results r = (case wr_phase r of Consuming _ rr \<Rightarrow> [rr] | _ \<Rightarrow> []) @ upstream r"

lemma upstream_simps [simp]:
  "upstream (r\<lparr>wr_barrier := b\<rparr>) = upstream r" "upstream (r\<lparr>wr_currMsg := m\<rparr>) = upstream r"
  "upstream (r\<lparr>wr_cancelled := c\<rparr>) = upstream r" "upstream (r\<lparr>wr_phase := ph\<rparr>) = upstream r"
  "upstream (r\<lparr>wr_err := e\<rparr>) = upstream r"
  by (simp_all add: upstream_def split: loop_state.split)

definition wsr_abs :: "wsReader \<Rightarrow> bytes \<times> go_error" where
  "wsr_abs r =
     (case wr_err r of
        Some e \<Rightarrow> ([], e)
      | None \<Rightarrow> (wr_currMsg r @ fst (ws_stream (wsr_results r)), snd (ws_stream (wsr_results r))))"

fun returned :: "ws_label \<Rightarrow> bytes" where
  "returned Internal = []"
| "returned (Ret d e) = d"

lemma ws_stream_prefix: "\<exists>lost. fst (ws_stream (xs @ ys)) = fst (ws_stream xs) @ lost"
  by (induction xs rule: ws_stream.induct) (auto split: option.splits)

lemma wsr_abs_fetch:
  assumes "conn_Reader r = (a, r')" and "wr_loop r = Fetching"
  shows "wsr_abs (r'\<lparr>wr_loop := Offering (fetch a)\<rparr>) = wsr_abs r"
proof (cases "wr_conn r")
  case Nil
  have "ws_stream (xs @ [ResultErr (ErrExt ''connection lost'')]) = ws_stream xs" for xs
    by (induction xs rule: ws_stream.induct) (auto split: option.splits)
  with Nil assms show ?thesis
    by (auto simp: wsr_abs_def wsr_results_def upstream_def conn_Reader_def fetch_def conn_lost_def split: option.splits)
qed (use assms in \<open>auto simp: wsr_abs_def wsr_results_def upstream_def conn_Reader_def split: option.splits\<close>)

text \<open>What a returned result does to the abstract stream.\<close>

lemma wsr_abs_return:
  assumes "wsr_inv r" and "wr_phase r = Consuming c rr" and "doRead_result c rr r = (d, e, r')"
  shows "(case e of None \<Rightarrow> wsr_abs r = (d @ fst (wsr_abs (finish_read (d, e, r'))), snd (wsr_abs (finish_read (d, e, r'))))
    | Some x \<Rightarrow> d = [] \<and> wsr_abs r = ([], x) \<and> wsr_abs (finish_read (d, e, r')) = ([], x))"
  using assms(3)
proof (cases rule: doRead_result_cases)
  case (failed x)
  with assms(1,2) show ?thesis
    by (auto simp: wsr_abs_def wsr_results_def finish_read_def wsr_inv_def)
next
  case (rejected x m)
  with assms(1,2) show ?thesis
    by (auto simp: wsr_abs_def wsr_results_def finish_read_def wsr_inv_def)
next
  case (accepted m)
  with assms(1,2) show ?thesis
    by (auto simp: wsr_abs_def wsr_results_def finish_read_def wsr_inv_def)
qed

lemma wsr_abs_step:
  assumes "wsr_inv r" and "wsr_step r l r'"
  obtains (kept) "fst (wsr_abs r) = returned l @ fst (wsr_abs r')" "snd (wsr_abs r) = snd (wsr_abs r')"
      "\<And>d e. l = Ret d (Some e) \<Longrightarrow> wsr_abs r' = ([], e)"
    | (cut) lost where "wr_cancelled r'" "returned l = []" "fst (wsr_abs r) = fst (wsr_abs r') @ lost"
  using assms(2)
proof cases
  case (loop_fetch a r1)
  with wsr_abs_fetch [OF loop_fetch(4,3)] show ?thesis by (intro kept) simp_all
next
  case (read_return c rr d' e' r1)
  with wsr_abs_return [OF assms(1) read_return(3,4)] show ?thesis
    by (intro kept) (auto split: option.splits)
next
  case (read_copy c d')
  then show ?thesis
    by (intro kept) (auto simp: wsr_abs_def wsr_results_def copy_out_def)
next
  case (loop_pass n)
  then show ?thesis by (intro kept) (auto simp: wsr_abs_def wsr_results_def upstream_def split: option.splits)
next
  case (loop_stop rr)
  let ?xs = "case wr_phase r of Consuming _ rr \<Rightarrow> [rr] | _ \<Rightarrow> []"
  have "wsr_results r' = ?xs" using loop_stop by (simp add: wsr_results_def upstream_def)
  moreover obtain ys where "wsr_results r = ?xs @ ys" by (simp add: wsr_results_def)
  ultimately obtain lost where "fst (wsr_abs r) = fst (wsr_abs r') @ lost"
    using ws_stream_prefix [of ?xs ys] loop_stop by (cases "wr_err r") (auto simp: wsr_abs_def)
  with loop_stop show ?thesis by (intro cut [of lost]) simp_all
next
  case (read_cancelled c e)
  then show ?thesis by (intro cut [of "fst (wsr_abs r)"]) (auto simp: wsr_abs_def finish_read_def)
next
  case close
  then show ?thesis by (intro kept) (auto simp: wsr_abs_def wsr_results_def split: option.splits)
next
  case (read_sticky e)
  then show ?thesis by (intro kept) (auto simp: wsr_abs_def)
next
  case (read_wait c)
  then show ?thesis by (intro kept) (auto simp: wsr_abs_def wsr_results_def)
next
  case (read_receive c rr)
  with assms(1) show ?thesis by (intro kept) (auto simp: wsr_abs_def wsr_results_def upstream_def wsr_inv_def)
qed

lemma wsr_cancelled_step: "wr_cancelled r \<Longrightarrow> wsr_step r l r' \<Longrightarrow> wr_cancelled r'"
  by (erule wsr_step.cases)
    (auto simp: conn_Reader_def copy_out_def finish_read_def split: list.splits elim!: doRead_result_cases)

interpretation wsr_stream: streaming "\<lambda>r. r = newWebSocketReader conn" wsr_step wsr_inv
  returned "\<lambda>r. fst (wsr_abs r)" wr_cancelled
proof (standard, goal_cases)
  case (1 s l s')
  then show ?case by (cases rule: wsr_abs_step) auto
next
  case (2 s l s')
  then show ?case using wsr_cancelled_step by blast
qed

lemma wsr_run_error:
  assumes "run wsr_step r ls r'" and "wsr_inv r" and "\<not> wr_cancelled r'"
  shows "snd (wsr_abs r) = snd (wsr_abs r') \<and> (\<forall>d e. Ret d (Some e) \<in> set ls \<longrightarrow> wsr_abs r' = ([], e))"
  using assms
proof (induction rule: run.induct)
  case (run_snoc s ls s' l s'')
  have nc: "\<not> wr_cancelled s'" using run_snoc.hyps(2) run_snoc.prems(2) wsr_cancelled_step by blast
  then have IH: "snd (wsr_abs s) = snd (wsr_abs s') \<and> (\<forall>d e. Ret d (Some e) \<in> set ls \<longrightarrow> wsr_abs s' = ([], e))"
    using run_snoc by blast
  have "wsr_inv s'" using wsr.inv_run run_snoc by blast
  from this run_snoc.hyps(2) show ?case
  proof (cases rule: wsr_abs_step)
    case kept
    have "wsr_abs s'' = ([], e)" if "wsr_abs s' = ([], e)" for e
      using that kept(1,2) by (cases "wsr_abs s''") simp
    with IH kept show ?thesis by auto
  qed (use run_snoc.prems in simp)
qed simp

section \<open>Properties\<close>

text \<open>
  Claim C16. There is only one reader at a time: in every reachable state, while \<^verbatim>\<open>Read\<close> consumes a
  message the goroutine has no reader and asks for none, and returning the token to the barrier does
  not block.
\<close>

theorem ws_reader_exclusive:
  assumes "run wsr_step (newWebSocketReader conn) ls r" and "wr_phase r = Consuming c rr"
  shows "wr_loop r \<noteq> Fetching \<and> (\<forall>rr'. wr_loop r \<noteq> Offering rr') \<and>
    (\<exists>d e r'. wsr_step r (Ret d e) r')"
proof -
  have "wsr_inv r" using wsr.reachable_inv [OF refl assms(1)] .
  with assms(2) have inv: "wr_barrier r = 0" "wr_loop r \<noteq> Fetching" "\<And>rr'. wr_loop r \<noteq> Offering rr'"
    by (auto simp: wsr_inv_def tokens_def)
  obtain d e r' where d: "doRead_result c rr r = (d, e, r')" by (cases "doRead_result c rr r") auto
  from d have "wr_barrier r' \<le> barrier_capacity"
    by (cases rule: doRead_result_cases) (simp_all add: inv barrier_capacity_def)
  with read_return [OF assms(2) d] inv(2,3) show ?thesis by blast
qed

text \<open>The way of a waiting call to its return.\<close>

lemmas wsr_run = run_Cons [where step = wsr_step] run_single [where step = wsr_step]

lemma wsr_consuming:
  assumes "wsr_inv r" and "wr_phase r = Consuming c rr"
  shows "\<exists>d e r'. wsr_step r (Ret d e) r' \<and> wr_cancelled r' = wr_cancelled r"
proof -
  obtain d e r' where d: "doRead_result c rr r = (d, e, r')" by (cases "doRead_result c rr r") auto
  from assms have "wr_barrier r = 0" by (auto simp: wsr_inv_def tokens_def)
  with d have r': "wr_barrier r' \<le> barrier_capacity" "wr_cancelled r' = wr_cancelled r"
    by (cases rule: doRead_result_cases; simp add: barrier_capacity_def)+
  have "wr_cancelled (finish_read (d, e, r')) = wr_cancelled r" using r'(2) by (simp add: finish_read_def)
  with read_return [OF assms(2) d r'(1)] show ?thesis by blast
qed

lemma wsr_offering:
  assumes "wsr_inv r" and "wr_phase r = Waiting c" and "wr_loop r = Offering rr"
  shows "\<exists>d e r'. run wsr_step r [Internal, Ret d e] r' \<and> wr_cancelled r' = wr_cancelled r"
proof -
  let ?q = "r\<lparr>wr_phase := Consuming c rr, wr_loop := AtBarrier\<rparr>"
  note st = read_receive [OF assms(2,3)]
  obtain d e r' where "wsr_step ?q (Ret d e) r'" "wr_cancelled r' = wr_cancelled r"
    using wsr_consuming [OF wsr_inv_step [OF assms(1) st], of c rr] by auto
  then show ?thesis using wsr_run(1) [OF st wsr_run(2)] by blast
qed

lemma wsr_fetching:
  assumes "wsr_inv r" and "wr_phase r = Waiting c" and "wr_loop r = Fetching"
  shows "\<exists>d e r'. run wsr_step r [Internal, Internal, Ret d e] r' \<and> wr_cancelled r' = wr_cancelled r"
proof -
  obtain a q where a: "conn_Reader r = (a, q)" by (cases "conn_Reader r")
  let ?q = "q\<lparr>wr_loop := Offering (fetch a)\<rparr>"
  note st = loop_fetch [OF assms(3) a]
  have same: "wr_phase ?q = Waiting c" "wr_cancelled ?q = wr_cancelled r"
    using a assms(2) by (auto simp: conn_Reader_def split: list.splits)
  obtain d e r' where "run wsr_step ?q [Internal, Ret d e] r'" "wr_cancelled r' = wr_cancelled r"
    using wsr_offering [OF wsr_inv_step [OF assms(1) st] same(1)] same(2) by auto
  then show ?thesis using wsr_run(1) [OF st] by blast
qed

lemma wsr_returns:
  "run wsr_step r (ls' @ [Ret d e]) r' \<Longrightarrow> length ls' \<le> 3 \<Longrightarrow> list_all (\<lambda>l. l = Internal) ls' \<Longrightarrow>
   wr_cancelled r' = wr_cancelled r \<Longrightarrow>
   \<exists>ls' d e r'. run wsr_step r (ls' @ [Ret d e]) r' \<and> length ls' \<le> 3 \<and>
     list_all (\<lambda>l. l = Internal) ls' \<and> wr_cancelled r' = wr_cancelled r"
  by blast

text \<open>
  Claim C17. \<^verbatim>\<open>Read\<close> does not hang on its own account: in every reachable state in which a call waits
  for a message, at most three steps of the goroutine and of the call (pass the barrier, get a reader, hand
  it over) lead to the call's return, and none of them needs the context to be cancelled.
\<close>

theorem ws_reader_progress:
  assumes "run wsr_step (newWebSocketReader conn) ls r" and "wr_phase r = Waiting c"
  shows "\<exists>ls' d e r'. run wsr_step r (ls' @ [Ret d e]) r' \<and> length ls' \<le> 3 \<and>
    list_all (\<lambda>l. l = Internal) ls' \<and> wr_cancelled r' = wr_cancelled r"
proof -
  have inv: "wsr_inv r" using wsr.reachable_inv [OF refl assms(1)] .
  show ?thesis
  proof (cases "wr_cancelled r")
    case True
    note st = read_cancelled [OF assms(2) True refl]
    have "run wsr_step r ([] @ [Ret [] (Some (ErrWrap ''reading websocket message'' (ErrExt ''context canceled'')))])
      (finish_read ([], Some (ErrWrap ''reading websocket message'' (ErrExt ''context canceled'')), r))"
      using wsr_run(2) [OF st] by simp
    then show ?thesis by (rule wsr_returns) (simp_all add: finish_read_def)
  next
    case False
    with inv assms(2) have one: "tokens r = 1" "wr_loop r \<noteq> Stopped" by (auto simp: wsr_inv_def)
    show ?thesis
    proof (cases "wr_loop r")
      case AtBarrier
      with one assms(2) have b: "wr_barrier r = Suc 0" by (simp add: tokens_def)
      note st = loop_pass [OF AtBarrier b]
      obtain d e r' where r': "run wsr_step (r\<lparr>wr_barrier := 0, wr_loop := Fetching\<rparr>) [Internal, Internal, Ret d e] r'"
        "wr_cancelled r' = wr_cancelled r"
        using wsr_fetching [OF wsr_inv_step [OF inv st]] assms(2) by auto
      have "run wsr_step r ([Internal, Internal, Internal] @ [Ret d e]) r'" using wsr_run(1) [OF st r'(1)] by simp
      then show ?thesis by (rule wsr_returns) (simp_all add: r'(2))
    next
      case Fetching
      with wsr_fetching [OF inv assms(2)] obtain d e r' where
        "run wsr_step r [Internal, Internal, Ret d e] r'" "wr_cancelled r' = wr_cancelled r" by blast
      then show ?thesis by (intro wsr_returns [of r "[Internal, Internal]" d e r']) simp_all
    next
      case (Offering rr)
      with wsr_offering [OF inv assms(2)] obtain d e r' where
        "run wsr_step r [Internal, Ret d e] r'" "wr_cancelled r' = wr_cancelled r" by blast
      then show ?thesis by (intro wsr_returns [of r "[Internal]" d e r']) simp_all
    qed (use one in simp)
  qed
qed

lemma ws_reader_stream:
  assumes "run wsr_step (newWebSocketReader conn) ls r" and "\<not> wr_cancelled r" and "Ret d (Some e) \<in> set ls"
  shows "concat (map returned ls) = fst (ws_stream (map fetch conn)) \<and> e = snd (ws_stream (map fetch conn))"
proof -
  have abs0: "wsr_abs (newWebSocketReader conn) = ws_stream (map fetch conn)"
    by (simp add: wsr_abs_def wsr_results_def upstream_def newWebSocketReader_def)
  with wsr_run_error [OF assms(1) wsr_inv_new assms(2)] assms(2,3) wsr_stream.run_todo [OF assms(1) wsr_inv_new]
  show ?thesis by auto
qed

text \<open>
  Claim C3. The reader delivers the specified stream, whatever the interleaving: the bytes returned so far are a
  prefix of the messages' bytes, cancellation or not. Without a cancellation nothing is lost, and once a
  call returns an error, all bytes have been returned and the error is the one that ended the stream.
\<close>

theorem ws_reader_refines:
  assumes "run wsr_step (newWebSocketReader conn) ls r"
  shows "(\<exists>rest. fst (ws_stream (map fetch conn)) = concat (map returned ls) @ rest) \<and>
    (\<not> wr_cancelled r \<longrightarrow> (\<forall>d e. Ret d (Some e) \<in> set ls \<longrightarrow>
       concat (map returned ls) = fst (ws_stream (map fetch conn)) \<and> e = snd (ws_stream (map fetch conn))))"
proof -
  have abs0: "wsr_abs (newWebSocketReader conn) = ws_stream (map fetch conn)"
    by (simp add: wsr_abs_def wsr_results_def upstream_def newWebSocketReader_def)
  obtain lost where l: "fst (ws_stream (map fetch conn)) = concat (map returned ls) @ fst (wsr_abs r) @ lost"
    "lost \<noteq> [] \<longrightarrow> wr_cancelled r"
    using wsr_stream.run_todo [OF assms wsr_inv_new] abs0 by auto
  note ws_reader_stream [OF assms]
  with l(1) show ?thesis by blast
qed

section \<open>A request from the client\<close>

lemma mk_frame_flags: "mk_frame flags p = mk_frame flags' p' \<Longrightarrow> flags = flags'"
  by (simp add: mk_frame_Cons)

lemma check_message_data:
  assumes "flags AND metadataMask = 0" and "length p < 2 ^ 32"
  shows "check_message (mk_frame flags p) = None"
proof -
  have "mk_frame flags p \<noteq> EndStreamHeader"
    using assms(1) mk_frame_flags [of flags p MetadataFlags "[]"] by (auto simp: EndStreamHeader_eq go_defs)
  with assms show ?thesis by (simp add: check_message_def IsEndOfStream_def)
qed

lemma check_message_EOS: "check_message EndStreamHeader = Some EOF"
  by (simp add: check_message_def IsEndOfStream_def EndStreamHeader_eq)

lemma ws_stream_request:
  assumes "list_all (\<lambda>(flags, p). flags AND metadataMask = 0 \<and> length p < 2 ^ 32) fs"
  shows "ws_stream (map (\<lambda>m. ReaderOf m None) (frame_list fs @ [EndStreamHeader]) @ rs) = (frames_bytes fs, EOF)"
  using assms
proof (induction fs)
  case (Cons f fs)
  then show ?case by (cases f) (simp add: check_message_data)
qed (simp add: check_message_EOS)

section \<open>Concrete runs\<close>

definition sample_conn :: "ws_arrival list" where
  "sample_conn = [Arrives True [0, 0, 0, 0, 1, 9] None, Arrives True EndStreamHeader None]"

text \<open>The first message is on offer and a call waits for it.\<close>

definition sample_waiting :: wsReader where
  "sample_waiting = (newWebSocketReader sample_conn)
     \<lparr>wr_barrier := 0, wr_conn := [Arrives True EndStreamHeader None],
      wr_loop := Offering (ReaderOf [0, 0, 0, 0, 1, 9] None), wr_phase := Waiting 4\<rparr>"

lemma sample_run_waiting: "run wsr_step (newWebSocketReader sample_conn) [Internal, Internal, Internal] sample_waiting"
proof -
  let ?r1 = "(newWebSocketReader sample_conn)\<lparr>wr_barrier := 0, wr_loop := Fetching\<rparr>"
  let ?r2 = "?r1\<lparr>wr_conn := [Arrives True EndStreamHeader None], wr_loop := Offering (ReaderOf [0, 0, 0, 0, 1, 9] None)\<rparr>"
  have 1: "wsr_step (newWebSocketReader sample_conn) Internal ?r1"
    by (rule loop_pass) (simp_all add: newWebSocketReader_def)
  have 2: "wsr_step ?r1 Internal ?r2"
    using loop_fetch [of ?r1 "Arrives True [0, 0, 0, 0, 1, 9] None"]
    by (simp add: conn_Reader_def newWebSocketReader_def sample_conn_def fetch_def)
  have 3: "wsr_step ?r2 Internal (?r2\<lparr>wr_phase := Waiting 4\<rparr>)"
    by (rule read_wait) (simp_all add: newWebSocketReader_def)
  from wsr_run(1) [OF 1 wsr_run(1) [OF 2 wsr_run(2) [OF 3]]] show ?thesis
    by (simp add: sample_waiting_def newWebSocketReader_def)
qed

lemma sample_run_consuming:
  "\<exists>r. run wsr_step (newWebSocketReader sample_conn) ([Internal, Internal, Internal] @ [Internal]) r \<and>
     wr_phase r = Consuming 4 (ReaderOf [0, 0, 0, 0, 1, 9] None)"
proof -
  have "wsr_step sample_waiting Internal
    (sample_waiting\<lparr>wr_phase := Consuming 4 (ReaderOf [0, 0, 0, 0, 1, 9] None), wr_loop := AtBarrier\<rparr>)"
    by (rule read_receive) (simp_all add: sample_waiting_def)
  from run_snoc [OF sample_run_waiting this] show ?thesis
    by (intro exI [of _ "sample_waiting\<lparr>wr_phase := Consuming 4 (ReaderOf [0, 0, 0, 0, 1, 9] None),
      wr_loop := AtBarrier\<rparr>"] conjI) simp_all
qed

theorem ws_reader_exclusive_witness:
  "\<exists>ls r. run wsr_step (newWebSocketReader sample_conn) ls r \<and> wr_loop r \<noteq> Fetching \<and>
     (\<exists>d e r'. wsr_step r (Ret d e) r')"
  using sample_run_consuming ws_reader_exclusive [of sample_conn] by blast

theorem ws_reader_progress_witness:
  "\<exists>ls' d e r'. run wsr_step sample_waiting (ls' @ [Ret d e]) r' \<and> length ls' \<le> 3"
  using ws_reader_progress [OF sample_run_waiting, of 4] by (auto simp: sample_waiting_def)

theorem ws_reader_refines_witness:
  "\<exists>ls r. run wsr_step (newWebSocketReader sample_conn) ls r \<and>
     (\<exists>rest. fst (ws_stream (map fetch sample_conn)) = concat (map returned ls) @ rest)"
  using sample_run_consuming ws_reader_refines [of sample_conn] by blast

end
