(* ===== verification/WsRoundTrip.thy ===== *)
theory WsRoundTrip
  imports WsWriter WsProxy WsReader
begin

text \<open>
  The response path of gRPC over WebSockets, from the server's response writer
  (\<^verbatim>\<open>server/websocket_writer.go\<close>) through \<^verbatim>\<open>grpcwebsocket.Write\<close> to the client's proxy
  (\<^verbatim>\<open>client/ws_proxy.go\<close>).
\<close>

section \<open>The messages a handler's response becomes\<close>

definition ws_messages :: "string list \<Rightarrow> ww_op list \<Rightarrow> ws_out \<Rightarrow> bytes list" where
  "ws_messages ks ops out =
     (let w = snd (Close ks (ww_handle ops (newWebSocketResponseWriter [])))
      in ws_sent (snd (snd (GrpcWebSocket.Write (pipe_reader (ww_writer w)) out))))"

definition closing_text :: "string list \<Rightarrow> ww_op list \<Rightarrow> string" where
  "closing_text ks ops =
     Header_Write (fst (closing_trailers ks (ww_handle ops (newWebSocketResponseWriter []))))"

definition no_failures :: ws_out where
  "no_failures = \<lparr>ws_sent = [], ws_results = []\<rparr>"

lemma no_failures_simps [simp]: "ws_healthy no_failures" "ws_sent no_failures = []"
  by (simp_all add: no_failures_def ws_healthy_def)

lemma new_healthy [simp]: "pw_healthy (ww_writer (newWebSocketResponseWriter []))"
  "\<not> headerWritten (newWebSocketResponseWriter [])" "ww_bytes (newWebSocketResponseWriter []) = []"
  "ww_header (newWebSocketResponseWriter []) = []"
  "ww_announcedTrailers (newWebSocketResponseWriter []) = None"
  by (simp_all add: newWebSocketResponseWriter_def pw_healthy_def ww_bytes_def)

text \<open>
  The frames that a response consists of: the headers, if the handler sent them, its messages \<open>fs\<close>,
  and the trailers.
\<close>

definition response_frames :: "string list \<Rightarrow> ww_op list \<Rightarrow> (byte \<times> bytes) list \<Rightarrow> (byte \<times> bytes) list" where
  "response_frames ks ops fs =
     (case sent_header ops [] of None \<Rightarrow> []
      | Some h \<Rightarrow> [(MetadataFlags, bytes_of (Header_Write (response_headers h)))]) @ fs @
     [(MetadataFlags, bytes_of (closing_text ks ops))]"

text \<open>A handler that writes well-formed frames, none of them too long.\<close>

definition sends_frames :: "string list \<Rightarrow> ww_op list \<Rightarrow> (byte \<times> bytes) list \<Rightarrow> bool" where
  "sends_frames ks ops fs \<longleftrightarrow>
     length (closing_text ks ops) < 2 ^ 32 \<and>
     (case sent_header ops [] of None \<Rightarrow> fs = [] | Some h \<Rightarrow>
        ww_written ops = frames_bytes fs \<and> list_all frame_ok fs \<and> length (Header_Write (response_headers h)) < 2 ^ 32)"

lemma response_pipe:
  assumes "sends_frames ks ops fs"
  obtains w' where "Close ks (ww_handle ops (newWebSocketResponseWriter [])) = (None, w')"
    and "rd_content (pipe_reader (ww_writer w')) = frames_bytes (response_frames ks ops fs)"
    and "list_all frame_ok (response_frames ks ops fs)"
proof -
  let ?w = "ww_handle ops (newWebSocketResponseWriter [])"
  note b = ww_handle_bytes [of "newWebSocketResponseWriter []" ops, simplified]
  obtain w' where w': "Close ks ?w = (None, w')"
    "ww_bytes w' = ww_bytes ?w @ mk_frame MetadataFlags (bytes_of (closing_text ks ops))"
    using Close_healthy [of ?w ks] b by (auto simp: closing_text_def)
  have "rd_content (pipe_reader (ww_writer w')) = frames_bytes (response_frames ks ops fs)"
    using w'(2) b assms
    by (auto simp: pipe_reader_content ww_bytes_def [symmetric] response_frames_def sends_frames_def
        headers_frame_def split: option.splits)
  moreover have "list_all frame_ok (response_frames ks ops fs)"
    using assms by (auto simp: response_frames_def sends_frames_def frame_ok_def split: option.splits)
  ultimately show ?thesis using w'(1) that by blast
qed

lemma Write_response:
  assumes "rd_content (pipe_reader p) = frames_bytes gs" and "list_all frame_ok gs" and "ws_healthy out"
  obtains out' where "GrpcWebSocket.Write (pipe_reader p) out = (None, [], out')"
    and "ws_sent out' = ws_sent out @ frame_list gs"
proof -
  obtain r2 c2 where 2: "rd_clean r2" "rd_content r2 = []" "ws_sent c2 = ws_sent out @ frame_list gs"
    "GrpcWebSocket.Write (pipe_reader p) out = GrpcWebSocket.Write r2 c2"
    by (rule Write_clean_frames [OF pipe_reader_clean _ assms(2,3), of p "[]"]) (use assms(1) that in simp_all)
  from Write_clean_exhausted [OF 2(1,2)] 2 that show ?thesis by simp
qed

lemma ws_messages_eq:
  assumes "length (closing_text ks ops) < 2 ^ 32"
    and "case sent_header ops [] of None \<Rightarrow> fs = [] | Some h \<Rightarrow>
      ww_written ops = frames_bytes fs \<and> list_all frame_ok fs \<and> length (Header_Write (response_headers h)) < 2 ^ 32"
  shows "ws_messages ks ops no_failures =
    (case sent_header ops [] of None \<Rightarrow> [] | Some h \<Rightarrow> [headers_frame h]) @ frame_list fs @
    [mk_frame MetadataFlags (bytes_of (closing_text ks ops))]"
proof -
  have "sends_frames ks ops fs" using assms by (simp add: sends_frames_def)
  then obtain w' where w': "Close ks (ww_handle ops (newWebSocketResponseWriter [])) = (None, w')"
    "rd_content (pipe_reader (ww_writer w')) = frames_bytes (response_frames ks ops fs)"
    "list_all frame_ok (response_frames ks ops fs)" by (rule response_pipe)
  obtain out' where "GrpcWebSocket.Write (pipe_reader (ww_writer w')) no_failures = (None, [], out')"
    "ws_sent out' = ws_sent no_failures @ frame_list (response_frames ks ops fs)"
    by (rule Write_response [OF w'(2,3) no_failures_simps(1)])
  with w'(1) have "ws_messages ks ops no_failures = frame_list (response_frames ks ops fs)"
    by (simp add: ws_messages_def)
  then show ?thesis by (auto simp: response_frames_def headers_frame_def split: option.split)
qed

section \<open>What the client sees\<close>

definition wire_header :: "header \<Rightarrow> header" where
  "wire_header h = wire_view (sort_key fst h)"

lemma parse_metadata:
  assumes "canonical_header h"
  shows "ReadMIMEHeader EOF (Header_Write h @ CRLF) = (wire_header h, None, [])"
  using ReadMIMEHeader_Write [of h EOF "[]"] assms by (auto simp: wire_header_def canonical_header_def)

lemma canonical_wire_header: "canonical_header h \<Longrightarrow> canonical_header (wire_header h)"
  using canonical_wire_view by (simp add: wire_header_def)

lemma copied_values:
  assumes "canonical_header h"
  shows "hvalues (add_fields False (wire_header h) []) name = on_wire name (hvalues h name)"
  using hvalues_add_fields_headers [OF canonical_wire_header [OF assms], of "[]" name] hvalues_wire [of h name] assms
  by (simp add: wire_header_def canonical_header_def)

lemma prefix_no_field: "\<not> valid_field_name (TrailerPrefix @ name)" "TrailerPrefix @ name \<noteq> dontFlushHeadersHeaderKey"
  by (simp_all add: valid_field_name_def TrailerPrefix_def token_byte_def is_lower_def is_upper_def
      is_digit_def dontFlushHeadersHeaderKey_def)

text \<open>The messages of a response with headers and announced trailers.\<close>

lemma announced_messages:
  assumes "sent_header ops [] = Some h0" and "hindex h0 ''Trailer'' = Some ats"
    and "length (Header_Write (response_headers h0)) < 2 ^ 32"
    and "ww_written ops = frames_bytes fs" and "list_all frame_ok fs" and "length (closing_text ks ops) < 2 ^ 32"
  shows "closing_text ks ops = Header_Write (finalTrailers ks ats (ww_header (ww_handle ops (newWebSocketResponseWriter []))))"
    and "ws_messages ks ops no_failures = mk_frame MetadataFlags (bytes_of (Header_Write (response_headers h0))) #
      frame_list fs @ [mk_frame MetadataFlags (bytes_of (closing_text ks ops))]"
proof -
  have "ww_announcedTrailers (ww_handle ops (newWebSocketResponseWriter [])) = Some ats"
    using ww_handle_bytes [of "newWebSocketResponseWriter []" ops, simplified] assms(1,2) by simp
  then show "closing_text ks ops = Header_Write (finalTrailers ks ats (ww_header (ww_handle ops (newWebSocketResponseWriter []))))"
    by (simp add: closing_text_def closing_trailers_def finalTrailers_def Let_def)
  show "ws_messages ks ops no_failures = mk_frame MetadataFlags (bytes_of (Header_Write (response_headers h0))) #
      frame_list fs @ [mk_frame MetadataFlags (bytes_of (closing_text ks ops))]"
    using ws_messages_eq [OF assms(6), of fs] assms(1,3,4,5) by (simp add: headers_frame_def)
qed

text \<open>
  A unary or streaming response over a WebSocket: if a handler sends its headers and announces its trailers, writes
  data frames and finishes, then the client's proxy reads the messages without an error and its
  response has exactly the bytes the handler wrote, the handler's headers (without \<^verbatim>\<open>Trailer\<close> and
  \<^verbatim>\<open>Content-Length\<close>), and under the trailer prefix exactly the values of the trailers the
  handler left, all normalised the way HTTP does. The proxy's writer may flush after every
  write or not.
\<close>

theorem ws_response_roundtrip:
  assumes "sent_header ops [] = Some h0" and "hindex h0 ''Trailer'' = Some ats"
    and "canonical_header (response_headers h0)" and "hvalues (response_headers h0) ''Grpc-Status'' = []"
    and "length (Header_Write (response_headers h0)) < 2 ^ 32"
    and "ww_written ops = frames_bytes fs"
    and "list_all (\<lambda>(flags, p). flags AND metadataMask = 0 \<and> length p < 2 ^ 32) fs"
    and "hdr = ww_header (ww_handle ops (newWebSocketResponseWriter []))" and "range_order hdr ks"
    and "length (closing_text ks ops) < 2 ^ 32"
    and "wops = plain_ops \<or> wops = nonBuffering_ops" and "hw_healthy cw" and "hw_header cw = []"
  shows "\<exists>w'. readFromServer wops (map (Message True) (ws_messages ks ops no_failures) @
        Closed StatusNormalClosure e # evs) cw = (None, evs, w') \<and>
    hw_body w' = hw_body cw @ ww_written ops \<and>
    (\<forall>name. hvalues (hw_header w') (TrailerPrefix @ name) = sent_values ks ats hdr name) \<and>
    (\<forall>name. name \<noteq> dontFlushHeadersHeaderKey \<and> \<not> HasPrefix name TrailerPrefix \<longrightarrow>
       hvalues (hw_header w') name = on_wire name (hvalues (response_headers h0) name))"
proof -
  let ?tr = "finalTrailers ks ats hdr" and ?h = "response_headers h0"
  have ok: "list_all frame_ok fs" using assms(7) by (auto simp: list_all_iff frame_ok_def)
  note m = announced_messages [OF assms(1,2,5,6) ok assms(10), folded assms(8)]
  have pt: "ReadMIMEHeader EOF (closing_text ks ops @ CRLF) = (wire_header ?tr, None, [])"
    using parse_metadata [OF canonical_finalTrailers] m(1) by simp
  have tr: "header_ok (wire_header ?tr)"
    using canonical_wire_header [OF canonical_finalTrailers, of ks ats hdr] by (simp add: canonical_header_def)
  have fields: "hvalues (add_fields False (wire_header ?h) (hw_header cw)) name = on_wire name (hvalues ?h name)" for name
    using copied_values [OF assms(3)] by (simp add: assms(13))
  then have gs: "hvalues (add_fields False (wire_header ?h) (hw_header cw)) ''Grpc-Status'' = []"
    using assms(4) by (simp add: on_wire_def)
  have rw: "response_writer wops"
    using assms(11) plain.response_writer_axioms nonBuffering.response_writer_axioms by auto
  obtain w1 w' where w1: "w1 = op_WriteHeader wops StatusOK
      (cw\<lparr>hw_header := add_fields False (wire_header ?h) (hw_header cw)\<rparr>)"
    and w': "readFromServer wops (Message True (mk_frame MetadataFlags (bytes_of (Header_Write ?h))) #
        map (Message True) (frame_list fs) @ Message True (mk_frame MetadataFlags (bytes_of (closing_text ks ops))) #
        Closed StatusNormalClosure e # evs) cw = (None, evs, w')"
    "hw_body w' = hw_body cw @ frames_bytes fs" "hw_header w' = add_fields True (wire_header ?tr) (hw_header w1)"
    using response_writer.read_response_stream [OF rw assms(12,7,5) parse_metadata [OF assms(3)] assms(10) pt gs,
        of StatusNormalClosure e evs] by auto
  have h1: "hvalues (hw_header w1) name = on_wire name (hvalues ?h name)" if "name \<noteq> dontFlushHeadersHeaderKey" for name
    using response_writer.WriteHeader_ok [OF rw, of StatusOK _ name] that
    by (simp add: w1 hvalues_def [of _ name]) (simp add: hvalues_def [of _ name, symmetric] fields)
  have "hvalues (hw_header w') (TrailerPrefix @ name) = sent_values ks ats hdr name" for name
    using hvalues_add_fields_trailers(1) [OF tr, of "hw_header w1" name] h1 [OF prefix_no_field(2)]
      hvalues_wire_final [OF assms(9), of ats name] prefix_no_field(1)
    by (simp add: w'(3) on_wire_def wire_header_def)
  moreover have "hvalues (hw_header w') name = on_wire name (hvalues ?h name)"
    if "name \<noteq> dontFlushHeadersHeaderKey" "\<not> HasPrefix name TrailerPrefix" for name
    using hvalues_add_fields_trailers(2) [OF tr that(2)] h1 [OF that(1)] by (simp add: w'(3))
  ultimately show ?thesis using w'(1,2) m(2) assms(6) by auto
qed

text \<open>
  Claim C27. A trailers-only response over a WebSocket: if a handler sends neither headers nor data, all that goes
  over the connection is one metadata frame with its headers and trailers together. When they include
  \<^verbatim>\<open>Grpc-Status\<close>, the client's proxy takes them as the whole response: it reads no further
  message, writes no body and leaves sending the headers to the end of the call.
\<close>

theorem ws_trailers_only_roundtrip:
  assumes "sent_header ops [] = None"
    and "hdr = fst (closing_trailers ks (ww_handle ops (newWebSocketResponseWriter [])))"
    and "canonical_header hdr" and "length (Header_Write hdr) < 2 ^ 32"
    and "hvalues hdr ''Grpc-Status'' \<noteq> []" and "hw_header cw = []"
  shows "ws_messages ks ops no_failures = [mk_frame MetadataFlags (bytes_of (Header_Write hdr))] \<and>
    (\<exists>w'. readFromServer wops (map (Message True) (ws_messages ks ops no_failures) @ evs) cw = (None, evs, w') \<and>
      hw_body w' = hw_body cw \<and> hw_sent w' = hw_sent cw \<and>
      (\<forall>name. hvalues (hw_header w') name = on_wire name (hvalues hdr name)))"
proof -
  have ct: "closing_text ks ops = Header_Write hdr" by (simp add: closing_text_def assms(2))
  have msgs: "ws_messages ks ops no_failures = [mk_frame MetadataFlags (bytes_of (Header_Write hdr))]"
    using ws_messages_eq [of ks ops "[]"] assms(1,4) ct by simp
  let ?w' = "cw\<lparr>hw_header := add_fields False (wire_header hdr) (hw_header cw)\<rparr>"
  have ok: "header_ok hdr" "canonical_header (wire_header hdr)"
    using assms(3) canonical_wire_view [OF assms(3)] by (simp_all add: canonical_header_def wire_header_def)
  have vals: "hvalues (hw_header ?w') name = on_wire name (hvalues hdr name)" for name
    using hvalues_add_fields_headers [OF ok(2), of "[]" name] hvalues_wire [OF ok(1), of name]
    by (simp add: assms(6) wire_header_def)
  have parse: "ReadMIMEHeader EOF (Header_Write hdr @ CRLF) = (wire_header hdr, None, [])"
    using ReadMIMEHeader_Write [of hdr EOF "[]"] assms(3)
    by (auto simp: wire_header_def canonical_header_def)
  have gs: "0 < length (hvalues (hw_header ?w') ''Grpc-Status'')"
  proof -
    have "valid_field_name ''Grpc-Status''" by code_simp
    then show ?thesis using assms(5) unfolding vals by (simp add: on_wire_def)
  qed
  note readHeader_metadata [OF assms(4) parse, of evs cw]
  then have "readFromServer wops (Message True (mk_frame MetadataFlags (bytes_of (Header_Write hdr))) # evs) cw =
      (None, evs, ?w')"
    using gs by (simp add: readFromServer_def)
  with msgs vals show ?thesis by simp
qed

section \<open>The request\<close>

text \<open>
  The request path over a WebSocket: if the client's request body is a stream of data frames, in whatever
  pieces it is read, then sending it succeeds, and on the server the call's body gives exactly these bytes
  and then \<^verbatim>\<open>io.EOF\<close>. No interleaving of the goroutine and the reads changes that: when a read
  first reports an error, all bytes have been read and the error is \<^verbatim>\<open>io.EOF\<close>.
\<close>

theorem ws_request_roundtrip:
  assumes "rd_clean body" and "rd_content body = frames_bytes fs"
    and "list_all (\<lambda>(flags, p). flags AND metadataMask = 0 \<and> length p < 2 ^ 32) fs"
    and "writeToServer body no_failures = (e, out)"
    and "run wsr_step (newWebSocketReader (map (\<lambda>m. Arrives True m None) (ws_sent out) @ later)) ls r"
    and "\<not> wr_cancelled r" and "Ret d (Some e') \<in> set ls"
  shows "e = None \<and> concat (map returned ls) = rd_content body \<and> e' = EOF"
proof -
  have ok: "list_all frame_ok fs" using assms(3) by (auto simp: list_all_iff frame_ok_def)
  have c: "rd_content body = frames_bytes fs @ []" using assms(2) by simp
  obtain r2 c2 where 2: "rd_clean r2" "rd_content r2 = []" "ws_healthy c2" "ws_sent c2 = frame_list fs"
    "GrpcWebSocket.Write body no_failures = GrpcWebSocket.Write r2 c2"
    by (rule Write_clean_frames [OF assms(1) c ok no_failures_simps(1)]) (rule that, simp_all)
  from Write_clean_end [OF 2(1), of 0 0 "[]" c2] 2(2) obtain r3 where
    "GrpcWebSocket.Write r2 c2 = (None, r3, c2)" by auto
  with assms(4) 2(5) have w: "conn_Write EndStreamHeader c2 = (e, out)" by (simp add: writeToServer_def)
  with conn_Write_healthy [OF 2(3) w] conn_Write_sent [of EndStreamHeader c2 out] 2(4)
  have e: "e = None" and sent: "ws_sent out = frame_list fs @ [EndStreamHeader]" by simp_all
  have "map fetch (map (\<lambda>m. Arrives True m None) (ws_sent out) @ later) =
      map (\<lambda>m. ReaderOf m None) (frame_list fs @ [EndStreamHeader]) @ map fetch later"
    by (simp add: sent fetch_def)
  then have s: "ws_stream (map fetch (map (\<lambda>m. Arrives True m None) (ws_sent out) @ later)) = (frames_bytes fs, EOF)"
    using ws_stream_request [OF assms(3)] by simp
  from ws_reader_stream [OF assms(5-7)] e s assms(2) show ?thesis by simp
qed

section \<open>Errors of the transport\<close>

text \<open>
  Claim C30. What becomes of transport errors. If sending the request or reading the response failed and the
  response has no \<^verbatim>\<open>Grpc-Status\<close> header, it ends with the status \<^verbatim>\<open>Unavailable\<close> and a message
  that names the error that came first; the body and the other headers are those received. If neither
  failed, or the server's headers had a \<^verbatim>\<open>Grpc-Status\<close> (a trailers-only response), the response is
  left exactly as it was received and no error is reported. Trailers of the server do not count: an error
  is written over them too, which the comment of \<^verbatim>\<open>writeErrorIfNecessary\<close> rules out.
\<close>

theorem transport_error_reported:
  assumes "writeToServer body out = (we, out')" and "readFromServer ops evs w = (re, evs', w1)"
    and "ops \<in> {plain_ops, nonBuffering_ops}"
    and "first = (if writerFirst \<and> we \<noteq> None \<or> re = None then we else re)"
    and "w' = fst (serve_dialled unavailable writerFirst ops body out evs w)"
  shows "if first = None \<or> hvalues (hw_header w1) ''Grpc-Status'' \<noteq> [] then w' = w1
    else hw_body w' = hw_body w1 \<and>
      hvalues (hw_header w') ''Trailer:Grpc-Status'' = [show_nat unavailable] \<and>
      hvalues (hw_header w') ''Trailer:Grpc-Message'' = [EncodeGrpcMessage (''transport: '' @ Error (the first))] \<and>
      (\<forall>k. k \<notin> {''Trailer:Grpc-Status'', ''Trailer:Grpc-Message'', dontFlushHeadersHeaderKey} \<longrightarrow>
         hvalues (hw_header w') k = hvalues (hw_header w1) k)"
proof -
  have keys: "CanonicalHeaderKey ''Trailer:Grpc-Status'' = ''Trailer:Grpc-Status''"
    "CanonicalHeaderKey ''Trailer:Grpc-Message'' = ''Trailer:Grpc-Message''"
    by code_simp+
  have "response_writer ops"
    using assms(3) plain.response_writer_axioms nonBuffering.response_writer_axioms by auto
  note WriteHeader_ok = response_writer.WriteHeader_ok [OF this, of StatusOK w1]
  have w': "w' = (case first of None \<Rightarrow> w1
      | Some e \<Rightarrow> wc_w (writeErrorIfNecessary unavailable ops \<lparr>wc_w = w1, wc_errFlag = 1, wc_err = Some e\<rparr>))"
    using assms(1,2,4,5)
    by (cases we; cases re; cases writerFirst) (simp_all add: serve_dialled_def setError_def Let_def writeErrorIfNecessary_def)
  show ?thesis
    using WriteHeader_ok unfolding w'
    by (cases first) (auto simp: writeErrorIfNecessary_def Let_def hSet_def keys hvalues_def)
qed

text \<open>
  Claim C38. A transport error replaces a status that the server sent as a trailer. If the server's trailers arrived
  (they are kept under the trailer prefix) and sending the request failed, as it does when the server
  answers without reading the whole request, the client is told \<^verbatim>\<open>Unavailable\<close> and the server's
  status is gone, although the function's comment restricts it to the case without such trailers.
\<close>

theorem transport_error_overwrites_status:
  assumes "writeToServer body out = (Some e, out')" and "readFromServer ops evs w = (None, evs', w1)"
    and "hvalues (hw_header w1) ''Grpc-Status'' = []"
    and "hvalues (hw_header w1) ''Trailer:Grpc-Status'' = [status]"
  shows "hvalues (hw_header (fst (serve_dialled unavailable writerFirst ops body out evs w))) ''Trailer:Grpc-Status'' =
      [show_nat unavailable]"
proof -
  have keys: "CanonicalHeaderKey ''Trailer:Grpc-Status'' = ''Trailer:Grpc-Status''"
    "CanonicalHeaderKey ''Trailer:Grpc-Message'' = ''Trailer:Grpc-Message''"
    by code_simp+
  show ?thesis
    using assms by (auto simp: serve_dialled_def setError_def writeErrorIfNecessary_def Let_def hSet_def keys)
qed

section \<open>Concrete calls\<close>

definition ws_ops :: "ww_op list" where
  "ws_ops =
     [WsHeader (hput ''Trailer'' [''Grpc-Status'']), WsHeader (hput ''Content-Type'' [''application/grpc'']),
      WsWriteHeader 200, WsWrite [0, 0, 0, 0, 1, 9], WsHeader (hput ''Grpc-Status'' [''0''])]"

abbreviation ws_h0 :: header where
  "ws_h0 \<equiv> [(''Trailer'', [''Grpc-Status'']), (''Content-Type'', [''application/grpc''])]"

abbreviation ws_hdr :: header where
  "ws_hdr \<equiv> [(''Content-Type'', [''application/grpc'']), (''Grpc-Status'', [''0''])]"

lemma ws_ops_facts:
  "sent_header ws_ops [] = Some ws_h0" "response_headers ws_h0 = [(''Content-Type'', [''application/grpc''])]"
  "ww_written ws_ops = frames_bytes [(0, [9])]"
  by (simp_all add: ws_ops_def hput_def response_headers_def hDel_def hdelete_def ww_written_def
      mk_frame_Cons BigEndian_PutUint32_def)

lemma ws_ops_state: "ww_header (ww_handle ws_ops (newWebSocketResponseWriter [])) = ws_hdr \<and>
    ww_announcedTrailers (ww_handle ws_ops (newWebSocketResponseWriter [])) = Some [''Grpc-Status'']"
  by (simp add: ww_handle_def ws_ops_def newWebSocketResponseWriter_def ws_WriteHeader_def ws_Write_def
      pw_Write_def hput_def hDel_def hdelete_def hindex_def Let_def)

lemma ws_closing_text: "length (closing_text [''Content-Type'', ''Grpc-Status''] ws_ops) < 2 ^ 32"
proof -
  have "finalTrailers [''Content-Type'', ''Grpc-Status''] [''Grpc-Status''] ws_hdr = [(''Grpc-Status'', [''0''])]"
    by code_simp
  then have "closing_text [''Content-Type'', ''Grpc-Status''] ws_ops = Header_Write [(''Grpc-Status'', [''0''])]"
    using ws_ops_state by (simp add: closing_text_def closing_trailers_def finalTrailers_def Let_def)
  moreover have "length (Header_Write [(''Grpc-Status'', [''0''])]) = 16" by code_simp
  ultimately show ?thesis by simp
qed

theorem ws_response_roundtrip_witness:
  "\<exists>w'. readFromServer nonBuffering_ops (map (Message True) (ws_messages [''Content-Type'', ''Grpc-Status''] ws_ops no_failures) @
        [Closed StatusNormalClosure EOF]) new_httpWriter = (None, [], w') \<and>
    hw_body w' = [0, 0, 0, 0, 1, 9] \<and> hvalues (hw_header w') (TrailerPrefix @ ''Grpc-Status'') = [''0'']"
proof -
  have "canonical_header (response_headers ws_h0)" "hvalues (response_headers ws_h0) ''Grpc-Status'' = []"
    unfolding ws_ops_facts(2) by code_simp+
  moreover have "length (Header_Write [(''Content-Type'', [''application/grpc''])]) = 32" by code_simp
  then have "length (Header_Write (response_headers ws_h0)) < 2 ^ 32" by (simp add: ws_ops_facts(2))
  moreover have "sent_values [''Content-Type'', ''Grpc-Status''] [''Grpc-Status''] ws_hdr ''Grpc-Status'' = [''0'']"
    by code_simp
  moreover have "hindex ws_h0 ''Trailer'' = Some [''Grpc-Status'']" by (simp add: hindex_def)
  ultimately show ?thesis
    using ws_response_roundtrip [OF ws_ops_facts(1) _ _ _ _ ws_ops_facts(3), of "[''Grpc-Status'']" ws_hdr
        "[''Content-Type'', ''Grpc-Status'']" nonBuffering_ops new_httpWriter EOF "[]"] ws_closing_text ws_ops_state
    by (auto simp: range_order_def ws_ops_facts(3) mk_frame_Cons BigEndian_PutUint32_def)
qed

theorem ws_trailers_only_roundtrip_witness:
  "\<exists>w'. readFromServer plain_ops (map (Message True) (ws_messages [''Grpc-Status''] [WsHeader (hput ''Grpc-Status'' [''5''])] no_failures) @
      []) new_httpWriter = (None, [], w') \<and> hvalues (hw_header w') ''Grpc-Status'' = [''5'']"
proof -
  let ?ops = "[WsHeader (hput ''Grpc-Status'' [''5''])]"
  have st: "closing_trailers [''Grpc-Status''] (ww_handle ?ops (newWebSocketResponseWriter [])) =
      ([(''Grpc-Status'', [''5''])], [(''Grpc-Status'', [''5''])])"
    by code_simp
  have "canonical_header [(''Grpc-Status'', [''5''])]" "hvalues [(''Grpc-Status'', [''5''])] ''Grpc-Status'' = [''5'']"
    "on_wire ''Grpc-Status'' [''5''] = [''5'']" by code_simp+
  moreover have "length (Header_Write [(''Grpc-Status'', [''5''])]) = 16" by code_simp
  then have "length (Header_Write [(''Grpc-Status'', [''5''])]) < 2 ^ 32" by simp
  ultimately show ?thesis
    using ws_trailers_only_roundtrip [of ?ops "[(''Grpc-Status'', [''5''])]" "[''Grpc-Status'']" new_httpWriter plain_ops "[]"] st
    by auto
qed

text \<open>The request breaks off; the response arrived with a status of its own.\<close>

lemma broken_request: "writeToServer [([0, 0], None)] no_failures = (Some ErrUnexpectedEOF, no_failures)"
  using Write_clean_end [of "[([0, 0], None)]" 2 0 "[]" no_failures]
  by (auto simp: writeToServer_def mk_frame_Cons BigEndian_PutUint32_def numeral_2_eq_2)

definition ok_response :: "ws_event list" where
  "ok_response = [Message True (mk_frame MetadataFlags (bytes_of (''Content-Type: application/grpc'' @ CRLF))),
     Message True (mk_frame MetadataFlags (bytes_of (''Grpc-Status: 7'' @ CRLF))),
     Closed StatusNormalClosure EOF]"

lemma ok_response_read:
  obtains w1 where "readFromServer plain_ops ok_response new_httpWriter = (None, [], w1)"
    and "hw_header w1 = [(''Content-Type'', [''application/grpc'']), (''Trailer:Grpc-Status'', [''7''])]"
proof -
  let ?ht = "''Content-Type: application/grpc'' @ CRLF" and ?tt = "''Grpc-Status: 7'' @ CRLF"
  have h: "ReadMIMEHeader EOF (?ht @ CRLF) = ([(''Content-Type'', [''application/grpc''])], None, [])"
    "ReadMIMEHeader EOF (?tt @ CRLF) = ([(''Grpc-Status'', [''7''])], None, [])" by code_simp+
  have a: "add_fields False [(''Content-Type'', [''application/grpc''])] [] = [(''Content-Type'', [''application/grpc''])]"
    "add_fields True [(''Grpc-Status'', [''7''])] [(''Content-Type'', [''application/grpc''])] =
       [(''Content-Type'', [''application/grpc'']), (''Trailer:Grpc-Status'', [''7''])]"
    "hvalues [(''Content-Type'', [''application/grpc''])] ''Grpc-Status'' = []"
    by code_simp+
  have len: "length ?ht < 2 ^ 32" "length ?tt < 2 ^ 32" by (simp_all add: CRLF_def)
  have gs: "hvalues (add_fields False [(''Content-Type'', [''application/grpc''])] (hw_header new_httpWriter)) ''Grpc-Status'' = []"
    using a(1,3) by simp
  have fs0: "list_all (\<lambda>(flags, p). flags AND metadataMask = 0 \<and> length p < 2 ^ 32) []" by simp
  obtain w1 w' where w1: "w1 = op_WriteHeader plain_ops StatusOK
      (new_httpWriter\<lparr>hw_header := add_fields False [(''Content-Type'', [''application/grpc''])] (hw_header new_httpWriter)\<rparr>)"
    and w': "readFromServer plain_ops (Message True (mk_frame MetadataFlags (bytes_of ?ht)) #
      map (Message True) (frame_list []) @ Message True (mk_frame MetadataFlags (bytes_of ?tt)) #
      Closed StatusNormalClosure EOF # []) new_httpWriter = (None, [], w')"
    "hw_header w' = add_fields True [(''Grpc-Status'', [''7''])] (hw_header w1)"
    by (rule plain.read_response_stream [OF new_httpWriter_simps(1) fs0 len(1) h(1) len(2) h(2) gs]) (blast, blast)
  have "hw_header w1 = [(''Content-Type'', [''application/grpc''])]" using a(1) by (simp add: w1 plain_ops_def)
  with w' a(2) show ?thesis by (intro that [of w']) (simp_all add: ok_response_def)
qed

theorem transport_error_reported_witness:
  "hvalues (hw_header (fst (serve_dialled 14 True plain_ops [([0, 0], None)] no_failures [] new_httpWriter)))
     ''Trailer:Grpc-Message'' = [EncodeGrpcMessage (''transport: '' @ ''unexpected EOF'')]"
proof -
  obtain re w1 where "readFromServer plain_ops [] new_httpWriter = (re, [], w1)" "hw_header w1 = []"
    by (auto simp: readFromServer_def readHeader_def conn_Read_def)
  with transport_error_reported [OF broken_request this(1) _ refl refl, of True 14] show ?thesis
    by (simp add: hvalues_def)
qed

theorem transport_error_overwrites_status_witness:
  "\<exists>w1. readFromServer plain_ops ok_response new_httpWriter = (None, [], w1) \<and>
     hvalues (hw_header w1) ''Trailer:Grpc-Status'' = [''7''] \<and>
     hvalues (hw_header (fst (serve_dialled 14 False plain_ops [([0, 0], None)] no_failures ok_response new_httpWriter)))
       ''Trailer:Grpc-Status'' = [show_nat 14]"
proof -
  obtain w1 where w1: "readFromServer plain_ops ok_response new_httpWriter = (None, [], w1)"
    "hw_header w1 = [(''Content-Type'', [''application/grpc'']), (''Trailer:Grpc-Status'', [''7''])]"
    by (rule ok_response_read)
  from transport_error_overwrites_status [OF broken_request w1(1), of "''7''" 14 False] w1 show ?thesis
    by (simp add: hvalues_def hindex_def)
qed

text \<open>A request of one frame, read by a call that waits, gets the message and copies it out, and a call that gets the end.\<close>

abbreviation req_conn :: "ws_arrival list" where
  "req_conn \<equiv> [Arrives True EndStreamHeader None]"

lemma empty_request: "writeToServer [] no_failures = (None, \<lparr>ws_sent = [EndStreamHeader], ws_results = []\<rparr>)"
  using Write_clean_end [of "[]" 0 0 "[]" no_failures]
  by (auto simp: writeToServer_def conn_Write_def no_failures_def)

lemma empty_request_run:
  "\<exists>ls r d e. run wsr_step (newWebSocketReader req_conn) ls r \<and> \<not> wr_cancelled r \<and> Ret d (Some e) \<in> set ls"
proof -
  let ?r0 = "(newWebSocketReader req_conn)\<lparr>wr_phase := Waiting 8\<rparr>"
  have 1: "wsr_step (newWebSocketReader req_conn) Internal ?r0"
    by (rule read_wait) (simp_all add: newWebSocketReader_def)
  have 2: "wsr_step ?r0 Internal (?r0\<lparr>wr_barrier := 0, wr_loop := Fetching\<rparr>)"
    by (rule loop_pass) (simp_all add: newWebSocketReader_def)
  let ?r1 = "?r0\<lparr>wr_barrier := 0, wr_loop := Fetching\<rparr>"
  let ?r2 = "?r1\<lparr>wr_conn := [], wr_loop := Offering (ReaderOf EndStreamHeader None)\<rparr>"
  have 3: "wsr_step ?r1 Internal ?r2"
    using loop_fetch [of ?r1 "Arrives True EndStreamHeader None"]
    by (simp add: conn_Reader_def newWebSocketReader_def fetch_def)
  let ?r3 = "?r2\<lparr>wr_phase := Consuming 8 (ReaderOf EndStreamHeader None), wr_loop := AtBarrier\<rparr>"
  have 4: "wsr_step ?r2 Internal ?r3" by (rule read_receive) simp_all
  have 5: "wsr_step ?r3 (Ret [] (Some EOF)) (finish_read ([], Some EOF, ?r3\<lparr>wr_barrier := 1\<rparr>))"
    by (rule read_return [of _ 8 "ReaderOf EndStreamHeader None"])
      (simp_all add: doRead_result_def check_message_EOS barrier_capacity_def)
  show ?thesis
    by (intro exI conjI, rule wsr_run(1) [OF 1 wsr_run(1) [OF 2 wsr_run(1) [OF 3 wsr_run(1) [OF 4 wsr_run(2) [OF 5]]]]])
      (simp_all add: finish_read_def newWebSocketReader_def)
qed

theorem ws_request_roundtrip_witness:
  "\<exists>ls r d e. run wsr_step (newWebSocketReader req_conn) ls r \<and> Ret d (Some e) \<in> set ls \<and>
     concat (map returned ls) = [] \<and> e = EOF"
proof -
  obtain ls r d e where r: "run wsr_step (newWebSocketReader req_conn) ls r" "\<not> wr_cancelled r" "Ret d (Some e) \<in> set ls"
    using empty_request_run by blast
  with ws_request_roundtrip [OF _ _ _ empty_request, of "[]" "[]" ls r d e] show ?thesis by auto
qed

end
