(* ===== verification/GoStrings.thy ===== *)
theory GoStrings
  imports GrpcMessage
begin

text \<open>
  The functions of Go's \<^verbatim>\<open>strings\<close> and \<^verbatim>\<open>unicode\<close> packages that the HTTP handlers apply to
  header values. They work on runes, so they decode UTF-8 first.
\<close>

section \<open>Runes of a string\<close>

text \<open>A \<^verbatim>\<open>range\<close> over a string: the runes, each with the bytes it was decoded from.\<close>

function runes :: "string \<Rightarrow> (nat \<times> string) list" where
  "runes s =
     (if s = [] then []
      else case DecodeRuneInString s of (r, sz) \<Rightarrow> (r, take sz s) # runes (drop sz s))"
  by pat_completeness auto
termination
  by (relation "measure length") (use Decode_drop [OF _ sym] in simp_all)

declare runes.simps [simp del]

lemma runes_Nil [simp]: "runes [] = []"
  by (simp add: runes.simps)

lemma runes_ascii [simp]: "code c < 128 \<Longrightarrow> runes (c # s) = (code c, [c]) # runes s"
  by (simp add: runes.simps [of "c # s"])

lemma runes_concat: "concat (map snd (runes s)) = s"
proof (induction s rule: runes.induct)
  case (1 s)
  then show ?case by (simp add: runes.simps [of s] split: prod.split)
qed

definition ascii :: "string \<Rightarrow> bool" where
  "ascii s \<longleftrightarrow> list_all (\<lambda>c. code c < 128) s"

lemma ascii_simps [simp]: "ascii []" "ascii (c # s) \<longleftrightarrow> code c < 128 \<and> ascii s" "ascii (s @ t) \<longleftrightarrow> ascii s \<and> ascii t"
  by (simp_all add: ascii_def)

lemma runes_ascii_append: "ascii s \<Longrightarrow> runes (s @ t) = map (\<lambda>c. (code c, [c])) s @ runes t"
  by (induction s) simp_all

lemma runes_ascii_map: "ascii s \<Longrightarrow> runes s = map (\<lambda>c. (code c, [c])) s"
  using runes_ascii_append [of s "[]"] by simp

lemma ascii_valid: "ascii s \<Longrightarrow> utf8_Valid s"
proof (induction s)
  case (Cons c s)
  then show ?case by (auto simp: utf8_Valid.simps [of "c # s"] ill_formed_def RuneError_def)
qed (simp add: utf8_Valid.simps)

section \<open>unicode\<close>

definition IsSpace :: "nat \<Rightarrow> bool" where
  "IsSpace r \<longleftrightarrow> r \<in> {9, 10, 11, 12, 13, 32, 133, 160, 5760, 8232, 8233, 8239, 8287, 12288} \<or> 8192 \<le> r \<and> r \<le> 8202"

definition fold_ascii :: "nat \<Rightarrow> nat" where
  "fold_ascii r = (if 65 \<le> r \<and> r \<le> 90 then r + 32 else r)"

text \<open>
  Whether a rune is equal to an ASCII rune under simple case folding. Beyond the two cases of a letter,
  the long s (\<^verbatim>\<open>U+017F\<close>) folds to \<^verbatim>\<open>s\<close> and the Kelvin sign (\<^verbatim>\<open>U+212A\<close>) to \<^verbatim>\<open>k\<close>.
\<close>

definition folds_to_ascii :: "nat \<Rightarrow> nat \<Rightarrow> bool" where
  "folds_to_ascii r a \<longleftrightarrow>
     fold_ascii r = fold_ascii a \<or> r = 383 \<and> fold_ascii a = 115 \<or> r = 8490 \<and> fold_ascii a = 107"

section \<open>strings\<close>

text \<open>\<^verbatim>\<open>strings.EqualFold(s, t)\<close> for an ASCII string \<open>t\<close>.\<close>

definition EqualFold :: "string \<Rightarrow> string \<Rightarrow> bool" where
  "EqualFold s t = list_all2 folds_to_ascii (map fst (runes s)) (map code t)"

definition Join :: "string list \<Rightarrow> string \<Rightarrow> string" where
  "Join xs sep = (case xs of [] \<Rightarrow> [] | x # xs \<Rightarrow> x @ concat (map (\<lambda>y. sep @ y) xs))"

text \<open>\<^verbatim>\<open>strings.Split\<close> at a separator of one byte.\<close>

fun Split :: "char \<Rightarrow> string \<Rightarrow> string list" where
  "Split sep [] = [[]]"
| "Split sep (c # s) =
     (if c = sep then [] # Split sep s
      else case Split sep s of [] \<Rightarrow> [[c]] | f # fs \<Rightarrow> (c # f) # fs)"

fun fields_loop :: "(nat \<Rightarrow> bool) \<Rightarrow> string option \<Rightarrow> (nat \<times> string) list \<Rightarrow> string list" where
  "fields_loop f start [] = (case start of None \<Rightarrow> [] | Some w \<Rightarrow> [w])"
| "fields_loop f start ((r, bs) # rs) =
     (if f r then (case start of None \<Rightarrow> [] | Some w \<Rightarrow> [w]) @ fields_loop f None rs
      else fields_loop f (Some (case start of None \<Rightarrow> bs | Some w \<Rightarrow> w @ bs)) rs)"

definition FieldsFunc :: "string \<Rightarrow> (nat \<Rightarrow> bool) \<Rightarrow> string list" where
  "FieldsFunc s f = fields_loop f None (runes s)"

definition TrimSpace :: "string \<Rightarrow> string" where
  "TrimSpace s =
     concat (map snd (rev (dropWhile (IsSpace \<circ> fst) (rev (dropWhile (IsSpace \<circ> fst) (runes s))))))"

section \<open>Facts\<close>

lemma Split_nonempty [simp]: "Split sep s \<noteq> []"
  by (induction s) (auto split: list.split)

lemma Join_Split: "Join (Split sep s) [sep] = s"
proof (induction s)
  case (Cons c s)
  then show ?case by (cases "Split sep s") (auto simp: Join_def)
qed (simp add: Join_def)

lemma fields_loop_word:
  assumes "list_all (\<lambda>(r, _). \<not> f r) rs"
  shows "fields_loop f start (rs @ rs') =
    (if rs = [] then fields_loop f start rs'
     else fields_loop f (Some ((case start of None \<Rightarrow> [] | Some w \<Rightarrow> w) @ concat (map snd rs))) rs')"
  using assms
proof (induction rs arbitrary: start)
  case (Cons p rs)
  then show ?case by (cases p) (auto split: option.split)
qed simp

text \<open>Fields are cut at every separator: a list of words joined by separators is read back.\<close>

lemma FieldsFunc_sep:
  assumes "ascii w" and "w \<noteq> []" and "list_all (\<lambda>c. \<not> f (code c)) w" and "code c < 128" and "f (code c)"
  shows "FieldsFunc (w @ c # s) f = w # FieldsFunc s f"
proof -
  have "list_all (\<lambda>(r, _). \<not> f r) (map (\<lambda>c. (code c, [c])) w)"
    using assms(3) by (simp add: list_all_length)
  then show ?thesis
    using assms by (simp add: FieldsFunc_def runes_ascii_append fields_loop_word comp_def)
qed

lemma FieldsFunc_last:
  assumes "ascii w" and "w \<noteq> []" and "list_all (\<lambda>c. \<not> f (code c)) w"
  shows "FieldsFunc w f = [w]"
proof -
  have "list_all (\<lambda>(r, _). \<not> f r) (map (\<lambda>c. (code c, [c])) w)"
    using assms(3) by (simp add: list_all_length)
  then show ?thesis
    using assms fields_loop_word [of f "map (\<lambda>c. (code c, [c])) w" None "[]"]
    by (simp add: FieldsFunc_def runes_ascii_map comp_def)
qed

lemma EqualFold_ascii:
  assumes "ascii s"
  shows "EqualFold s t \<longleftrightarrow> map (fold_ascii \<circ> code) s = map (fold_ascii \<circ> code) t"
  using assms
proof (induction s arbitrary: t)
  case Nil
  then show ?case by (auto simp: EqualFold_def)
next
  case (Cons c s)
  then have "folds_to_ascii (code c) a \<longleftrightarrow> fold_ascii (code c) = fold_ascii a" for a
    by (auto simp: folds_to_ascii_def)
  with Cons show ?case by (cases t) (auto simp: EqualFold_def)
qed

text \<open>A separator that is an ASCII character cuts the decoding of a string.\<close>

lemma Decode_append_ascii:
  assumes "s \<noteq> []" and "code c < 128"
  shows "DecodeRuneInString (s @ c # t) = DecodeRuneInString s"
proof -
  obtain c0 s1 where s: "s = c0 # s1" using assms(1) by (cases s) auto
  have c: "\<not> in_range lo hi c" if "128 \<le> lo" for lo hi using that assms(2) by (auto simp: in_range_def)
  show ?thesis
  proof (cases s1)
    case Nil
    then show ?thesis using s by (simp add: c Let_def split: list.split)
  next
    case (Cons c1 s2)
    then show ?thesis
      using s by (cases s2; cases "tl s2"; cases t) (simp_all add: c Let_def)
  qed
qed

lemma runes_append_ascii:
  assumes "code c < 128"
  shows "runes (s @ c # t) = runes s @ runes (c # t)"
proof (induction s rule: runes.induct)
  case (1 s)
  show ?case
  proof (cases "s = []")
    case False
    obtain r sz where d: "DecodeRuneInString s = (r, sz)" by (cases "DecodeRuneInString s")
    then have "sz \<le> length s" using Decode_size [OF False] by simp
    then show ?thesis
      using 1 False d Decode_append_ascii [OF False assms, of t]
      by (simp add: runes.simps [of s] runes.simps [of "s @ c # t"])
  qed simp
qed

text \<open>A string that folds to another has only characters with a counterpart there.\<close>

lemma EqualFold_mem:
  assumes "EqualFold (s @ c # t) u" and "code c < 128"
  shows "\<exists>d \<in> set u. fold_ascii (code c) = fold_ascii (code d)"
proof -
  from assms obtain a us where "list_all2 folds_to_ascii (code c # map fst (runes t)) us" "map code u = a @ us"
    by (auto simp: EqualFold_def runes_append_ascii list_all2_append1)
  then obtain d where "d \<in> set (map code u)" "folds_to_ascii (code c) d" by (fastforce simp: list_all2_Cons1)
  with assms(2) show ?thesis by (auto simp: folds_to_ascii_def)
qed

lemma fields_loop_sep:
  "f r \<Longrightarrow> fields_loop f start (rs @ (r, bs) # rs') = fields_loop f start rs @ fields_loop f None rs'"
  by (induction f start rs rule: fields_loop.induct) (auto split: option.split)

lemma FieldsFunc_append:
  "code c < 128 \<Longrightarrow> f (code c) \<Longrightarrow> FieldsFunc (s @ c # t) f = FieldsFunc s f @ FieldsFunc t f"
  by (simp add: FieldsFunc_def runes_append_ascii fields_loop_sep)

lemma FieldsFunc_Nil [simp]: "FieldsFunc [] f = []"
  by (simp add: FieldsFunc_def)

lemma Join_Cons: "xs \<noteq> [] \<Longrightarrow> Join (x # xs) sep = x @ sep @ Join xs sep"
  by (cases xs) (simp_all add: Join_def)

lemma Split_append: "sep \<notin> set x \<Longrightarrow> Split sep (x @ sep # s) = x # Split sep s"
  by (induction x) auto

lemma Split_word: "sep \<notin> set x \<Longrightarrow> Split sep x = [x]"
  by (induction x) auto

lemma Split_Join:
  assumes "xs \<noteq> []" and "\<forall>x \<in> set xs. sep \<notin> set x"
  shows "Split sep (Join xs [sep]) = xs"
  using assms
proof (induction xs)
  case (Cons x xs)
  then show ?case
    by (cases "xs = []") (simp_all add: Join_Cons Split_append, simp add: Join_def Split_word)
qed simp

text \<open>Fields of values joined by a separator are the fields of the values.\<close>

lemma FieldsFunc_Join:
  assumes "code c < 128" and "f (code c)"
  shows "FieldsFunc (Join xs [c]) f = concat (map (\<lambda>x. FieldsFunc x f) xs)"
proof (induction xs)
  case Nil
  then show ?case by (simp add: Join_def)
next
  case (Cons x xs)
  show ?case
  proof (cases "xs = []")
    case True
    then show ?thesis by (simp add: Join_def)
  next
    case False
    then show ?thesis using Cons by (simp add: Join_Cons FieldsFunc_append [of c f x] assms)
  qed
qed

end
