(* ===== verification/HttpRequest.thy ===== *)
theory HttpRequest
  imports HttpWriter WsReader
begin

text \<open>
  HTTP requests as the handlers of the server and of the client's proxy see them, error responses of
  \<^verbatim>\<open>net/http\<close>, and the header keys both use.
\<close>

section \<open>Requests\<close>

text \<open>The body of a request: that of the HTTP request, or a reader on a WebSocket.\<close>

datatype req_body = HttpBody reader | WebSocketBody wsReader

record request =
  req_Method :: string
  req_ProtoMajor :: int
  req_ProtoMinor :: int
  req_Proto :: string
  req_URL_Scheme :: string
  req_URL_Host :: string
  req_Path :: string
  req_Header :: header
  req_ContentLength :: int
  req_Body :: req_body

text \<open>\<^verbatim>\<open>http.Error\<close> of the standard library.\<close>

definition http_Error :: "string \<Rightarrow> int \<Rightarrow> httpWriter \<Rightarrow> httpWriter" where
  "http_Error msg status w =
     (let h = hSet ''X-Content-Type-Options'' ''nosniff''
                (hSet ''Content-Type'' ''text/plain; charset=utf-8'' (hw_header w));
          w = hw_WriteHeader status (w\<lparr>hw_header := h\<rparr>)
      in snd (snd (hw_Write (bytes_of (msg @ [LF])) w)))"

definition StatusBadRequest :: int where [go_defs]: "StatusBadRequest = 400"
definition StatusInternalServerError :: int where [go_defs]: "StatusInternalServerError = 500"

section \<open>Header keys\<close>

text \<open>The keys that the handlers use are canonical already.\<close>

lemma canonical_keys [simp]:
  "CanonicalHeaderKey ''Accept'' = ''Accept''" "CanonicalHeaderKey ''TE'' = ''Te''"
  "CanonicalHeaderKey ''Connection'' = ''Connection''" "CanonicalHeaderKey ''Upgrade'' = ''Upgrade''"
  "CanonicalHeaderKey ''Content-Length'' = ''Content-Length''"
  "CanonicalHeaderKey ''Content-Type'' = ''Content-Type''"
  "CanonicalHeaderKey ''Grpc-Web-Only'' = ''Grpc-Web-Only''"
  "CanonicalHeaderKey ''Sec-Websocket-Protocol'' = ''Sec-Websocket-Protocol''"
  "CanonicalHeaderKey ''X-Content-Type-Options'' = ''X-Content-Type-Options''"
  by code_simp+

lemma http_Error_sent:
  assumes "hw_sent w = None" and "hw_healthy w"
  shows "\<exists>h. hw_sent (http_Error msg status w) = Some (status, h) \<and> hGet h ''Content-Type'' = ''text/plain; charset=utf-8'' \<and>
    hw_body (http_Error msg status w) = hw_body w @ bytes_of (msg @ [LF])"
proof -
  define w1 where "w1 = hw_WriteHeader status (w\<lparr>hw_header := hSet ''X-Content-Type-Options'' ''nosniff''
    (hSet ''Content-Type'' ''text/plain; charset=utf-8'' (hw_header w))\<rparr>)"
  have w1: "hw_healthy w1" "hw_body w1 = hw_body w"
    "hw_sent w1 = Some (status, hSet ''X-Content-Type-Options'' ''nosniff''
      (hSet ''Content-Type'' ''text/plain; charset=utf-8'' (hw_header w)))"
    using assms by (simp_all add: w1_def hw_healthy_def hw_WriteHeader_def)
  obtain n e w2 where w2: "hw_Write (bytes_of (msg @ [LF])) w1 = (n, e, w2)"
    by (cases "hw_Write (bytes_of (msg @ [LF])) w1") auto
  have "http_Error msg status w = w2" using w2 by (simp add: http_Error_def w1_def Let_def)
  with hw_Write_healthy(4) [OF w1(1) w2] hw_Write_sent(1) [OF w2] w1 show ?thesis
    by (simp add: hw_WriteHeader_def hSet_def hGet_def)
qed

end
