(* ===== verification/Server.thy ===== *)
theory Server
  imports WebRoundTrip WsRoundTrip GoStrings HttpRequest
begin

text \<open>
  \<^verbatim>\<open>server/server.go\<close> and \<^verbatim>\<open>server/options.go\<close>: the HTTP handler in front of a gRPC server.
  It decides for each request whether it is a plain HTTP request, a gRPC request that can be answered
  as it is, one whose answer is downgraded to gRPC-Web, or one that comes over a WebSocket.

  The gRPC server, the plain HTTP handler and the WebSocket library are outside the repository. They
  are arguments: what the gRPC server does with its response writer for a request (\<open>rw_op list\<close>),
  what the plain handler makes of the response, and what \<^verbatim>\<open>websocket.Accept\<close> returns.
\<close>

section \<open>The gRPC server\<close>

text \<open>What a gRPC server does when it writes straight to the HTTP response writer.\<close>

fun plain_step :: "rw_op \<Rightarrow> httpWriter \<Rightarrow> httpWriter" where
  "plain_step (OpHeader f) w = w\<lparr>hw_header := f (hw_header w)\<rparr>"
| "plain_step (OpWriteHeader c) w = hw_WriteHeader c w"
| "plain_step (OpWrite buf) w = snd (snd (hw_Write buf w))"
| "plain_step OpFlush w = hw_Flush w"

definition plain_handle :: "rw_op list \<Rightarrow> httpWriter \<Rightarrow> httpWriter" where
  "plain_handle ops w = fold plain_step ops w"

fun ww_of :: "rw_op \<Rightarrow> ww_op" where
  "ww_of (OpHeader f) = WsHeader f"
| "ww_of (OpWriteHeader c) = WsWriteHeader c"
| "ww_of (OpWrite buf) = WsWrite buf"
| "ww_of OpFlush = WsFlush"

section \<open>Options\<close>

record options =
  preferGRPCWeb :: bool

definition PreferGRPCWeb :: "bool \<Rightarrow> options \<Rightarrow> options" where
  "PreferGRPCWeb prefer o' = o'\<lparr>preferGRPCWeb := prefer\<rparr>"

definition apply_options :: "(options \<Rightarrow> options) list \<Rightarrow> options" where
  "apply_options opts = fold (\<lambda>opt. opt) opts \<lparr>preferGRPCWeb = False\<rparr>"

section \<open>Classification of requests\<close>

definition isContentTypeValid :: "string \<Rightarrow> bool" where
  "isContentTypeValid contentType =
     (let (ct, _) = Split2 contentType ''+'' in ct = ''application/grpc'' \<or> ct = ''application/grpc-web'')"

definition missing_header :: "string \<Rightarrow> go_error" where
  "missing_header field = ErrNew (''missing '' @ [CHR 0x27] @ field @ [CHR 0x27] @
     '' header in gRPC-websocket request (this usually means your proxy or load balancer does not support websockets)'')"

definition isWebSocketUpgrade :: "header \<Rightarrow> bool \<times> err" where
  "isWebSocketUpgrade h =
     (if hGet h ''Sec-Websocket-Protocol'' \<noteq> SubprotocolName then (False, None)
      else if \<not> EqualFold (hGet h ''Connection'') ''upgrade'' then
        (False, Some (missing_header ''Connection: Upgrade''))
      else if \<not> EqualFold (hGet h ''Upgrade'') ''websocket'' then
        (False, Some (missing_header ''Upgrade: websocket''))
      else (True, None))"

definition spaceOrComma :: "nat \<Rightarrow> bool" where
  "spaceOrComma r \<longleftrightarrow> r = 44 \<or> IsSpace r"

section \<open>gRPC-Web\<close>

text \<open>
  \<open>serve\<close> is the gRPC server; \<open>order\<close> the order in which \<^verbatim>\<open>Finalize\<close> visits the header
  map. The request is changed in place before the gRPC server sees it.
\<close>

definition handleGRPCWeb ::
  "(request \<Rightarrow> rw_op list) \<Rightarrow> (header \<Rightarrow> string list) \<Rightarrow> string list \<Rightarrow> options \<Rightarrow> request \<Rightarrow> httpWriter \<Rightarrow> httpWriter" where
  "handleGRPCWeb serve order validPaths srvOpts req w =
     (let isDowngradableMethod = req_Path req \<in> set validPaths in
      if req_ProtoMajor req \<noteq> 2 \<and> \<not> isDowngradableMethod then
        http_Error ''Method cannot be downgraded'' StatusInternalServerError w
      else
        let req = (if req_ProtoMajor req \<noteq> 2
              then req\<lparr>req_ProtoMajor := 2, req_ProtoMinor := 0, req_Proto := ''HTTP/2.0''\<rparr> else req);
            acceptedContentTypes = FieldsFunc (Join (hvalues (req_Header req) ''Accept'') '','') spaceOrComma;
            acceptGRPCWeb = (Find acceptedContentTypes ''application/grpc-web'' \<noteq> -1);
            acceptGRPC = (\<not> acceptGRPCWeb \<or> Find acceptedContentTypes ''application/grpc'' \<noteq> -1);
            acceptGRPC = (if preferGRPCWeb srvOpts \<and> isDowngradableMethod \<and> acceptGRPCWeb then False else acceptGRPC) in
        if hGet (req_Header req) ''TE'' = ''trailers'' \<and> acceptGRPC \<and>
           length (hvalues (req_Header req) GRPCWebOnlyHeader) = 0 then
          plain_handle (serve req) w
        else if \<not> acceptGRPCWeb then
          http_Error ''Client neither supports trailers nor gRPC web responses'' StatusInternalServerError w
        else if \<not> isDowngradableMethod then
          http_Error ''Client requires a gRPC-Web response to a method that cannot be downgraded'' StatusBadRequest w
        else
          let req = req\<lparr>req_Header := hSet ''TE'' ''trailers'' (req_Header req)\<rparr>;
              transcodingWriter = handle (serve req) (NewResponseWriter w)
          in rw_w (snd (Finalize (order (Header transcodingWriter)) transcodingWriter)))"

section \<open>gRPC over WebSockets\<close>

text \<open>The request that the gRPC server gets: an HTTP/2 POST with the WebSocket's messages as body.\<close>

definition websocket_key :: "string \<Rightarrow> bool" where
  "websocket_key k = HasPrefix k ''Sec-Websocket-''"

definition grpc_request :: "ws_arrival list \<Rightarrow> request \<Rightarrow> request" where
  "grpc_request conn req =
     (let hdr = hDel ''Upgrade'' (hDel ''Connection'' (req_Header req));
          hdr = fold hdelete (filter websocket_key (map fst hdr)) hdr;
          hdr = hDel ''Content-Length'' hdr
      in req\<lparr>req_ProtoMajor := 2, req_ProtoMinor := 0, req_Proto := ''HTTP/2.0'', req_Method := ''POST'',
           req_Header := hdr, req_ContentLength := -1, req_Body := WebSocketBody (newWebSocketReader conn)\<rparr>)"

text \<open>
  The gRPC server writes its response into a pipe whose other end a goroutine reads and sends as
  messages. If the goroutine stops early, nobody reads what is left: the pipe's writer waits for ever. The
  theory \<open>WsHandler\<close> has the steps of both and shows that every interleaving ends like this.
\<close>

datatype close_code = NormalClosure | InternalError

datatype handled =
    Responded httpWriter
  | OverWebSocket ws_out close_code string
  | Blocked ws_out

definition handleGRPCWS ::
  "(request \<Rightarrow> rw_op list) \<Rightarrow> (header \<Rightarrow> string list) \<Rightarrow> (request \<Rightarrow> httpWriter \<Rightarrow> httpWriter \<times> (go_error + ws_arrival list \<times> ws_out)) \<Rightarrow>
     request \<Rightarrow> httpWriter \<Rightarrow> handled" where
  "handleGRPCWS serve order accept req w =
     (case accept req w of
        (w, Inl e) \<Rightarrow>
          Responded (http_Error (''accepting websocket connection: '' @ Error e) StatusInternalServerError w)
      | (_, Inr (conn, out)) \<Rightarrow>
          let grpcReq = grpc_request conn req;
              grpcResponseWriter = ww_handle (map ww_of (serve grpcReq)) (newWebSocketResponseWriter []);
              (closeErr, grpcResponseWriter) = Close (order (ws_Header grpcResponseWriter)) grpcResponseWriter;
              (writeErr, rest, out) = GrpcWebSocket.Write (pipe_reader (ww_writer grpcResponseWriter)) out in
          if unread rest then Blocked out
          else
            case (writeErr, closeErr) of
              (Some e, _) \<Rightarrow> OverWebSocket out InternalError (Error e)
            | (None, Some e) \<Rightarrow> OverWebSocket out InternalError (Error e)
            | (None, None) \<Rightarrow> OverWebSocket out NormalClosure [])"

section \<open>The handler\<close>

text \<open>
  \<open>services\<close> is what \<^verbatim>\<open>GetServiceInfo\<close> returns: per service its methods, each with the flag
  \<^verbatim>\<open>IsClientStream\<close>.
\<close>

definition validGRPCWebPaths :: "(string \<times> (string \<times> bool) list) list \<Rightarrow> string list" where
  "validGRPCWebPaths services =
     concat (map (\<lambda>(svcName, methods).
       map (\<lambda>(name, _). ''/'' @ svcName @ ''/'' @ name) (filter (\<lambda>(_, isClientStream). \<not> isClientStream) methods)) services)"

definition CreateDowngradingHandler ::
  "(request \<Rightarrow> rw_op list) \<Rightarrow> (header \<Rightarrow> string list) \<Rightarrow> (request \<Rightarrow> httpWriter \<Rightarrow> httpWriter \<times> (go_error + ws_arrival list \<times> ws_out)) \<Rightarrow>
     (string \<times> (string \<times> bool) list) list \<Rightarrow> (request \<Rightarrow> httpWriter \<Rightarrow> httpWriter) \<Rightarrow> (options \<Rightarrow> options) list \<Rightarrow>
     request \<Rightarrow> httpWriter \<Rightarrow> handled" where
  "CreateDowngradingHandler serve order accept services httpHandler opts req w =
     (let validPaths = validGRPCWebPaths services; serverOpts = apply_options opts in
      case isWebSocketUpgrade (req_Header req) of
        (_, Some e) \<Rightarrow> Responded (http_Error (Error e) StatusBadRequest w)
      | (True, None) \<Rightarrow> handleGRPCWS serve order accept req w
      | (False, None) \<Rightarrow>
          if \<not> isContentTypeValid (hGet (req_Header req) ''Content-Type'') then Responded (httpHandler req w)
          else
            let req = req\<lparr>req_Header := hSet ''Content-Type'' ''application/grpc'' (req_Header req)\<rparr>
            in Responded (handleGRPCWeb serve order validPaths serverOpts req w))"

section \<open>Negotiation\<close>

text \<open>
  What the handler is meant to decide, stated on its own: which kinds of response are possible for a
  request, and which of them the server would rather give. A client accepts a content type if one of its
  \<^verbatim>\<open>Accept\<close> headers lists it.
\<close>

definition accepts :: "request \<Rightarrow> string \<Rightarrow> bool" where
  "accepts req t \<longleftrightarrow> (\<exists>v \<in> set (hvalues (req_Header req) ''Accept''). t \<in> set (FieldsFunc v spaceOrComma))"

definition takes_trailers :: "request \<Rightarrow> bool" where
  "takes_trailers req \<longleftrightarrow> hGet (req_Header req) ''TE'' = ''trailers''"

definition web_only :: "request \<Rightarrow> bool" where
  "web_only req \<longleftrightarrow> hvalues (req_Header req) GRPCWebOnlyHeader \<noteq> []"

datatype response_kind = NativeGRPC | DowngradedWeb

text \<open>
  A native response needs a client that takes trailers and does not rule gRPC out (by asking for gRPC-Web
  only, or by accepting gRPC-Web without accepting gRPC), and HTTP/2 if the method streams from the
  client. A downgraded response needs a client that accepts it and a method that does not stream from the
  client.
\<close>

fun possible :: "string list \<Rightarrow> request \<Rightarrow> response_kind \<Rightarrow> bool" where
  "possible validPaths req NativeGRPC \<longleftrightarrow>
     takes_trailers req \<and> \<not> web_only req \<and>
     (accepts req ''application/grpc-web'' \<longrightarrow> accepts req ''application/grpc'') \<and>
     (req_Path req \<in> set validPaths \<or> req_ProtoMajor req = 2)"
| "possible validPaths req DowngradedWeb \<longleftrightarrow>
     accepts req ''application/grpc-web'' \<and> req_Path req \<in> set validPaths"

definition preference :: "options \<Rightarrow> response_kind list" where
  "preference opts = (if preferGRPCWeb opts then [DowngradedWeb, NativeGRPC] else [NativeGRPC, DowngradedWeb])"

definition as_http2 :: "request \<Rightarrow> request" where
  "as_http2 req =
     (if req_ProtoMajor req = 2 then req
      else req\<lparr>req_ProtoMajor := 2, req_ProtoMinor := 0, req_Proto := ''HTTP/2.0''\<rparr>)"

definition with_trailers :: "request \<Rightarrow> request" where
  "with_trailers req = req\<lparr>req_Header := hSet ''TE'' ''trailers'' (req_Header req)\<rparr>"

text \<open>A downgraded response: the gRPC server writes through the transcoding writer.\<close>

definition web_response :: "(header \<Rightarrow> string list) \<Rightarrow> rw_op list \<Rightarrow> httpWriter \<Rightarrow> httpWriter" where
  "web_response order ops w =
     (let rw = handle ops (NewResponseWriter w) in rw_w (snd (Finalize (order (Header rw)) rw)))"

fun respond :: "(request \<Rightarrow> rw_op list) \<Rightarrow> (header \<Rightarrow> string list) \<Rightarrow> request \<Rightarrow> httpWriter \<Rightarrow> response_kind \<Rightarrow> httpWriter" where
  "respond serve order req w NativeGRPC = plain_handle (serve (as_http2 req)) w"
| "respond serve order req w DowngradedWeb = web_response order (serve (with_trailers (as_http2 req))) w"

text \<open>
  The error if no kind of response is possible: the client's fault, if it insists on gRPC-Web for a
  method that cannot be downgraded, unless it does so over HTTP/1.
\<close>

definition refusal :: "request \<Rightarrow> string list \<Rightarrow> string \<times> int" where
  "refusal req validPaths =
     (if req_ProtoMajor req = 2 \<and> accepts req ''application/grpc-web''
      then (''Client requires a gRPC-Web response to a method that cannot be downgraded'', 400)
      else if req_Path req \<in> set validPaths \<or> req_ProtoMajor req = 2
      then (''Client neither supports trailers nor gRPC web responses'', 500)
      else (''Method cannot be downgraded'', 500))"

lemma accepts_fields:
  "t \<in> set (FieldsFunc (Join vs '','') spaceOrComma) \<longleftrightarrow> (\<exists>v \<in> set vs. t \<in> set (FieldsFunc v spaceOrComma))"
  using FieldsFunc_Join [of "CHR '',''" spaceOrComma vs] by (simp add: spaceOrComma_def)

lemma as_http2_simps [simp]: "req_Header (as_http2 req) = req_Header req" "req_Path (as_http2 req) = req_Path req"
  by (simp_all add: as_http2_def)

lemma handleGRPCWeb_chooses:
  "handleGRPCWeb serve order validPaths opts req w =
     (case find (possible validPaths req) (preference opts) of
        Some kind \<Rightarrow> respond serve order req w kind
      | None \<Rightarrow> http_Error (fst (refusal req validPaths)) (snd (refusal req validPaths)) w)"
proof -
  have eq: "(if req_ProtoMajor req \<noteq> 2
      then req\<lparr>req_ProtoMajor := 2, req_ProtoMinor := 0, req_Proto := ''HTTP/2.0''\<rparr> else req) = as_http2 req"
    by (simp add: as_http2_def)
  show ?thesis
    unfolding handleGRPCWeb_def eq Let_def Find_mem_iff accepts_fields as_http2_simps
    unfolding accepts_def [symmetric] takes_trailers_def [symmetric] preference_def refusal_def
    by (cases "req_ProtoMajor req = 2"; cases "req_Path req \<in> set validPaths";
        cases "accepts req ''application/grpc-web''"; cases "preferGRPCWeb opts")
      (simp_all add: web_only_def web_response_def with_trailers_def Let_def StatusInternalServerError_def
        StatusBadRequest_def)
qed

section \<open>Content types\<close>

lemma isContentTypeValid_iff:
  "isContentTypeValid ct \<longleftrightarrow>
     (\<exists>base \<in> {''application/grpc'', ''application/grpc-web''}. ct = base \<or> (\<exists>sub. ct = base @ ''+'' @ sub))"
  using Split2_fst_iff [of "CHR ''+''" "''application/grpc''" ct] Split2_fst_iff [of "CHR ''+''" "''application/grpc-web''" ct]
  by (simp add: isContentTypeValid_def split_beta)

section \<open>Properties\<close>

text \<open>
  Claim C6. The handler for gRPC requests gives every client the best response that it can take. Of the
  two kinds of response, native gRPC and gRPC-Web, those are possible that the client's headers, the
  protocol version and the method allow; the handler gives the first possible one in the server's order
  of preference, and an error, without a call of the gRPC server, exactly if none is possible. Since the
  order only ranks what is possible, a server that prefers gRPC-Web still answers natively where the
  method streams from the client.
\<close>

theorem handleGRPCWeb_negotiates:
  "handleGRPCWeb serve order validPaths opts req w =
     (case find (possible validPaths req) (preference opts) of
        Some NativeGRPC \<Rightarrow> plain_handle (serve (as_http2 req)) w
      | Some DowngradedWeb \<Rightarrow> web_response order (serve (with_trailers (as_http2 req))) w
      | None \<Rightarrow> http_Error (fst (refusal req validPaths)) (snd (refusal req validPaths)) w)"
  unfolding handleGRPCWeb_chooses by (auto split: option.split response_kind.split)

text \<open>
  A request that cannot be served correctly is refused with status 400 or 500 and a text, and
  the gRPC server is not called: a method that streams from the client over HTTP/1, or a client that
  can take neither trailers nor, for the method it calls, a gRPC-Web response.
\<close>

theorem unservable_refused:
  assumes "req_ProtoMajor req \<noteq> 2 \<and> req_Path req \<notin> set validPaths \<or>
      \<not> (takes_trailers req \<and> \<not> web_only req) \<and>
      \<not> (accepts req ''application/grpc-web'' \<and> req_Path req \<in> set validPaths)"
    and "hw_sent w = None" and "hw_healthy w" and "hw_body w = []"
  shows "\<exists>status h msg. hw_sent (handleGRPCWeb serve order validPaths opts req w) = Some (status, h) \<and>
    status \<in> {400, 500} \<and> hw_body (handleGRPCWeb serve order validPaths opts req w) = bytes_of (msg @ [LF]) \<and>
    handleGRPCWeb serve order validPaths opts req w = handleGRPCWeb serve' order validPaths opts req w"
proof -
  have "\<not> possible validPaths req kind" for kind using assms(1) by (cases kind) auto
  then have "find (possible validPaths req) (preference opts) = None" by (simp add: find_None_iff)
  moreover have "snd (refusal req validPaths) \<in> {400, 500}" by (simp add: refusal_def)
  ultimately show ?thesis
    using http_Error_sent [OF assms(2,3), of "fst (refusal req validPaths)" "snd (refusal req validPaths)"] assms(4)
    by (auto simp: handleGRPCWeb_chooses)
qed

text \<open>
  The gRPC server sees a call over a WebSocket as an HTTP/2 POST to the same path, with the
  headers of the upgrade request without those of the upgrade itself and without a content length.
\<close>

theorem grpc_request_headers:
  "hindex (req_Header (grpc_request conn req)) k =
     (if k \<in> {''Connection'', ''Upgrade'', ''Content-Length''} \<or> (\<exists>t. k = ''Sec-Websocket-'' @ t) then None
      else hindex (req_Header req) k) \<and>
   req_Method (grpc_request conn req) = ''POST'' \<and> req_ProtoMajor (grpc_request conn req) = 2 \<and>
   req_Path (grpc_request conn req) = req_Path req \<and>
   req_Body (grpc_request conn req) = WebSocketBody (newWebSocketReader conn)"
proof -
  let ?h = "hDel ''Upgrade'' (hDel ''Connection'' (req_Header req))"
  have keys: "k \<in> set (filter websocket_key (map fst ?h)) \<longleftrightarrow> websocket_key k \<and> hindex ?h k \<noteq> None"
    using hindex_None_iff [of ?h k] by auto
  have "hindex (req_Header (grpc_request conn req)) k =
      (if k = ''Content-Length'' \<or> websocket_key k then None else hindex ?h k)"
    using keys by (auto simp: grpc_request_def Let_def hDel_def hmap.index_delete_all)
  then show ?thesis
    by (auto simp: hDel_def websocket_key_def HasPrefix_iff) (simp_all add: grpc_request_def Let_def)
qed

text \<open>
  Exactly the methods that do not stream from the client may be called by gRPC-Web.
\<close>

theorem validGRPCWebPaths_exact:
  "path \<in> set (validGRPCWebPaths services) \<longleftrightarrow>
     (\<exists>svc methods name. (svc, methods) \<in> set services \<and> (name, False) \<in> set methods \<and>
        path = ''/'' @ svc @ ''/'' @ name)"
  by (force simp: validGRPCWebPaths_def)

text \<open>
  A request that is neither a WebSocket upgrade for the program's subprotocol nor of a gRPC
  content type reaches the plain HTTP handler as it came, and its response is left alone.
\<close>

theorem plain_http_untouched:
  assumes "hGet (req_Header req) ''Sec-Websocket-Protocol'' \<noteq> ''grpc-ws''"
    and "\<nexists>base. base \<in> {''application/grpc'', ''application/grpc-web''} \<and>
      (hGet (req_Header req) ''Content-Type'' = base \<or> (\<exists>sub. hGet (req_Header req) ''Content-Type'' = base @ ''+'' @ sub))"
  shows "CreateDowngradingHandler serve order accept services httpHandler opts req w = Responded (httpHandler req w)"
proof -
  have "\<not> isContentTypeValid (hGet (req_Header req) ''Content-Type'')"
    using assms(2) unfolding isContentTypeValid_iff by blast
  with assms(1) show ?thesis
    by (simp add: CreateDowngradingHandler_def isWebSocketUpgrade_def SubprotocolName_def Let_def)
qed

lemma ws_answer:
  assumes "accept req w = (w', Inr (conn, out))" and "ws_healthy out"
    and "ops = map ww_of (serve (grpc_request conn req))"
    and "ks = order (ws_Header (ww_handle ops (newWebSocketResponseWriter [])))" and "sends_frames ks ops fs"
  obtains out' where "handleGRPCWS serve order accept req w = OverWebSocket out' NormalClosure []"
    and "ws_sent out' = ws_messages ks ops out" and "ws_sent out' = ws_sent out @ frame_list (response_frames ks ops fs)"
proof -
  obtain rw where rw: "Close ks (ww_handle ops (newWebSocketResponseWriter [])) = (None, rw)"
    "rd_content (pipe_reader (ww_writer rw)) = frames_bytes (response_frames ks ops fs)"
    "list_all frame_ok (response_frames ks ops fs)" by (rule response_pipe [OF assms(5)])
  obtain out' where "GrpcWebSocket.Write (pipe_reader (ww_writer rw)) out = (None, [], out')"
    "ws_sent out' = ws_sent out @ frame_list (response_frames ks ops fs)"
    by (rule Write_response [OF rw(2,3) assms(2)])
  with rw(1) assms(1,3,4) that show ?thesis by (simp add: handleGRPCWS_def Let_def unread_def ws_messages_def)
qed

text \<open>
  A call over a WebSocket whose connection does not fail is answered in full: the handler
  returns, every frame of the response has been sent as one message, in order, and the WebSocket is
  closed normally.
\<close>

theorem ws_handler_completes:
  assumes "accept req w = (w', Inr (conn, out))" and "ws_healthy out"
    and "ops = map ww_of (serve (grpc_request conn req))"
    and "ks = order (ws_Header (ww_handle ops (newWebSocketResponseWriter [])))" and "sends_frames ks ops fs"
  shows "\<exists>out'. handleGRPCWS serve order accept req w = OverWebSocket out' NormalClosure [] \<and>
    ws_sent out' = ws_sent out @ frame_list (response_frames ks ops fs)"
  by (rule ws_answer [where accept = accept and serve = serve and order = order, OF assms]) blast

text \<open>
  Claim C37. If the WebSocket fails on any message but the last of a response, the handler never
  returns: the goroutine that reads the gRPC server's pipe ends without closing it, and the gRPC server
  waits for ever for its next write to be read.
\<close>

theorem ws_failure_blocks:
  assumes "accept req w = (w', Inr (conn, out))"
    and "ops = map ww_of (serve (grpc_request conn req))"
    and "ks = order (ws_Header (ww_handle ops (newWebSocketResponseWriter [])))" and "sends_frames ks ops fs"
    and "ws_results out = replicate k None @ Some e # rs"
    and "Suc k < length (response_frames ks ops fs)"
  shows "\<exists>out'. handleGRPCWS serve order accept req w = Blocked out' \<and>
    ws_sent out' = ws_sent out @ take k (frame_list (response_frames ks ops fs))"
proof -
  define gs where "gs = response_frames ks ops fs"
  obtain rw where rw: "Close ks (ww_handle ops (newWebSocketResponseWriter [])) = (None, rw)"
    "rd_content (pipe_reader (ww_writer rw)) = frames_bytes gs" "list_all frame_ok gs"
    unfolding gs_def by (rule response_pipe [OF assms(4)])
  have "rd_content (pipe_reader (ww_writer rw)) = frames_bytes (take (Suc k) gs) @ frames_bytes (drop (Suc k) gs)"
    using rw(2) frames_bytes_simps(3) [of "take (Suc k) gs" "drop (Suc k) gs"] by simp
  moreover have "list_all frame_ok (take (Suc k) gs)" using rw(3) by (simp add: list_all_length)
  ultimately obtain r2 out' where w: "GrpcWebSocket.Write (pipe_reader (ww_writer rw)) out = (Some e, r2, out')"
    "rd_content r2 = frames_bytes (drop (Suc k) gs)" "pipe_like r2"
    "ws_sent out' = ws_sent out @ take k (frame_list (take (Suc k) gs))"
    by (rule Write_failing [OF pipe_reader_clean pipe_reader_pipe_like _ _ assms(5), of "ww_writer rw" "take (Suc k) gs"])
      (use assms(6) gs_def in simp_all)
  have "drop (Suc k) gs \<noteq> []" using assms(6) gs_def by simp
  then have "rd_content r2 \<noteq> []" using w(2) by (cases "drop (Suc k) gs") (auto simp: mk_frame_Cons)
  with w(3) have "unread r2" by (rule pipe_like_unread)
  moreover have "take k (frame_list (take (Suc k) gs)) = take k (frame_list gs)"
    by (simp add: frame_list_def take_map min_def)
  ultimately show ?thesis
    using rw(1) w(1,4) assms(1-3) by (simp add: handleGRPCWS_def Let_def gs_def)
qed

text \<open>
  Claim C40. The upgrade check compares the \<^verbatim>\<open>Connection\<close> header as a whole: a request whose header
  lists several options, separated by commas, is refused with status 400 as if the header were missing,
  even if the upgrade is one of them, as HTTP allows.
\<close>

theorem connection_list_refused:
  assumes "hGet (req_Header req) ''Sec-Websocket-Protocol'' = ''grpc-ws''"
    and "hGet (req_Header req) ''Connection'' = Join opts '',''" and "2 \<le> length opts"
    and "hw_sent w = None" and "hw_healthy w"
  shows "\<exists>w' h. CreateDowngradingHandler serve order accept services httpHandler srvOpts req w = Responded w' \<and>
    hw_sent w' = Some (400, h) \<and>
    hw_body w' = hw_body w @ bytes_of (Error (missing_header ''Connection: Upgrade'') @ [LF])"
proof -
  obtain o1 o2 os where "opts = o1 # o2 # os" using assms(3) by (cases opts; cases "tl opts") auto
  then have v: "hGet (req_Header req) ''Connection'' = o1 @ CHR '','' # Join (o2 # os) '',''"
    using assms(2) by (simp add: Join_Cons)
  have "\<not> EqualFold (hGet (req_Header req) ''Connection'') ''upgrade''"
    unfolding v by (rule notI, drule EqualFold_mem) (simp_all add: fold_ascii_def)
  then have "CreateDowngradingHandler serve order accept services httpHandler srvOpts req w =
      Responded (http_Error (Error (missing_header ''Connection: Upgrade'')) StatusBadRequest w)"
    using assms(1) by (simp add: CreateDowngradingHandler_def isWebSocketUpgrade_def SubprotocolName_def Let_def)
  with http_Error_sent [OF assms(4,5)] show ?thesis by (fastforce simp: StatusBadRequest_def)
qed

section \<open>Instances\<close>

definition sample_request :: "header \<Rightarrow> request" where
  "sample_request h =
     \<lparr>req_Method = ''POST'', req_ProtoMajor = 1, req_ProtoMinor = 1, req_Proto = ''HTTP/1.1'',
      req_URL_Scheme = [], req_URL_Host = [], req_Path = ''/echo.Echo/Stream'', req_Header = h, req_ContentLength = -1, req_Body = HttpBody []\<rparr>"

theorem unservable_refused_witness:
  "\<exists>status h. hw_sent (handleGRPCWeb (\<lambda>_. [OpWriteHeader 200]) (map fst) [''/echo.Echo/Unary''] \<lparr>preferGRPCWeb = False\<rparr>
     (sample_request []) new_httpWriter) = Some (status, h) \<and> status \<in> {400, 500}"
  using unservable_refused [of "sample_request []" "[''/echo.Echo/Unary'']" new_httpWriter
      "\<lambda>_. [OpWriteHeader 200]" "map fst" "\<lparr>preferGRPCWeb = False\<rparr>" "\<lambda>_. []"]
  by (auto simp: sample_request_def)

theorem plain_http_untouched_witness:
  "CreateDowngradingHandler (\<lambda>_. []) (map fst) (\<lambda>_ w. (w, Inl EOF)) [] (\<lambda>_. hw_WriteHeader 404) []
     (sample_request [(''Content-Type'', [''text/html''])]) new_httpWriter = Responded (hw_WriteHeader 404 new_httpWriter)"
  by (rule plain_http_untouched) (auto simp: sample_request_def hGet_def hvalues_def hindex_def)

abbreviation sample_accept :: "err list \<Rightarrow> request \<Rightarrow> httpWriter \<Rightarrow> httpWriter \<times> (go_error + ws_arrival list \<times> ws_out)" where
  "sample_accept results \<equiv> \<lambda>_ w. (w, Inr ([], \<lparr>ws_sent = [], ws_results = results\<rparr>))"

lemma sample_response: "closing_text [] [WsWriteHeader 200] = []" "ww_header (ww_handle [WsWriteHeader 200] (newWebSocketResponseWriter [])) = []"
  "Header_Write (response_headers []) = []"
  by code_simp+

lemma sample_sends_frames:
  "sends_frames [] [WsWriteHeader 200] []" "map fst (ws_Header (ww_handle [WsWriteHeader 200] (newWebSocketResponseWriter []))) = []"
  "length (response_frames [] [WsWriteHeader 200] []) = 2"
  by (simp_all add: sends_frames_def response_frames_def ws_Header_def sample_response)

theorem ws_handler_completes_witness:
  "\<exists>out'. handleGRPCWS (\<lambda>_. [OpWriteHeader 200]) (map fst) (sample_accept []) (sample_request []) new_httpWriter =
     OverWebSocket out' NormalClosure [] \<and> length (ws_sent out') = 2"
  using ws_handler_completes [of "sample_accept []" "sample_request []" new_httpWriter new_httpWriter "[]"
      "\<lparr>ws_sent = [], ws_results = []\<rparr>" "[WsWriteHeader 200]" "\<lambda>_. [OpWriteHeader 200]" "[]" "map fst" "[]"]
    sample_sends_frames by (auto simp: ws_healthy_def frame_list_def)

theorem ws_failure_blocks_witness:
  "\<exists>out'. handleGRPCWS (\<lambda>_. [OpWriteHeader 200]) (map fst) (sample_accept [Some EOF]) (sample_request []) new_httpWriter =
     Blocked out' \<and> ws_sent out' = []"
  using ws_failure_blocks [of "sample_accept [Some EOF]" "sample_request []" new_httpWriter new_httpWriter "[]"
      "\<lparr>ws_sent = [], ws_results = [Some EOF]\<rparr>" "[WsWriteHeader 200]" "\<lambda>_. [OpWriteHeader 200]" "[]" "map fst" "[]" 0 EOF "[]"]
    sample_sends_frames by auto

theorem connection_list_refused_witness:
  "\<exists>w' h. CreateDowngradingHandler (\<lambda>_. []) (map fst) (\<lambda>_ w. (w, Inl EOF)) [] (\<lambda>_ w. w) []
     (sample_request [(''Sec-Websocket-Protocol'', [''grpc-ws'']), (''Connection'', [''keep-alive, Upgrade''])]) new_httpWriter =
       Responded w' \<and> hw_sent w' = Some (400, h)"
proof -
  let ?req = "sample_request [(''Sec-Websocket-Protocol'', [''grpc-ws'']), (''Connection'', [''keep-alive, Upgrade''])]"
  have "hGet (req_Header ?req) ''Sec-Websocket-Protocol'' = ''grpc-ws''"
    "hGet (req_Header ?req) ''Connection'' = Join [''keep-alive'', '' Upgrade''] '',''"
    by (simp_all add: sample_request_def hGet_def hvalues_def hindex_def Join_def)
  from connection_list_refused [OF this, of new_httpWriter "\<lambda>_. []" "map fst" "\<lambda>_ w. (w, Inl EOF)" "[]" "\<lambda>_ w. w" "[]"]
  show ?thesis by auto
qed

end
