(* ===== verification/HttpUtils.thy ===== *)
theory HttpUtils
  imports GoStrings GoIO HttpHeader Utils
begin

text \<open>
  \<^verbatim>\<open>internal/httputils/error_message.go\<close>: an error value from the response of an HTTP server that
  did not answer with success, with the text of a short plain-text body.
\<close>

definition maxBodyBytes :: nat where "maxBodyBytes = 1024"

text \<open>
  \<^verbatim>\<open>regexp.MustCompile(`;\s*`).Split(s, 2)\<close>: at most one cut, at the first semicolon, which takes
  the white space after it along.
\<close>

definition regexp_space :: "char \<Rightarrow> bool" where
  "regexp_space c \<longleftrightarrow> code c \<in> {9, 10, 12, 13, 32}"

definition httpHeaderOptSeparatorRegex_Split2 :: "string \<Rightarrow> string list" where
  "httpHeaderOptSeparatorRegex_Split2 s =
     (if CHR '';'' \<in> set s
      then [takeWhile (\<lambda>c. c \<noteq> CHR '';'') s, dropWhile regexp_space (tl (dropWhile (\<lambda>c. c \<noteq> CHR '';'') s))]
      else [s])"

text \<open>
  \<^verbatim>\<open>io.ReadAll(io.LimitReader(r, n))\<close>: like \<^verbatim>\<open>io.CopyN\<close> it reads until the limit is used up
  or an error occurs, and \<^verbatim>\<open>io.EOF\<close> is no error; the sizes of its buffers do not matter to a
  reader's script.
\<close>

definition ReadAll_limited :: "nat \<Rightarrow> reader \<Rightarrow> bytes \<times> err \<times> reader" where
  "ReadAll_limited n r = copy_loop n r"

record response_head =
  resp_StatusCode :: int
  resp_Status :: string
  resp_Header :: header

definition ExtractResponseError :: "'a response_head_scheme \<Rightarrow> reader \<Rightarrow> err \<times> reader" where
  "ExtractResponseError resp body =
     (if resp_StatusCode resp < 400 then (None, body)
      else
        let contentTypeFields = httpHeaderOptSeparatorRegex_Split2 (hGet (resp_Header resp) ''Content-Type'') in
        if length contentTypeFields = 0 then (Some (ErrNew (resp_Status resp)), body)
        else if contentTypeFields ! 0 \<noteq> ''text/plain'' then
          (Some (ErrNew (resp_Status resp @ '', content-type '' @ contentTypeFields ! 0)), body)
        else
          case ReadAll_limited maxBodyBytes body of (contents, e, body) \<Rightarrow>
            let contentsStr = TrimSpace (string_of contents);
                contentsStr = (if \<not> utf8_Valid (string_of contents) then ''invalid UTF-8 characters in response'' else contentsStr) in
            case e of
              Some e \<Rightarrow>
                if contentsStr = [] then
                  (Some (ErrNew (resp_Status resp @ '', error reading response body: '' @ Error e)), body)
                else
                  (Some (ErrNew (resp_Status resp @ '': '' @ contentsStr @ '', error reading response body after '' @
                     show_nat (length contents) @ '' bytes: '' @ Error e)), body)
            | None \<Rightarrow>
                if contentsStr = [] then (Some (ErrNew (resp_Status resp)), body)
                else (Some (ErrNew (resp_Status resp @ '': '' @ contentsStr)), body))"

section \<open>Facts\<close>

lemma Split2_nonempty: "httpHeaderOptSeparatorRegex_Split2 s \<noteq> []"
  by (simp add: httpHeaderOptSeparatorRegex_Split2_def)

lemma ExtractResponseError_cases:
  obtains (success) "resp_StatusCode resp < 400" "ExtractResponseError resp body = (None, body)"
    | (unread) t where "400 \<le> resp_StatusCode resp" "ExtractResponseError resp body = (Some (ErrNew (resp_Status resp @ t)), body)"
    | (read) t d e body' where "400 \<le> resp_StatusCode resp" "copy_loop maxBodyBytes body = (d, e, body')"
        "ExtractResponseError resp body = (Some (ErrNew (resp_Status resp @ t)), body')"
proof (cases "resp_StatusCode resp < 400")
  case True
  then show ?thesis using success by (simp add: ExtractResponseError_def)
next
  case False
  let ?f = "httpHeaderOptSeparatorRegex_Split2 (hGet (resp_Header resp) ''Content-Type'')"
  obtain d e body' where r: "copy_loop maxBodyBytes body = (d, e, body')"
    by (cases "copy_loop maxBodyBytes body") auto
  let ?str = "if \<not> utf8_Valid (string_of d) then ''invalid UTF-8 characters in response'' else TrimSpace (string_of d)"
  show ?thesis
  proof (cases "?f ! 0 = ''text/plain''")
    case ne: False
    with False Split2_nonempty show ?thesis
      by (intro unread [of "'', content-type '' @ ?f ! 0"]) (simp_all add: ExtractResponseError_def Let_def)
  next
    case True
    have "ExtractResponseError resp body = (Some (ErrNew (resp_Status resp @
        (case e of
           Some e \<Rightarrow> if ?str = [] then '', error reading response body: '' @ Error e
             else '': '' @ ?str @ '', error reading response body after '' @ show_nat (length d) @ '' bytes: '' @ Error e
         | None \<Rightarrow> if ?str = [] then [] else '': '' @ ?str))), body')"
      using False True Split2_nonempty r
      by (simp add: ExtractResponseError_def ReadAll_limited_def Let_def split: option.split)
    with False r show ?thesis by (intro read) simp_all
  qed
qed

section \<open>Properties\<close>

text \<open>
  Claim C31. A response with a status below 400 is no error; every other response is one, whose text
  begins with the status line. The body of an error response is read only up to 1024 bytes, and
  a response that is not an error is not read at all.
\<close>

theorem ExtractResponseError_bounded:
  assumes "ExtractResponseError resp body = (e, body')"
  shows "(e = None \<longleftrightarrow> resp_StatusCode resp < 400) \<and>
    (e = None \<longrightarrow> body' = body) \<and>
    (\<forall>e'. e = Some e' \<longrightarrow> (\<exists>t. Error e' = resp_Status resp @ t)) \<and>
    (\<exists>d. rd_content body = d @ rd_content body' \<and> length d \<le> 1024)"
proof (cases rule: ExtractResponseError_cases [of resp body])
  case (read t d e2 b2)
  with assms copy_loop_content [OF read(2)] show ?thesis by (auto simp: maxBodyBytes_def)
qed (use assms in auto)

text \<open>
  The message of a plain-text error reaches the caller: for a short valid text body without
  white space around it, the error's text is the status line, a colon and the body.
\<close>

theorem ExtractResponseError_text:
  assumes "400 \<le> resp_StatusCode resp"
    and "hGet (resp_Header resp) ''Content-Type'' \<in> {''text/plain'', ''text/plain; charset=utf-8''}"
    and "rd_clean body" and "length (rd_content body) \<le> 1024" and "rd_content body = bytes_of msg"
    and "utf8_Valid msg" and "TrimSpace msg = msg" and "msg \<noteq> []"
  shows "fst (ExtractResponseError resp body) = Some (ErrNew (resp_Status resp @ '': '' @ msg))"
proof -
  have "httpHeaderOptSeparatorRegex_Split2 (hGet (resp_Header resp) ''Content-Type'') ! 0 = ''text/plain''"
    using assms(2) by (auto simp: httpHeaderOptSeparatorRegex_Split2_def)
  moreover obtain body' where "copy_loop maxBodyBytes body = (bytes_of msg, None, body')"
    using copy_loop_clean [OF assms(3), of maxBodyBytes] assms(4,5) by (auto simp: maxBodyBytes_def)
  ultimately show ?thesis
    using assms(1,6-8) Split2_nonempty by (simp add: ExtractResponseError_def ReadAll_limited_def Let_def)
qed

section \<open>Instances\<close>

abbreviation sample_head :: response_head where
  "sample_head \<equiv> \<lparr>resp_StatusCode = 503, resp_Status = ''503'', resp_Header = [(''Content-Type'', [''text/plain''])]\<rparr>"

theorem ExtractResponseError_bounded_witness:
  "\<exists>e body'. ExtractResponseError sample_head [(bytes_of ''no'', None)] = (Some e, body') \<and> (\<exists>t. Error e = ''503'' @ t)"
proof -
  obtain e body' where r: "ExtractResponseError sample_head [(bytes_of ''no'', None)] = (e, body')"
    by (cases "ExtractResponseError sample_head [(bytes_of ''no'', None)]")
  with ExtractResponseError_bounded [OF r] show ?thesis by (cases e) auto
qed

theorem ExtractResponseError_text_witness:
  "fst (ExtractResponseError sample_head [(bytes_of ''no'', None)]) = Some (ErrNew (''503'' @ '': '' @ ''no''))"
proof -
  have "hGet (resp_Header sample_head) ''Content-Type'' = ''text/plain''"
    by (simp add: hGet_def hvalues_def hindex_def CanonicalHeaderKey_def token_byte_def is_lower_def is_upper_def Let_def)
  moreover have "utf8_Valid ''no''" "TrimSpace ''no'' = ''no''" by (simp_all add: ascii_valid TrimSpace_def IsSpace_def)
  ultimately have "fst (ExtractResponseError sample_head [(bytes_of ''no'', None)]) =
      Some (ErrNew (resp_Status sample_head @ '': '' @ ''no''))"
    by (intro ExtractResponseError_text) (simp_all del: response_head.select_convs(3))
  then show ?thesis by simp
qed

end
