(* ===== verification/ReverseProxy.thy ===== *)
theory ReverseProxy
  imports HttpRequest HttpUtils WsProxy WebResponse
begin

text \<open>
  The part of \<^verbatim>\<open>net/http/httputil.ReverseProxy\<close> that the client's gRPC-Web proxy is made of: it
  passes the request through a \<^verbatim>\<open>Director\<close>, sends it, passes the response through
  \<^verbatim>\<open>ModifyResponse\<close>, and copies headers, body and trailers to the response writer.

  Left out is what has no effect here: protocol upgrades, which HTTP/2 does not have; the forwarding
  headers, since the address of a pipe is no host with a port; and the flush before the trailers, since
  the writer that the proxy gets is no \<^verbatim>\<open>http.Flusher\<close> (a \<^verbatim>\<open>nonBufferingWriter\<close> has no such
  method, and a writer that is a flusher is wrapped in one).
\<close>

section \<open>Responses\<close>

text \<open>
  The body of a response is never \<^verbatim>\<open>nil\<close>, as the transport guarantees; it is the transport's own,
  or that wrapped in a gRPC-Web response reader. The reader writes the trailers it finds into the
  response's trailers.
\<close>

datatype resp_body = RawBody reader | WebBody responseReader

record response = response_head +
  resp_ContentLength :: int
  resp_Body :: resp_body
  resp_Trailer :: "header option"

definition body_Read :: "nat \<Rightarrow> resp_body \<Rightarrow> bytes \<times> err \<times> resp_body" where
  "body_Read c b =
     (case b of
        RawBody r \<Rightarrow> (case rd_read c r of (d, e, r) \<Rightarrow> (d, e, RawBody r))
      | WebBody r \<Rightarrow> (case Read c r of (d, e, r) \<Rightarrow> (d, e, WebBody r)))"

section \<open>Hop-by-hop headers\<close>

definition hopHeaders :: "string list" where
  "hopHeaders = [''Connection'', ''Proxy-Connection'', ''Keep-Alive'', ''Proxy-Authenticate'', ''Proxy-Authorization'',
     ''Te'', ''Trailer'', ''Transfer-Encoding'', ''Upgrade'']"

text \<open>\<^verbatim>\<open>httpguts.HeaderValuesContainsToken\<close>, for a token in lower case.\<close>

definition HeaderValuesContainsToken :: "string list \<Rightarrow> string \<Rightarrow> bool" where
  "HeaderValuesContainsToken vs token \<longleftrightarrow>
     (\<exists>v \<in> set vs. \<exists>f \<in> set (Split (CHR '','') v). map (\<lambda>c. if is_upper c then to_lower c else c) (trim_by blank f) = token)"

definition removeConnectionHeaders :: "header \<Rightarrow> header" where
  "removeConnectionHeaders h =
     fold (\<lambda>f h. if f = [] then h else hDel f h)
       (map (trim_by ascii_space) (concat (map (Split (CHR '','')) (hvalues h ''Connection'')))) h"

definition remove_hop_headers :: "header \<Rightarrow> header" where
  "remove_hop_headers h = fold hDel hopHeaders (removeConnectionHeaders h)"

section \<open>Copying\<close>

text \<open>
  The copy loop: it reads into a buffer of 32 KB and writes what it got, until an error. It has no end
  of its own, so it is a partial function: \<open>None\<close> stands for a loop that does not end.
\<close>

definition copyBufferSize :: nat where "copyBufferSize = 32768"

definition copy_chunk :: "writer_ops \<Rightarrow> bytes \<Rightarrow> httpWriter \<Rightarrow> err \<times> httpWriter" where
  "copy_chunk ops d w =
     (if d = [] then (None, w)
      else case op_Write ops d w of
        (n, Some e, w) \<Rightarrow> (Some e, w)
      | (n, None, w) \<Rightarrow> (if n \<noteq> length d then Some (ErrExt ''short write'') else None, w))"

partial_function (option) copyBuffer ::
  "writer_ops \<Rightarrow> resp_body \<Rightarrow> httpWriter \<Rightarrow> (err \<times> resp_body \<times> httpWriter) option" where
  "copyBuffer ops src w =
     (case body_Read copyBufferSize src of (d, rerr, src) \<Rightarrow>
        (case copy_chunk ops d w of
           (Some e, w) \<Rightarrow> Some (Some e, src, w)
         | (None, w) \<Rightarrow>
             (case rerr of
                Some e \<Rightarrow> Some (if e = EOF then None else Some e, src, w)
              | None \<Rightarrow> copyBuffer ops src w)))"

section \<open>ServeHTTP\<close>

text \<open>
  An incoming header or trailer is copied value by value. The trailers of a response are those that
  its reader found, once the body was read.
\<close>

definition copyHeader :: "header \<Rightarrow> header \<Rightarrow> header" where
  "copyHeader src dst = fold (\<lambda>(k, vs) h. fold (\<lambda>v h. hAdd k v h) vs h) src dst"

definition final_trailer :: "response \<Rightarrow> resp_body \<Rightarrow> header" where
  "final_trailer resp b =
     (case (case b of RawBody _ \<Rightarrow> resp_Trailer resp | WebBody r \<Rightarrow> rr_trailers r) of None \<Rightarrow> [] | Some t \<Rightarrow> t)"

definition outgoing_request :: "(request \<Rightarrow> request) \<Rightarrow> request \<Rightarrow> request" where
  "outgoing_request Director req =
     (let outreq = Director req;
          h = remove_hop_headers (req_Header outreq);
          h = (if HeaderValuesContainsToken (hvalues (req_Header req) ''Te'') ''trailers''
               then hSet ''Te'' ''trailers'' h else h)
      in outreq\<lparr>req_Header := h\<rparr>)"

text \<open>
  A response whose body fails while it is copied is aborted: the handler panics, and the connection to
  the client is reset. \<open>Endless\<close> stands for a copy loop that does not end.
\<close>

datatype proxied = Finished httpWriter | Aborted httpWriter | Endless

definition copy_response :: "writer_ops \<Rightarrow> response \<Rightarrow> httpWriter \<Rightarrow> proxied" where
  "copy_response ops res w =
     (let h = copyHeader (resp_Header res) (hw_header w);
          announced = length (case resp_Trailer res of None \<Rightarrow> [] | Some t \<Rightarrow> t);
          h = (if 0 < announced
               then hAdd ''Trailer'' (Join (map fst (case resp_Trailer res of None \<Rightarrow> [] | Some t \<Rightarrow> t)) '', '') h else h);
          w = op_WriteHeader ops (resp_StatusCode res) (w\<lparr>hw_header := h\<rparr>) in
      case copyBuffer ops (resp_Body res) w of
        None \<Rightarrow> Endless
      | Some (Some e, _, w) \<Rightarrow> Aborted w
      | Some (None, b, w) \<Rightarrow>
          let tr = final_trailer res b in
          if length tr = announced then Finished (w\<lparr>hw_header := copyHeader tr (hw_header w)\<rparr>)
          else Finished (w\<lparr>hw_header := add_fields True tr (hw_header w)\<rparr>))"

definition proxy_ServeHTTP ::
  "(request \<Rightarrow> request) \<Rightarrow> (request \<Rightarrow> go_error + response) \<Rightarrow> (response \<Rightarrow> err \<times> response) \<Rightarrow>
     (writer_ops \<Rightarrow> go_error \<Rightarrow> httpWriter \<Rightarrow> httpWriter) \<Rightarrow> writer_ops \<Rightarrow> request \<Rightarrow> httpWriter \<Rightarrow> proxied" where
  "proxy_ServeHTTP Director transport ModifyResponse ErrorHandler ops req w =
     (case transport (outgoing_request Director req) of
        Inl e \<Rightarrow> Finished (ErrorHandler ops e w)
      | Inr res \<Rightarrow>
          (case ModifyResponse (res\<lparr>resp_Header := remove_hop_headers (resp_Header res)\<rparr>) of
             (Some e, _) \<Rightarrow> Finished (ErrorHandler ops e w)
           | (None, res) \<Rightarrow> copy_response ops res w))"

section \<open>The copy loop and its source\<close>

text \<open>What the loop copies is what reading until an error gives.\<close>

context response_writer
begin

lemma copy_chunk_ok:
  assumes "hw_healthy w"
  obtains w' where "copy_chunk ops d w = (None, w')" and "hw_body w' = hw_body w @ d"
    and "hw_header w' = hw_header w" and "hw_healthy w'" and "hw_sent w \<noteq> None \<longrightarrow> hw_sent w' = hw_sent w"
proof (cases "d = []")
  case True
  with assms that [of w] show ?thesis by (simp add: copy_chunk_def)
next
  case False
  obtain n e w' where w': "op_Write ops d w = (n, e, w')" by (cases "op_Write ops d w") auto
  with False Write_ok [OF assms w'] Write_keeps_sent [OF w'] that [of w'] show ?thesis by (simp add: copy_chunk_def)
qed

lemma copyBuffer_until:
  assumes "read_until body_Read cs src = (d, Some e, src')" and "set cs \<subseteq> {copyBufferSize}" and "hw_healthy w"
  shows "\<exists>w'. copyBuffer ops src w = Some (if e = EOF then None else Some e, src', w') \<and>
    hw_body w' = hw_body w @ d \<and> hw_header w' = hw_header w \<and> (hw_sent w \<noteq> None \<longrightarrow> hw_sent w' = hw_sent w)"
  using assms
proof (induction cs arbitrary: src d w)
  case (Cons c cs)
  have c: "c = copyBufferSize" using Cons.prems(2) by simp
  obtain d1 e1 src1 where r: "body_Read copyBufferSize src = (d1, e1, src1)"
    by (cases "body_Read copyBufferSize src") auto
  obtain w1 where w1: "copy_chunk ops d1 w = (None, w1)" "hw_body w1 = hw_body w @ d1"
    "hw_header w1 = hw_header w" "hw_healthy w1" "hw_sent w \<noteq> None \<longrightarrow> hw_sent w1 = hw_sent w"
    by (rule copy_chunk_ok [OF Cons.prems(3)])
  show ?case
  proof (cases e1)
    case (Some e')
    with Cons.prems(1) c r w1 show ?thesis by (simp add: copyBuffer.simps [of _ src])
  next
    case None
    with Cons.prems(1) c r obtain d2 where d2: "read_until body_Read cs src1 = (d2, Some e, src')" "d = d1 @ d2"
      by (auto split: prod.splits)
    have eq: "copyBuffer ops src w = copyBuffer ops src1 w1"
      using r w1(1) None by (simp add: copyBuffer.simps [of _ src])
    show ?thesis using Cons.IH [OF d2(1) _ w1(4)] Cons.prems(2) d2(2) w1(2,3,5) eq by auto
  qed
qed simp

end

text \<open>A loop that ends has seen data or an error.\<close>

lemma copyBuffer_ends:
  assumes "copyBuffer ops src w = Some y"
  shows "\<exists>n d e src'. read_until body_Read (replicate n copyBufferSize) src = (d, e, src') \<and> (d \<noteq> [] \<or> e \<noteq> None)"
proof (rule copyBuffer.raw_induct [OF _ assms])
  fix copy ops src w y
  assume IH: "\<And>ops src w y. copy ops src w = Some y \<Longrightarrow> \<exists>n d e src'.
      read_until body_Read (replicate n copyBufferSize) src = (d, e, src') \<and> (d \<noteq> [] \<or> e \<noteq> None)"
    and step: "(case body_Read copyBufferSize src of (d, rerr, src) \<Rightarrow>
      (case copy_chunk ops d w of
         (Some e, w) \<Rightarrow> Some (Some e, src, w)
       | (None, w) \<Rightarrow>
           (case rerr of Some e \<Rightarrow> Some (if e = EOF then None else Some e, src, w) | None \<Rightarrow> copy ops src w))) = Some y"
  obtain d e src1 where r: "body_Read copyBufferSize src = (d, e, src1)" by (cases "body_Read copyBufferSize src") auto
  show "\<exists>n d e src'. read_until body_Read (replicate n copyBufferSize) src = (d, e, src') \<and> (d \<noteq> [] \<or> e \<noteq> None)"
  proof (cases "d = [] \<and> e = None")
    case True
    with step r have "copy ops src1 w = Some y" by (simp add: copy_chunk_def)
    from IH [OF this] obtain n d' e' src' where
      "read_until body_Read (replicate n copyBufferSize) src1 = (d', e', src')" "d' \<noteq> [] \<or> e' \<noteq> None" by blast
    with True r show ?thesis by (intro exI [of _ "Suc n"]) auto
  next
    case False
    with r have "read_until body_Read (replicate (Suc 0) copyBufferSize) src = (d, e, src1)" by (cases e) auto
    with False show ?thesis by blast
  qed
qed

lemma read_until_WebBody:
  "read_until body_Read cs (WebBody r) = (case read_until Read cs r of (d, e, r') \<Rightarrow> (d, e, WebBody r'))"
  by (induction cs arbitrary: r) (auto simp: body_Read_def split: prod.splits option.splits)

end
