(* ===== verification/Concurrency.thy ===== *)
theory Concurrency
  imports Transition Prelude
begin

text \<open>
  \<^verbatim>\<open>internal/concurrency\<close>: \<^verbatim>\<open>Signal\<close>, a resettable flag that goroutines can wait for through
  a channel, and the functions that wait with a timeout.

  A signal is a pointer to a channel, \<^verbatim>\<open>nil\<close> when the signal is triggered. Its operations are
  sequences of atomic steps on the pointer and on channels; goroutines interleave between these steps.
  Channels are numbers, in the order in which they are made.
\<close>

section \<open>State\<close>

text \<open>Where a goroutine stands in an operation of the signal.\<close>

datatype sig_pc =
    Outside
  | Closing nat
  | WaitingFor nat
  | Selecting "nat option"
  | Triggering

record signal_state =
  sig_ch :: "nat option"
  sig_made :: nat
  sig_closed :: "nat set"
  sig_pcs :: "nat \<Rightarrow> sig_pc"
  trigger_done :: bool
  cancel_done :: bool

text \<open>The zero value is a triggered signal; \<^verbatim>\<open>NewSignal\<close> resets it.\<close>

definition zero_Signal :: signal_state where
  "zero_Signal = \<lparr>sig_ch = None, sig_made = 0, sig_closed = {}, sig_pcs = (\<lambda>_. Outside),
     trigger_done = False, cancel_done = False\<rparr>"

definition Reset :: "signal_state \<Rightarrow> bool \<times> signal_state" where
  "Reset s =
     (let ch = sig_made s; s = s\<lparr>sig_made := ch + 1\<rparr> in
      if sig_ch s = None then (True, s\<lparr>sig_ch := Some ch\<rparr>) else (False, s))"

definition NewSignal :: signal_state where
  "NewSignal = snd (Reset zero_Signal)"

text \<open>\<^verbatim>\<open>WaitC\<close> (and \<^verbatim>\<open>Done\<close>, \<^verbatim>\<open>Snapshot\<close>): \<open>None\<close> stands for \<^verbatim>\<open>closedCh\<close>.\<close>

definition WaitC :: "signal_state \<Rightarrow> nat option" where
  "WaitC s = (case sig_ch s of None \<Rightarrow> None | Some c \<Rightarrow> Some c)"

definition Done :: "signal_state \<Rightarrow> nat option" where "Done s = WaitC s"

definition Snapshot :: "signal_state \<Rightarrow> nat option" where "Snapshot s = Done s"

definition chan_done :: "signal_state \<Rightarrow> nat option \<Rightarrow> bool" where
  "chan_done s c = (case c of None \<Rightarrow> True | Some c \<Rightarrow> c \<in> sig_closed s)"

definition sig_IsDone :: "signal_state \<Rightarrow> bool" where
  "sig_IsDone s = (case sig_ch s of None \<Rightarrow> True | Some c \<Rightarrow> chan_done s (Some c))"

section \<open>Steps\<close>

text \<open>
  \<open>Returns op t b\<close>: the operation of goroutine \<open>t\<close> returns \<open>b\<close> (\<^verbatim>\<open>Wait\<close> has no result; its
  return is labelled \<open>True\<close>). Closing a closed channel would panic.
\<close>

datatype sig_op = OpSignal | OpReset | OpWait | OpWhen

datatype sig_label = SigInternal | Returns sig_op nat bool | Panics nat

abbreviation set_pc :: "nat \<Rightarrow> sig_pc \<Rightarrow> signal_state \<Rightarrow> signal_state" where
  "set_pc t p s \<equiv> s\<lparr>sig_pcs := (sig_pcs s)(t := p)\<rparr>"

inductive sig_step :: "signal_state \<Rightarrow> sig_label \<Rightarrow> signal_state \<Rightarrow> bool" where
  signal_swap: "sig_pcs s t = Outside \<or> sig_pcs s t = Triggering \<Longrightarrow> sig_ch s = Some c \<Longrightarrow>
    sig_step s SigInternal (set_pc t (Closing c) (s\<lparr>sig_ch := None\<rparr>))"
| signal_already: "sig_pcs s t = Outside \<or> sig_pcs s t = Triggering \<Longrightarrow> sig_ch s = None \<Longrightarrow>
    sig_step s (Returns OpSignal t False) (set_pc t Outside s)"
| signal_close: "sig_pcs s t = Closing c \<Longrightarrow> c \<notin> sig_closed s \<Longrightarrow>
    sig_step s (Returns OpSignal t True) (set_pc t Outside (s\<lparr>sig_closed := insert c (sig_closed s)\<rparr>))"
| signal_panic: "sig_pcs s t = Closing c \<Longrightarrow> c \<in> sig_closed s \<Longrightarrow> sig_step s (Panics t) s"
| reset: "sig_pcs s t = Outside \<Longrightarrow> Reset s = (b, s') \<Longrightarrow> sig_step s (Returns OpReset t b) s'"
| wait_start: "sig_pcs s t = Outside \<Longrightarrow> sig_ch s = Some c \<Longrightarrow>
    sig_step s SigInternal (set_pc t (WaitingFor c) s)"
| wait_triggered: "sig_pcs s t = Outside \<Longrightarrow> sig_ch s = None \<Longrightarrow> sig_step s (Returns OpWait t True) s"
| wait_end: "sig_pcs s t = WaitingFor c \<Longrightarrow> c \<in> sig_closed s \<Longrightarrow>
    sig_step s (Returns OpWait t True) (set_pc t Outside s)"
| when_start: "sig_pcs s t = Outside \<Longrightarrow> sig_step s SigInternal (set_pc t (Selecting (Done s)) s)"
| when_trigger: "sig_pcs s t = Selecting c \<Longrightarrow> trigger_done s \<Longrightarrow>
    sig_step s SigInternal (set_pc t Triggering s)"
| when_cancel: "sig_pcs s t = Selecting c \<Longrightarrow> cancel_done s \<Longrightarrow>
    sig_step s (Returns OpWhen t False) (set_pc t Outside s)"
| when_done: "sig_pcs s t = Selecting c \<Longrightarrow> chan_done s c \<Longrightarrow>
    sig_step s (Returns OpWhen t False) (set_pc t Outside s)"
| env_trigger: "sig_step s SigInternal (s\<lparr>trigger_done := True\<rparr>)"
| env_cancel: "sig_step s SigInternal (s\<lparr>cancel_done := True\<rparr>)"

section \<open>Waiting with a timeout\<close>

text \<open>
  A waitable, as far as a wait can tell: the time from now at which its channel is closed, \<open>None\<close> if
  never. If it is closed at the very moment the timer fires, \<^verbatim>\<open>select\<close> picks either case:
  \<open>pick\<close>.
\<close>

type_synonym Waitable = "int option"

text \<open>\<^verbatim>\<open>Wait\<close> has no result; this is when it returns, if it does.\<close>

definition Wait :: "Waitable \<Rightarrow> int option" where
  "Wait w = (case w of None \<Rightarrow> None | Some d \<Rightarrow> Some (max d 0))"

definition IsDone :: "Waitable \<Rightarrow> bool" where
  "IsDone w = (case w of None \<Rightarrow> False | Some d \<Rightarrow> d \<le> 0)"

definition WaitWithTimeout :: "bool \<Rightarrow> Waitable \<Rightarrow> int \<Rightarrow> bool" where
  "WaitWithTimeout pick w timeout =
     (if timeout \<le> 0 then IsDone w
      else case w of
        None \<Rightarrow> False
      | Some d \<Rightarrow> if d < timeout then True else if d = timeout then pick else False)"

definition DoWithTimeout :: "bool \<Rightarrow> Waitable \<Rightarrow> ('a \<Rightarrow> 'a) \<Rightarrow> int \<Rightarrow> 'a \<Rightarrow> bool \<times> 'a" where
  "DoWithTimeout pick w action timeout st =
     (if WaitWithTimeout pick w timeout then (True, action st) else (False, st))"

section \<open>Invariant\<close>

text \<open>
  The current channel is open and nobody closes it. A channel that was taken out of use is closed, or
  one goroutine, and only one, is about to close it. Goroutines wait for channels of these two kinds.
\<close>

definition retired :: "signal_state \<Rightarrow> nat \<Rightarrow> bool" where
  "retired s c \<longleftrightarrow> c \<in> sig_closed s \<or> (\<exists>t. sig_pcs s t = Closing c)"

definition sig_inv :: "signal_state \<Rightarrow> bool" where
  "sig_inv s \<longleftrightarrow>
     (\<forall>c. sig_ch s = Some c \<longrightarrow> c < sig_made s \<and> \<not> retired s c) \<and>
     (\<forall>t c. sig_pcs s t = Closing c \<longrightarrow> c < sig_made s \<and> c \<notin> sig_closed s) \<and>
     (\<forall>t t' c. sig_pcs s t = Closing c \<longrightarrow> sig_pcs s t' = Closing c \<longrightarrow> t' = t) \<and>
     (\<forall>c \<in> sig_closed s. c < sig_made s) \<and>
     (\<forall>t c. sig_pcs s t = WaitingFor c \<or> sig_pcs s t = Selecting (Some c) \<longrightarrow> sig_ch s = Some c \<or> retired s c)"

lemma sig_invI:
  assumes "\<And>c. sig_ch s = Some c \<Longrightarrow> c < sig_made s \<and> \<not> retired s c"
    and "\<And>t c. sig_pcs s t = Closing c \<Longrightarrow> c < sig_made s \<and> c \<notin> sig_closed s"
    and "\<And>t t' c. sig_pcs s t = Closing c \<Longrightarrow> sig_pcs s t' = Closing c \<Longrightarrow> t' = t"
    and "\<And>c. c \<in> sig_closed s \<Longrightarrow> c < sig_made s"
    and "\<And>t c. sig_pcs s t = WaitingFor c \<Longrightarrow> sig_ch s \<noteq> Some c \<Longrightarrow> retired s c"
    and "\<And>t c. sig_pcs s t = Selecting (Some c) \<Longrightarrow> sig_ch s \<noteq> Some c \<Longrightarrow> retired s c"
  shows "sig_inv s"
  using assms unfolding sig_inv_def by blast

lemma sig_invD:
  assumes "sig_inv s"
  shows "sig_ch s = Some c \<Longrightarrow> c < sig_made s" "sig_ch s = Some c \<Longrightarrow> \<not> retired s c"
    "sig_pcs s t = Closing c \<Longrightarrow> c < sig_made s" "sig_pcs s t = Closing c \<Longrightarrow> c \<notin> sig_closed s"
    "sig_pcs s t = Closing c \<Longrightarrow> sig_pcs s t' = Closing c \<Longrightarrow> t' = t"
    "c \<in> sig_closed s \<Longrightarrow> c < sig_made s"
    "sig_pcs s t = WaitingFor c \<Longrightarrow> sig_ch s \<noteq> Some c \<Longrightarrow> retired s c"
    "sig_pcs s t = Selecting (Some c) \<Longrightarrow> sig_ch s \<noteq> Some c \<Longrightarrow> retired s c"
  using assms unfolding sig_inv_def by blast+

lemma sig_inv_New: "sig_inv NewSignal"
  by (simp add: sig_inv_def NewSignal_def Reset_def zero_Signal_def retired_def)

text \<open>Moving a goroutine that is not closing anything keeps the retired channels.\<close>

lemma retired_set_pc:
  "\<forall>c'. sig_pcs s t \<noteq> Closing c' \<Longrightarrow> retired (set_pc t p s) c \<longleftrightarrow> retired s c \<or> p = Closing c"
  by (auto simp: retired_def)

lemma sig_inv_move:
  assumes inv: "sig_inv s" and nc: "\<forall>c'. sig_pcs s t \<noteq> Closing c'" and p: "\<forall>c'. p \<noteq> Closing c'"
    and w: "\<And>c. p = WaitingFor c \<Longrightarrow> sig_ch s \<noteq> Some c \<Longrightarrow> retired s c"
      "\<And>c. p = Selecting (Some c) \<Longrightarrow> sig_ch s \<noteq> Some c \<Longrightarrow> retired s c"
  shows "sig_inv (set_pc t p s)"
proof (rule sig_invI)
  fix c assume "sig_ch (set_pc t p s) = Some c"
  then show "c < sig_made (set_pc t p s) \<and> \<not> retired (set_pc t p s) c"
    using sig_invD(1,2) [OF inv] p by (simp add: retired_set_pc [OF nc])
qed (use p w sig_invD(3-8) [OF inv] in \<open>auto simp: retired_set_pc [OF nc] split: if_splits\<close>)

lemma sig_inv_swap:
  assumes inv: "sig_inv s" and t: "sig_pcs s t = Outside \<or> sig_pcs s t = Triggering" and ch: "sig_ch s = Some c"
    and s': "s' = set_pc t (Closing c) (s\<lparr>sig_ch := None\<rparr>)"
  shows "sig_inv s'"
proof -
  have f: "sig_made s' = sig_made s" "sig_closed s' = sig_closed s" "sig_pcs s' = (sig_pcs s)(t := Closing c)"
    "sig_ch s' = None" by (simp_all add: s')
  have r: "retired s' c' \<longleftrightarrow> retired s c' \<or> c' = c" for c'
    using t unfolding retired_def f by (metis fun_upd_apply sig_pc.distinct(1,13) sig_pc.inject(1))
  have n: "sig_pcs s t' \<noteq> Closing c" "c \<notin> sig_closed s" for t'
    using sig_invD(2) [OF inv ch] by (auto simp: retired_def)
  show ?thesis
    by (rule sig_invI) (use sig_invD [OF inv] ch n in \<open>auto simp: r f split: if_splits\<close>)
qed

lemma sig_inv_close:
  assumes inv: "sig_inv s" and t: "sig_pcs s t = Closing c"
    and s': "s' = set_pc t Outside (s\<lparr>sig_closed := insert c (sig_closed s)\<rparr>)"
  shows "sig_inv s'"
proof -
  have f: "sig_made s' = sig_made s" "sig_closed s' = insert c (sig_closed s)" "sig_pcs s' = (sig_pcs s)(t := Outside)"
    "sig_ch s' = sig_ch s" by (simp_all add: s')
  have r: "retired s' c' \<longleftrightarrow> retired s c'" for c'
    using t unfolding retired_def f by (metis fun_upd_apply insert_iff sig_pc.distinct(1) sig_pc.inject(1))
  have only: "sig_pcs s t' \<noteq> Closing c" if "t' \<noteq> t" for t'
    using sig_invD(5) [OF inv t, of t'] that by blast
  have c: "c < sig_made s" by (rule sig_invD(3) [OF inv t])
  show ?thesis
  proof (rule sig_invI)
    fix t' c' assume "sig_pcs s' t' = Closing c'"
    then have "t' \<noteq> t" "sig_pcs s t' = Closing c'" by (auto simp: f split: if_splits)
    then show "c' < sig_made s' \<and> c' \<notin> sig_closed s'"
      using sig_invD(3,4) [OF inv, of t' c'] only [of t'] by (auto simp: f)
  next
    fix t1 t2 c' assume "sig_pcs s' t1 = Closing c'" "sig_pcs s' t2 = Closing c'"
    then show "t2 = t1" using sig_invD(5) [OF inv, of t1 c' t2] by (auto simp: f split: if_splits)
  qed (use sig_invD(1,2,6,7,8) [OF inv] c in \<open>auto simp: r f split: if_splits\<close>)
qed

lemma sig_inv_reset:
  assumes inv: "sig_inv s" and "Reset s = (b, s')"
  shows "sig_inv s'"
proof -
  have s': "sig_made s' = Suc (sig_made s)" "sig_closed s' = sig_closed s" "sig_pcs s' = sig_pcs s"
    "sig_ch s' = (if sig_ch s = None then Some (sig_made s) else sig_ch s)"
    using assms(2) by (auto simp: Reset_def Let_def split: if_splits)
  have r: "retired s' c \<longleftrightarrow> retired s c" for c by (simp add: retired_def s')
  have fresh: "\<not> retired s (sig_made s)"
    using sig_invD(3,6) [OF inv] by (force simp: retired_def)
  show ?thesis
  proof (rule sig_invI)
    fix c assume "sig_ch s' = Some c"
    then show "c < sig_made s' \<and> \<not> retired s' c"
      using sig_invD(1,2) [OF inv] fresh by (auto simp: s' r less_Suc_eq split: if_splits)
  qed (use sig_invD(3-8) [OF inv] in \<open>auto simp: s' r less_Suc_eq split: if_splits\<close>)
qed

lemma sig_inv_step:
  assumes inv: "sig_inv s" and "sig_step s l s'"
  shows "sig_inv s'"
  using assms(2)
proof cases
  case (signal_swap t c)
  then show ?thesis using sig_inv_swap [OF inv, of t c] by simp
next
  case (signal_close t c)
  then show ?thesis using sig_inv_close [OF inv, of t c] by simp
next
  case (reset t b)
  then show ?thesis using sig_inv_reset [OF inv] by blast
next
  case (wait_start t c)
  then show ?thesis using sig_inv_move [OF inv, of t "WaitingFor c"] by simp
next
  case (when_start t)
  have "Done s = sig_ch s" by (simp add: Done_def WaitC_def split: option.split)
  with when_start show ?thesis using sig_inv_move [OF inv, of t "Selecting (Done s)"] by simp
next
  case (when_trigger t c)
  then show ?thesis using sig_inv_move [OF inv, of t Triggering] by simp
next
  case signal_already
  then show ?thesis using sig_inv_move [OF inv, where p = Outside] by auto
next
  case wait_end
  then show ?thesis using sig_inv_move [OF inv, where p = Outside] by simp
next
  case when_cancel
  then show ?thesis using sig_inv_move [OF inv, where p = Outside] by simp
next
  case when_done
  then show ?thesis using sig_inv_move [OF inv, where p = Outside] by simp
qed (use inv in \<open>simp_all add: sig_inv_def retired_def\<close>)

interpretation sig: invariant "\<lambda>s. s = NewSignal \<or> s = zero_Signal" sig_step sig_inv
proof
  show "sig_inv s" if "s = NewSignal \<or> s = zero_Signal" for s
    using that sig_inv_New by (auto simp: sig_inv_def zero_Signal_def retired_def)
qed (rule sig_inv_step)

lemma IsDone_iff: "sig_inv s \<Longrightarrow> sig_IsDone s \<longleftrightarrow> sig_ch s = None"
  by (auto simp: sig_IsDone_def chan_done_def retired_def dest: sig_invD(2) split: option.splits)

section \<open>Counting\<close>

text \<open>How often operations of one kind returned true, and how many goroutines are about to close a channel.\<close>

definition returned_true :: "sig_op \<Rightarrow> sig_label list \<Rightarrow> nat" where
  "returned_true oper ls = length (filter (\<lambda>l. case l of Returns o' _ b \<Rightarrow> o' = oper \<and> b | _ \<Rightarrow> False) ls)"

definition closing :: "(nat \<Rightarrow> sig_pc) \<Rightarrow> nat set" where
  "closing pcs = {t. \<exists>c. pcs t = Closing c}"

lemma returned_true_snoc [simp]:
  "returned_true oper (ls @ [Returns o' t b]) = returned_true oper ls + (if o' = oper \<and> b then 1 else 0)"
  "returned_true oper (ls @ [SigInternal]) = returned_true oper ls"
  "returned_true oper (ls @ [Panics t]) = returned_true oper ls"
  by (simp_all add: returned_true_def)

lemma closing_upd [simp]:
  "closing (pcs(t := p)) = (if \<exists>c. p = Closing c then insert t (closing pcs) else closing pcs - {t})"
  by (auto simp: closing_def)

lemmas closing_if [simp] = closing_upd [unfolded fun_upd_def]

lemma closing_outside: "\<forall>c. pcs t \<noteq> Closing c \<Longrightarrow> closing pcs - {t} = closing pcs"
  by (auto simp: closing_def)

text \<open>
  Every channel that a reset installed is the current one, is about to be closed, or was closed by a
  call of \<^verbatim>\<open>Signal\<close> that returned true.
\<close>

lemma signal_count:
  assumes "run sig_step s0 ls s" and "s0 = NewSignal"
  shows "finite (closing (sig_pcs s)) \<and>
    returned_true OpSignal ls + card (closing (sig_pcs s)) + (if sig_ch s = None then 0 else 1) = returned_true OpReset ls + 1"
  using assms
proof (induction rule: run.induct)
  case run_Nil
  then show ?case
    by (simp add: NewSignal_def Reset_def zero_Signal_def closing_def returned_true_def)
next
  case (run_snoc s0 ls s l s')
  note IH = run_snoc.IH [OF run_snoc.prems]
  show ?case using run_snoc.hyps(2)
  proof cases
    case (signal_swap t c)
    then have "t \<notin> closing (sig_pcs s)" by (auto simp: closing_def)
    with signal_swap IH show ?thesis by simp
  next
    case (signal_close t c)
    then have "t \<in> closing (sig_pcs s)" by (auto simp: closing_def)
    then have "Suc (card (closing (sig_pcs s) - {t})) = card (closing (sig_pcs s))" using IH card_Suc_Diff1 [of "closing (sig_pcs s)" t] by simp
    with signal_close IH show ?thesis by simp
  next
    case (reset t b)
    then show ?thesis using IH by (auto simp: Reset_def Let_def split: if_splits)
  qed (use IH closing_outside [of "sig_pcs s"] in auto)
qed

section \<open>Properties\<close>

text \<open>
  Claim C21. However goroutines interleave their calls of \<^verbatim>\<open>Signal\<close>, \<^verbatim>\<open>Reset\<close>, \<^verbatim>\<open>Wait\<close> and
  \<^verbatim>\<open>SignalWhen\<close> on one signal, no channel is closed twice: \<^verbatim>\<open>Signal\<close> never panics.
\<close>

theorem signal_no_panic:
  assumes "s0 = NewSignal \<or> s0 = zero_Signal" and "run sig_step s0 ls s"
  shows "Panics t \<notin> set ls"
  using assms(2,1)
proof (induction rule: run.induct)
  case (run_snoc s0 ls s l s')
  then have inv: "sig_inv s" using sig.reachable_inv by blast
  from run_snoc.hyps(2) have "l \<noteq> Panics t"
    by cases (use sig_invD(4) [OF inv] in auto)
  with run_snoc show ?case by auto
qed simp

theorem signal_no_panic_witness:
  "run sig_step NewSignal [SigInternal, Returns OpSignal 1 False]
     (set_pc 1 Outside (set_pc 0 (Closing 0) (NewSignal\<lparr>sig_ch := None\<rparr>))) \<and>
   Panics 0 \<notin> set [SigInternal, Returns OpSignal 1 False]"
proof -
  let ?s1 = "set_pc 0 (Closing 0) (NewSignal\<lparr>sig_ch := None\<rparr>)"
  have "sig_step NewSignal SigInternal ?s1"
    by (rule sig_step.signal_swap) (simp_all add: NewSignal_def Reset_def zero_Signal_def)
  moreover have "sig_step ?s1 (Returns OpSignal 1 False) (set_pc 1 Outside ?s1)"
    by (rule sig_step.signal_already) (simp_all add: NewSignal_def Reset_def zero_Signal_def)
  ultimately have r: "run sig_step NewSignal [SigInternal, Returns OpSignal 1 False] (set_pc 1 Outside ?s1)"
    by (blast intro: run_Cons run_single)
  with signal_no_panic [OF _ r, of 0] show ?thesis by blast
qed

text \<open>
  Once the signal has been triggered, a goroutine that waits for the channel of that time is
  released: at most two steps, the closing of the channel and its own, separate it from returning.
  This holds even if the signal has been reset in the meantime.
\<close>

theorem waiters_released:
  assumes "run sig_step NewSignal ls s" and "sig_pcs s t = WaitingFor c" and "sig_ch s \<noteq> Some c"
  shows "\<exists>ls' s'. run sig_step s (ls' @ [Returns OpWait t True]) s' \<and> length ls' \<le> 1"
proof -
  have inv: "sig_inv s" using sig.reachable_inv assms(1) by blast
  have "retired s c" by (rule sig_invD(7) [OF inv assms(2,3)])
  then consider "c \<in> sig_closed s" | t' where "sig_pcs s t' = Closing c" "c \<notin> sig_closed s"
    unfolding retired_def by blast
  then show ?thesis
  proof cases
    case 1
    with assms(2) show ?thesis
      by (intro exI [of _ "[]"]) (auto intro!: exI run_single sig_step.wait_end)
  next
    case 2
    let ?s1 = "set_pc t' Outside (s\<lparr>sig_closed := insert c (sig_closed s)\<rparr>)"
    from 2 have "sig_step s (Returns OpSignal t' True) ?s1" by (rule sig_step.signal_close)
    moreover from 2 assms(2) have "t' \<noteq> t" by auto
    with assms(2) have "sig_step ?s1 (Returns OpWait t True) (set_pc t Outside ?s1)"
      by (intro sig_step.wait_end [of _ _ c]) auto
    ultimately show ?thesis
      by (intro exI [of _ "[Returns OpSignal t' True]"]) (auto intro!: exI run_Cons run_single)
  qed
qed

theorem waiters_released_witness:
  "\<exists>s. run sig_step NewSignal [SigInternal, SigInternal] s \<and> sig_pcs s 7 = WaitingFor 0 \<and>
     (\<exists>ls' s'. run sig_step s (ls' @ [Returns OpWait 7 True]) s' \<and> length ls' \<le> 1)"
proof -
  let ?s1 = "set_pc 7 (WaitingFor 0) NewSignal"
  let ?s2 = "set_pc 3 (Closing 0) (?s1\<lparr>sig_ch := None\<rparr>)"
  have "sig_step NewSignal SigInternal ?s1"
    by (rule sig_step.wait_start) (simp_all add: NewSignal_def Reset_def zero_Signal_def)
  moreover have "sig_step ?s1 SigInternal ?s2"
    by (rule sig_step.signal_swap) (simp_all add: NewSignal_def Reset_def zero_Signal_def)
  ultimately have r: "run sig_step NewSignal [SigInternal, SigInternal] ?s2" by (blast intro: run_Cons run_single)
  moreover have "sig_pcs ?s2 7 = WaitingFor 0" "sig_ch ?s2 \<noteq> Some 0" by simp_all
  ultimately show ?thesis using waiters_released [OF r, of 7 0] by blast
qed

text \<open>
  Claim C22. Triggering is exclusive. When all calls on a new signal have returned, the number of
  \<^verbatim>\<open>Signal\<close> calls that returned true is the number of \<^verbatim>\<open>Reset\<close> calls that returned true, plus one
  if the signal is triggered: each untriggered period is ended by exactly one of the competing calls.
\<close>

theorem signal_exclusive:
  assumes "run sig_step NewSignal ls s" and "\<forall>t. sig_pcs s t = Outside"
  shows "returned_true OpSignal ls = returned_true OpReset ls + (if sig_IsDone s then 1 else 0)"
proof -
  have "closing (sig_pcs s) = {}" using assms(2) by (simp add: closing_def)
  moreover have "sig_IsDone s \<longleftrightarrow> sig_ch s = None"
    using IsDone_iff [OF sig.reachable_inv [OF _ assms(1)]] by blast
  ultimately show ?thesis using signal_count [OF assms(1) refl] by (auto split: if_splits)
qed

theorem signal_exclusive_witness:
  "\<exists>s. run sig_step NewSignal [SigInternal, Returns OpSignal 0 True, Returns OpSignal 1 False] s \<and>
     sig_IsDone s \<and> returned_true OpSignal [SigInternal, Returns OpSignal 0 True, Returns OpSignal 1 False] =
       returned_true OpReset [SigInternal, Returns OpSignal 0 True, Returns OpSignal 1 False] + 1"
proof -
  let ?s1 = "set_pc 0 (Closing 0) (NewSignal\<lparr>sig_ch := None\<rparr>)"
  let ?s2 = "set_pc 0 Outside (?s1\<lparr>sig_closed := insert 0 (sig_closed ?s1)\<rparr>)"
  let ?s3 = "set_pc 1 Outside ?s2"
  have "sig_step NewSignal SigInternal ?s1"
    by (rule sig_step.signal_swap) (simp_all add: NewSignal_def Reset_def zero_Signal_def)
  moreover have "sig_step ?s1 (Returns OpSignal 0 True) ?s2"
    by (rule sig_step.signal_close) (simp_all add: NewSignal_def Reset_def zero_Signal_def)
  moreover have "sig_step ?s2 (Returns OpSignal 1 False) ?s3"
    by (rule sig_step.signal_already) (simp_all add: NewSignal_def Reset_def zero_Signal_def)
  ultimately have r: "run sig_step NewSignal [SigInternal, Returns OpSignal 0 True, Returns OpSignal 1 False] ?s3"
    by (blast intro: run_Cons run_single)
  moreover have o: "\<forall>t. sig_pcs ?s3 t = Outside" "sig_IsDone ?s3"
    by (simp_all add: NewSignal_def Reset_def zero_Signal_def sig_IsDone_def)
  ultimately show ?thesis using signal_exclusive [OF r o(1)] by (intro exI [of _ ?s3]) simp
qed

text \<open>
  The two forms of waiting agree: a wait with a positive timeout succeeds if one without a timeout would
  return before it, and may do either if that is when the timer fires; one without a positive timeout
  succeeds if a plain wait would return at once.
\<close>

theorem WaitWithTimeout_Wait:
  "WaitWithTimeout pick w timeout \<longleftrightarrow>
     (\<exists>t. Wait w = Some t \<and> (if timeout \<le> 0 then t = 0 else t < timeout \<or> t = timeout \<and> pick))"
  by (cases w) (auto simp: Wait_def WaitWithTimeout_def IsDone_def)

text \<open>
  \<^verbatim>\<open>DoWithTimeout\<close> performs the action, and then reports true, if the condition is met before
  the timeout (already met, if there is no timeout); it performs nothing and reports false if the
  condition is met only later or never.
\<close>

theorem DoWithTimeout_spec:
  "DoWithTimeout pick w action timeout st \<in> {(True, action st), (False, st)} \<and>
   (fst (DoWithTimeout pick w action timeout st) \<longleftrightarrow>
      (\<exists>d. w = Some d \<and> (d < timeout \<or> d \<le> 0 \<or> d = timeout \<and> pick)))"
  by (cases w) (auto simp: DoWithTimeout_def WaitWithTimeout_def IsDone_def)

end
