(* ===== verification/PipeConn.thy ===== *)
theory PipeConn
  imports Concurrency
begin

text \<open>
  \<^verbatim>\<open>internal/pipeconn\<close>: a listener inside the process, through which the gRPC client reaches the
  local proxy. \<^verbatim>\<open>DialContext\<close> makes a pipe and offers one end on an unbuffered channel, from which
  \<^verbatim>\<open>Accept\<close> takes it; a signal tells both that the listener was closed. Pipes are numbers, in the
  order in which they are made; each has two ends.
\<close>

section \<open>State\<close>

definition ErrClosed :: go_error where "ErrClosed = ErrNew ''listener was closed''"
definition ErrAlreadyClosed :: go_error where "ErrAlreadyClosed = ErrNew ''already closed''"

text \<open>The address of every pipe of the standard library, as a string.\<close>

definition pipeAddr :: string where "pipeAddr = ''pipe''"

text \<open>The two connections that \<^verbatim>\<open>net.Pipe\<close> returns; what is written to one is read from the other.\<close>

datatype pipe_end = FirstEnd (pipe: nat) | SecondEnd (pipe: nat)

fun peer :: "pipe_end \<Rightarrow> pipe_end" where
  "peer (FirstEnd p) = SecondEnd p"
| "peer (SecondEnd p) = FirstEnd p"

definition net_Pipe :: "nat \<Rightarrow> pipe_end \<times> pipe_end" where
  "net_Pipe p = (FirstEnd p, SecondEnd p)"

text \<open>
  Where a goroutine stands: it has passed the first check of \<^verbatim>\<open>Accept\<close> or \<^verbatim>\<open>DialContext\<close>, or
  waits in their \<^verbatim>\<open>select\<close> (with the channel that \<^verbatim>\<open>Done\<close> returned), or is about to close
  the signal's channel. \<open>Dialling serverConn clientConn\<close> offers \<open>serverConn\<close> and keeps
  \<open>clientConn\<close>.
\<close>

datatype pl_pc =
    PlOutside
  | AcceptChecked
  | Accepting "nat option"
  | DialChecked
  | Dialling pipe_end pipe_end "nat option"
  | PlClosing

record pipeListener =
  pl_closed :: signal_state
  pl_pipes :: nat
  pl_pcs :: "nat \<Rightarrow> pl_pc"
  pl_ctx_done :: "nat set"

definition NewPipeListener :: pipeListener where
  "NewPipeListener = \<lparr>pl_closed = NewSignal, pl_pipes = 0, pl_pcs = (\<lambda>_. PlOutside), pl_ctx_done = {}\<rparr>"

section \<open>Steps\<close>

text \<open>
  \<open>MakesPipe t p\<close>: the \<^verbatim>\<open>DialContext\<close> that goroutine \<open>t\<close> is in makes the pipe \<open>p\<close>.
  \<open>Connects d a x y\<close>: goroutine \<open>d\<close> meets goroutine \<open>a\<close> on the channel; its
  \<^verbatim>\<open>DialContext\<close> returns the connection \<open>x\<close>, the other's \<^verbatim>\<open>Accept\<close> the connection \<open>y\<close>.
  The other labels are calls that return an error, and \<^verbatim>\<open>Close\<close>.
\<close>

datatype pl_label =
    PlInternal
  | MakesPipe nat nat
  | Connects nat nat pipe_end pipe_end
  | AcceptFails nat go_error
  | DialFails nat go_error
  | Closes nat err

abbreviation pl_set :: "nat \<Rightarrow> pl_pc \<Rightarrow> pipeListener \<Rightarrow> pipeListener" where
  "pl_set t p s \<equiv> s\<lparr>pl_pcs := (pl_pcs s)(t := p)\<rparr>"

inductive pl_step :: "(nat \<Rightarrow> go_error) \<Rightarrow> pipeListener \<Rightarrow> pl_label \<Rightarrow> pipeListener \<Rightarrow> bool" for ctxErr where
  accept_closed: "pl_pcs s t = PlOutside \<Longrightarrow> sig_IsDone (pl_closed s) \<Longrightarrow>
    pl_step ctxErr s (AcceptFails t ErrClosed) s"
| accept_check: "pl_pcs s t = PlOutside \<Longrightarrow> \<not> sig_IsDone (pl_closed s) \<Longrightarrow>
    pl_step ctxErr s PlInternal (pl_set t AcceptChecked s)"
| accept_select: "pl_pcs s t = AcceptChecked \<Longrightarrow>
    pl_step ctxErr s PlInternal (pl_set t (Accepting (Done (pl_closed s))) s)"
| accept_done: "pl_pcs s t = Accepting c \<Longrightarrow> chan_done (pl_closed s) c \<Longrightarrow>
    pl_step ctxErr s (AcceptFails t ErrClosed) (pl_set t PlOutside s)"
| dial_closed: "pl_pcs s t = PlOutside \<Longrightarrow> sig_IsDone (pl_closed s) \<Longrightarrow>
    pl_step ctxErr s (DialFails t ErrClosed) s"
| dial_check: "pl_pcs s t = PlOutside \<Longrightarrow> \<not> sig_IsDone (pl_closed s) \<Longrightarrow>
    pl_step ctxErr s PlInternal (pl_set t DialChecked s)"
| dial_select: "pl_pcs s t = DialChecked \<Longrightarrow> net_Pipe (pl_pipes s) = (serverConn, clientConn) \<Longrightarrow>
    pl_step ctxErr s (MakesPipe t (pl_pipes s))
      (pl_set t (Dialling serverConn clientConn (Done (pl_closed s))) (s\<lparr>pl_pipes := pl_pipes s + 1\<rparr>))"
| dial_done: "pl_pcs s t = Dialling serverConn clientConn c \<Longrightarrow> chan_done (pl_closed s) c \<Longrightarrow>
    pl_step ctxErr s (DialFails t ErrClosed) (pl_set t PlOutside s)"
| dial_cancelled: "pl_pcs s t = Dialling serverConn clientConn c \<Longrightarrow> t \<in> pl_ctx_done s \<Longrightarrow>
    pl_step ctxErr s (DialFails t (ctxErr t)) (pl_set t PlOutside s)"
| connect: "pl_pcs s d = Dialling serverConn clientConn c \<Longrightarrow> pl_pcs s a = Accepting c' \<Longrightarrow>
    pl_step ctxErr s (Connects d a clientConn serverConn) (pl_set a PlOutside (pl_set d PlOutside s))"
| close_begin: "pl_pcs s t = PlOutside \<Longrightarrow> sig_pcs (pl_closed s) t = Outside \<Longrightarrow>
    sig_step (pl_closed s) SigInternal sig' \<Longrightarrow> sig_pcs sig' t = Closing c \<Longrightarrow>
    pl_step ctxErr s PlInternal (pl_set t PlClosing (s\<lparr>pl_closed := sig'\<rparr>))"
| close_end: "pl_pcs s t = PlClosing \<Longrightarrow> sig_step (pl_closed s) (Returns OpSignal t True) sig' \<Longrightarrow>
    pl_step ctxErr s (Closes t None) (pl_set t PlOutside (s\<lparr>pl_closed := sig'\<rparr>))"
| close_already: "pl_pcs s t = PlOutside \<Longrightarrow> sig_step (pl_closed s) (Returns OpSignal t False) sig' \<Longrightarrow>
    pl_step ctxErr s (Closes t (Some ErrAlreadyClosed)) (s\<lparr>pl_closed := sig'\<rparr>)"
| context_done: "pl_step ctxErr s PlInternal (s\<lparr>pl_ctx_done := insert t (pl_ctx_done s)\<rparr>)"

section \<open>The signal inside the listener\<close>

text \<open>The three ways in which \<^verbatim>\<open>Close\<close> moves the signal.\<close>

inductive_cases sig_internalE: "sig_step s SigInternal s'"
inductive_cases sig_signalE: "sig_step s (Returns OpSignal t b) s'"

lemma close_swap:
  assumes "sig_step s SigInternal s'" and "sig_pcs s t = Outside" and "sig_pcs s' t = Closing c"
  shows "sig_ch s = Some c \<and> s' = set_pc t (Closing c) (s\<lparr>sig_ch := None\<rparr>)"
  using assms(1) by (rule sig_internalE) (use assms(2,3) in \<open>auto split: if_splits\<close>)

lemma close_returns:
  assumes "sig_step s (Returns OpSignal t b) s'"
  shows "if b then \<exists>c. sig_pcs s t = Closing c \<and> c \<notin> sig_closed s \<and>
      s' = set_pc t Outside (s\<lparr>sig_closed := insert c (sig_closed s)\<rparr>)
    else sig_ch s = None \<and> s' = set_pc t Outside s"
  using assms by (rule sig_signalE) auto

section \<open>Invariant\<close>

text \<open>
  The signal's invariant holds, and goroutines close its channel only inside \<^verbatim>\<open>Close\<close>. Pipes on
  offer have been made, with both ends in the same hands, and no two goroutines offer the same one. A goroutine in a \<^verbatim>\<open>select\<close> waits for
  the signal's channel or for one that is or will be closed.
\<close>

definition chan_known :: "signal_state \<Rightarrow> nat option \<Rightarrow> bool" where
  "chan_known s c = (case c of None \<Rightarrow> sig_ch s = None | Some c \<Rightarrow> sig_ch s = Some c \<or> sig_ch s = None \<and> retired s c)"

definition pl_inv :: "pipeListener \<Rightarrow> bool" where
  "pl_inv s \<longleftrightarrow> sig_inv (pl_closed s) \<and>
     (\<forall>t. sig_pcs (pl_closed s) t = Outside \<or> pl_pcs s t = PlClosing \<and> (\<exists>c. sig_pcs (pl_closed s) t = Closing c)) \<and>
     (\<forall>t x y c. pl_pcs s t = Dialling x y c \<longrightarrow> pipe x < pl_pipes s \<and> (x, y) = net_Pipe (pipe x)) \<and>
     (\<forall>t t' x y x' y' c c'. pl_pcs s t = Dialling x y c \<longrightarrow> pl_pcs s t' = Dialling x' y' c' \<longrightarrow> pipe x' = pipe x \<longrightarrow> t' = t) \<and>
     (\<forall>t c. pl_pcs s t = Accepting c \<or> (\<exists>x y. pl_pcs s t = Dialling x y c) \<longrightarrow> chan_known (pl_closed s) c)"

lemma pl_invI:
  assumes "sig_inv (pl_closed s)"
    and "\<And>t. sig_pcs (pl_closed s) t = Outside \<or> pl_pcs s t = PlClosing \<and> (\<exists>c. sig_pcs (pl_closed s) t = Closing c)"
    and "\<And>t x y c. pl_pcs s t = Dialling x y c \<Longrightarrow> pipe x < pl_pipes s \<and> (x, y) = net_Pipe (pipe x)"
    and "\<And>t t' x y x' y' c c'. pl_pcs s t = Dialling x y c \<Longrightarrow> pl_pcs s t' = Dialling x' y' c' \<Longrightarrow> pipe x' = pipe x \<Longrightarrow> t' = t"
    and "\<And>t c. pl_pcs s t = Accepting c \<Longrightarrow> chan_known (pl_closed s) c"
    and "\<And>t x y c. pl_pcs s t = Dialling x y c \<Longrightarrow> chan_known (pl_closed s) c"
  shows "pl_inv s"
  using assms unfolding pl_inv_def by blast

lemma pl_invD:
  assumes "pl_inv s"
  shows "sig_inv (pl_closed s)"
    "sig_pcs (pl_closed s) t = Outside \<or> pl_pcs s t = PlClosing \<and> (\<exists>c. sig_pcs (pl_closed s) t = Closing c)"
    "pl_pcs s t = Dialling x y c \<Longrightarrow> pipe x < pl_pipes s \<and> (x, y) = net_Pipe (pipe x)"
    "pl_pcs s t = Dialling x y c \<Longrightarrow> pl_pcs s t' = Dialling x' y' c' \<Longrightarrow> pipe x' = pipe x \<Longrightarrow> t' = t"
    "pl_pcs s t = Accepting c \<Longrightarrow> chan_known (pl_closed s) c"
    "pl_pcs s t = Dialling x y c \<Longrightarrow> chan_known (pl_closed s) c"
  using assms unfolding pl_inv_def by blast+

lemma pl_inv_New: "pl_inv NewPipeListener"
  by (rule pl_invI) (simp_all add: NewPipeListener_def sig_inv_New, simp add: NewSignal_def Reset_def zero_Signal_def)

text \<open>A goroutine leaves a call, or moves on inside \<^verbatim>\<open>Accept\<close> or before the \<^verbatim>\<open>select\<close> of \<^verbatim>\<open>DialContext\<close>.\<close>

lemma pl_inv_move:
  assumes inv: "pl_inv s" and t: "pl_pcs s t \<noteq> PlClosing"
    and q: "q \<in> {PlOutside, AcceptChecked, DialChecked} \<or> (\<exists>c. q = Accepting c \<and> chan_known (pl_closed s) c)"
  shows "pl_inv (pl_set t q s)"
proof (rule pl_invI)
  fix t'
  show "sig_pcs (pl_closed (pl_set t q s)) t' = Outside \<or>
      pl_pcs (pl_set t q s) t' = PlClosing \<and> (\<exists>c. sig_pcs (pl_closed (pl_set t q s)) t' = Closing c)"
    using pl_invD(2) [OF inv, of t'] t by auto
qed (use pl_invD(1,3-6) [OF inv] q in \<open>auto split: if_splits\<close>)

lemma chan_known_Done: "chan_known s (Done s)"
  by (simp add: chan_known_def Done_def WaitC_def split: option.split)

lemma pl_inv_dial:
  assumes inv: "pl_inv s" and t: "pl_pcs s t = DialChecked" and p: "net_Pipe (pl_pipes s) = (x, y)"
  shows "pl_inv (pl_set t (Dialling x y (Done (pl_closed s))) (s\<lparr>pl_pipes := pl_pipes s + 1\<rparr>))"
    (is "pl_inv ?s")
proof (rule pl_invI)
  fix t'
  show "sig_pcs (pl_closed ?s) t' = Outside \<or> pl_pcs ?s t' = PlClosing \<and> (\<exists>c. sig_pcs (pl_closed ?s) t' = Closing c)"
    using pl_invD(2) [OF inv, of t'] t by auto
next
  fix t1 t2 x1 y1 x2 y2 c c'
  assume "pl_pcs ?s t1 = Dialling x1 y1 c" "pl_pcs ?s t2 = Dialling x2 y2 c'" "pipe x2 = pipe x1"
  then show "t2 = t1"
    using pl_invD(3,4) [OF inv] p by (fastforce simp: net_Pipe_def split: if_splits)
next
  fix t' x' y' c assume "pl_pcs ?s t' = Dialling x' y' c"
  then show "pipe x' < pl_pipes ?s \<and> (x', y') = net_Pipe (pipe x')"
    using pl_invD(3) [OF inv, of t' x' y' c] p by (auto simp: net_Pipe_def split: if_splits)
qed (use pl_invD(1,5,6) [OF inv] chan_known_Done [of "pl_closed s"] in \<open>auto split: if_splits\<close>)

lemma chan_known_swap:
  assumes "sig_ch s = Some c0" and "chan_known s c"
  shows "chan_known (set_pc t (Closing c0) (s\<lparr>sig_ch := None\<rparr>)) c"
  using assms by (auto simp: chan_known_def retired_def split: option.splits)

lemma chan_known_close:
  assumes "sig_pcs s t = Closing c0" and "chan_known s c"
  shows "chan_known (set_pc t Outside (s\<lparr>sig_closed := insert c0 (sig_closed s)\<rparr>)) c"
proof -
  have "retired (set_pc t Outside (s\<lparr>sig_closed := insert c0 (sig_closed s)\<rparr>)) c'" if "retired s c'" for c'
    using that assms(1) unfolding retired_def by auto (metis sig_pc.inject(1))
  with assms(2) show ?thesis by (auto simp: chan_known_def split: option.splits)
qed

text \<open>The signal and the position of one goroutine change together.\<close>

lemma pl_inv_signal:
  assumes inv: "pl_inv s" and "sig_inv sig'"
    and "q \<in> {PlOutside, PlClosing}" and "\<And>c. chan_known (pl_closed s) c \<Longrightarrow> chan_known sig' c"
    and "\<And>t'. t' \<noteq> t \<Longrightarrow> sig_pcs sig' t' = sig_pcs (pl_closed s) t'"
    and "sig_pcs sig' t = Outside \<or> q = PlClosing \<and> (\<exists>c. sig_pcs sig' t = Closing c)"
  shows "pl_inv (pl_set t q (s\<lparr>pl_closed := sig'\<rparr>))" (is "pl_inv ?s")
proof (rule pl_invI)
  fix t'
  show "sig_pcs (pl_closed ?s) t' = Outside \<or> pl_pcs ?s t' = PlClosing \<and> (\<exists>c. sig_pcs (pl_closed ?s) t' = Closing c)"
    using pl_invD(2) [OF inv, of t'] assms(5,6) by (cases "t' = t") auto
qed (use assms(2-4) pl_invD(3-6) [OF inv] in \<open>auto split: if_splits\<close>)

lemma pl_inv_step:
  assumes inv: "pl_inv s" and "pl_step ctxErr s l s'"
  shows "pl_inv s'"
  using assms(2)
proof cases
  case (accept_select t)
  then show ?thesis using pl_inv_move [OF inv, of t] chan_known_Done by auto
next
  case (dial_select t x y)
  then show ?thesis using pl_inv_dial [OF inv dial_select(3,4)] by simp
next
  case (connect d x y c a c')
  have "pl_inv (pl_set d PlOutside s)" using pl_inv_move [OF inv, of d PlOutside] connect by simp
  from pl_inv_move [OF this, of a PlOutside] connect show ?thesis by simp
next
  case (close_begin t sig' c)
  note sw = close_swap [OF close_begin(5,4,6)]
  have "sig_inv sig'" using sig_inv_step [OF pl_invD(1) [OF inv] close_begin(5)] .
  then show ?thesis unfolding close_begin(2)
    by (rule pl_inv_signal [OF inv]) (use sw chan_known_swap [of "pl_closed s" c] in auto)
next
  case (close_end t sig')
  from close_returns [OF close_end(4)] obtain c0 where c0: "sig_pcs (pl_closed s) t = Closing c0"
    "sig' = set_pc t Outside ((pl_closed s)\<lparr>sig_closed := insert c0 (sig_closed (pl_closed s))\<rparr>)" by auto
  have "sig_inv sig'" using sig_inv_step [OF pl_invD(1) [OF inv] close_end(4)] .
  then show ?thesis unfolding close_end(2)
    by (rule pl_inv_signal [OF inv]) (use c0 chan_known_close [OF c0(1)] in auto)
next
  case (close_already t sig')
  have "sig_pcs (pl_closed s) t = Outside" using pl_invD(2) [OF inv, of t] close_already by auto
  then have "sig' = pl_closed s" using close_returns [OF close_already(4)] by (simp add: fun_upd_idem)
  with close_already inv show ?thesis by simp
next
  case (accept_check t)
  then show ?thesis using pl_inv_move [OF inv, of t AcceptChecked] by simp
next
  case (dial_check t)
  then show ?thesis using pl_inv_move [OF inv, of t DialChecked] by simp
next
  case (accept_done t c)
  then show ?thesis using pl_inv_move [OF inv, of t PlOutside] by simp
next
  case (dial_done t x y c)
  then show ?thesis using pl_inv_move [OF inv, of t PlOutside] by simp
next
  case (dial_cancelled t x y c)
  then show ?thesis using pl_inv_move [OF inv, of t PlOutside] by simp
qed (use inv in \<open>simp_all add: pl_inv_def\<close>)

interpretation pl: invariant "\<lambda>s. s = NewPipeListener" "pl_step ctxErr" pl_inv for ctxErr
  by standard (auto simp: pl_inv_New intro: pl_inv_step)

section \<open>Traces\<close>

text \<open>The connections that calls return, and the labels with which a call of a goroutine returns.\<close>

fun returned_conns :: "pl_label \<Rightarrow> pipe_end list" where
  "returned_conns (Connects d a x y) = [x, y]"
| "returned_conns _ = []"

fun call_returns :: "nat \<Rightarrow> pl_label \<Rightarrow> bool" where
  "call_returns t PlInternal \<longleftrightarrow> False"
| "call_returns t (MakesPipe t' p) \<longleftrightarrow> False"
| "call_returns t (Connects d a x y) \<longleftrightarrow> t = d \<or> t = a"
| "call_returns t (AcceptFails t' e) \<longleftrightarrow> t = t'"
| "call_returns t (DialFails t' e) \<longleftrightarrow> t = t'"
| "call_returns t (Closes t' e) \<longleftrightarrow> t = t'"

definition handed_over :: "pl_label list \<Rightarrow> pipe_end list" where
  "handed_over ls = concat (map returned_conns ls)"

definition closed_ok :: "pl_label list \<Rightarrow> nat" where
  "closed_ok ls = length (filter (\<lambda>l. case l of Closes _ None \<Rightarrow> True | _ \<Rightarrow> False) ls)"

lemma handed_over_snoc: "handed_over (ls @ [l]) = handed_over ls @ returned_conns l"
  by (simp add: handed_over_def)

text \<open>A pipe that was handed over is not on offer any more.\<close>

lemma handed_over_inv:
  assumes "run (pl_step ctxErr) s0 ls s" and "s0 = NewPipeListener"
  shows "distinct (handed_over ls) \<and>
    (\<forall>z \<in> set (handed_over ls). pipe z < pl_pipes s \<and> (\<forall>t x y c. pl_pcs s t = Dialling x y c \<longrightarrow> pipe x \<noteq> pipe z))"
  using assms
proof (induction rule: run.induct)
  case run_Nil
  then show ?case by (simp add: handed_over_def)
next
  case (run_snoc s0 ls s l s')
  note IH = run_snoc.IH [OF run_snoc.prems]
  have inv: "pl_inv s" using pl.reachable_inv run_snoc.hyps(1) run_snoc.prems by blast
  from run_snoc.hyps(2) show ?case
  proof cases
    case (connect d x y c a c')
    have xy: "pipe x < pl_pipes s" "x = FirstEnd (pipe x)" "y = SecondEnd (pipe x)"
      using pl_invD(3) [OF inv connect(3)] by (auto simp: net_Pipe_def)
    have new: "\<And>z. z \<in> set (handed_over ls) \<Longrightarrow> pipe z \<noteq> pipe x"
      "\<And>t x' y' c. t \<noteq> d \<Longrightarrow> pl_pcs s t = Dialling x' y' c \<Longrightarrow> pipe x' \<noteq> pipe x"
      using IH connect(3) pl_invD(4) [OF inv connect(3)] by metis+
    have "x \<noteq> y" "pipe y = pipe x" using xy(2,3) by (metis pipe_end.distinct(1), metis pipe_end.sel(2))
    with connect IH xy(1) new show ?thesis by (auto simp: handed_over_snoc split: if_splits)
  next
    case (dial_select t x y)
    with IH show ?thesis by (fastforce simp: handed_over_snoc net_Pipe_def split: if_splits)
  qed (use IH in \<open>auto simp: handed_over_snoc split: if_splits\<close>)
qed

text \<open>A pipe on offer was made by the call that offers it, and that call has not returned.\<close>

definition made_by :: "nat \<Rightarrow> pipe_end \<Rightarrow> pipe_end \<Rightarrow> pl_label list \<Rightarrow> bool" where
  "made_by t x y ls \<longleftrightarrow> (\<exists>before p during. ls = before @ MakesPipe t p # during \<and> (x, y) = net_Pipe p \<and>
     list_all (\<lambda>l. \<not> call_returns t l) during)"

lemma dialling_step:
  assumes "pl_step ctxErr s l s'" and "pl_pcs s' t = Dialling x y c"
  shows "pl_pcs s t = Dialling x y c \<and> \<not> call_returns t l \<or> (\<exists>p. l = MakesPipe t p \<and> (x, y) = net_Pipe p)"
  using assms by cases (auto split: if_splits)

lemma made_by_snoc:
  "made_by t x y ls \<Longrightarrow> \<not> call_returns t l \<Longrightarrow> made_by t x y (ls @ [l])"
  unfolding made_by_def by fastforce

lemma made_by_made: "(x, y) = net_Pipe p \<Longrightarrow> made_by t x y (ls @ [MakesPipe t p])"
  unfolding made_by_def by fastforce

lemma made_by_inv:
  assumes "run (pl_step ctxErr) s0 ls s" and "s0 = NewPipeListener" and "pl_pcs s t = Dialling x y c"
  shows "made_by t x y ls"
  using assms
proof (induction arbitrary: t x y c rule: run.induct)
  case run_Nil
  then show ?case by (simp add: NewPipeListener_def)
next
  case (run_snoc s0 ls s l s')
  from dialling_step [OF run_snoc.hyps(2) run_snoc.prems(2)] show ?case
    using run_snoc.IH [OF run_snoc.prems(1)] made_by_snoc made_by_made by blast
qed

lemma connects_inv:
  assumes "run (pl_step ctxErr) s0 ls s" and "s0 = NewPipeListener" and "ls = ls1 @ Connects d a x y # ls2"
  shows "d \<noteq> a \<and> made_by d y x ls1"
  using assms
proof (induction arbitrary: ls2 rule: run.induct)
  case (run_snoc s0 ls s l s')
  show ?case
  proof (cases ls2 rule: rev_cases)
    case Nil
    with run_snoc.prems have l: "l = Connects d a x y" "ls = ls1" by simp_all
    from run_snoc.hyps(2) have "\<exists>c c'. pl_pcs s d = Dialling y x c \<and> pl_pcs s a = Accepting c'"
      unfolding l(1) by cases auto
    then obtain c c' where pcs: "pl_pcs s d = Dialling y x c" "pl_pcs s a = Accepting c'" by blast
    then have "d \<noteq> a" by auto
    with made_by_inv [OF run_snoc.hyps(1) run_snoc.prems(1) pcs(1)] l(2) show ?thesis by simp
  next
    case (snoc ls3 l')
    with run_snoc show ?thesis by simp
  qed
qed simp

text \<open>A closed listener stays closed, and a goroutine that is outside stays out of its channel.\<close>

lemma closed_inv:
  assumes "run (pl_step ctxErr) s ls s'" and "pl_inv s" and "sig_ch (pl_closed s) = None"
    and "pl_pcs s t \<in> {PlOutside, PlClosing}"
  shows "sig_ch (pl_closed s') = None \<and> pl_pcs s' t \<in> {PlOutside, PlClosing} \<and>
    (\<forall>d a x y. Connects d a x y \<in> set ls \<longrightarrow> d \<noteq> t \<and> a \<noteq> t)"
  using assms
proof (induction rule: run.induct)
  case (run_snoc s0 ls s l s')
  note IH = run_snoc.IH [OF run_snoc.prems]
  have inv: "pl_inv s" using pl.inv_run run_snoc.hyps(1) run_snoc.prems(1) by blast
  have IsDone: "sig_IsDone (pl_closed s)" using IsDone_iff [OF pl_invD(1) [OF inv]] IH by simp
  from run_snoc.hyps(2) show ?case
  proof cases
    case (close_begin t' sig' c)
    then show ?thesis using close_swap [OF close_begin(5,4,6)] IH by simp
  next
    case (close_end t' sig')
    then show ?thesis using close_returns [OF close_end(4)] IH by auto
  next
    case (close_already t' sig')
    then show ?thesis using close_returns [OF close_already(4)] IH by auto
  qed (use IH IsDone in \<open>auto split: if_splits\<close>)
qed simp

section \<open>Properties\<close>

text \<open>
  Claim C18. Connections are not mixed up, whatever goroutines dial, accept, cancel and close at the same
  time. Every connection is returned at most once, by \<^verbatim>\<open>DialContext\<close> and \<^verbatim>\<open>Accept\<close> together.
  Whenever the two meet, they are calls of different goroutines and return the opposite ends of one pipe:
  the pipe that this very call of \<^verbatim>\<open>DialContext\<close> made, which has not returned since.
\<close>

theorem pipes_handed_over_once:
  assumes "run (pl_step ctxErr) NewPipeListener ls s"
  shows "distinct (handed_over ls) \<and>
    (\<forall>ls1 d a x y ls2. ls = ls1 @ Connects d a x y # ls2 \<longrightarrow> d \<noteq> a \<and> y = peer x \<and>
       (\<exists>before p during. ls1 = before @ MakesPipe d p # during \<and> (y, x) = net_Pipe p \<and>
          (\<forall>l \<in> set during. \<not> call_returns d l)))"
proof -
  have "d \<noteq> a \<and> y = peer x \<and> (\<exists>before p during. ls1 = before @ MakesPipe d p # during \<and> (y, x) = net_Pipe p \<and>
      (\<forall>l \<in> set during. \<not> call_returns d l))" if "ls = ls1 @ Connects d a x y # ls2" for ls1 d a x y ls2
    using connects_inv [OF assms refl that] by (auto simp: made_by_def net_Pipe_def list_all_iff)
  with handed_over_inv [OF assms refl] show ?thesis by blast
qed

text \<open>
  No connection is made by a call of \<^verbatim>\<open>Accept\<close> or \<^verbatim>\<open>DialContext\<close> that begins after
  the listener was closed.
\<close>

theorem closed_listener_refuses:
  assumes "run (pl_step ctxErr) NewPipeListener ls s" and "sig_IsDone (pl_closed s)" and "pl_pcs s t = PlOutside"
    and "run (pl_step ctxErr) s ls' s'"
  shows "\<forall>d a x y. Connects d a x y \<in> set ls' \<longrightarrow> d \<noteq> t \<and> a \<noteq> t"
proof -
  have inv: "pl_inv s" using pl.reachable_inv assms(1) by blast
  then have "sig_ch (pl_closed s) = None" using assms(2) IsDone_iff pl_invD(1) by blast
  from closed_inv [OF assms(4) inv this, of t] assms(3) show ?thesis by simp
qed

text \<open>
  Closing the listener releases the calls that wait: at most one step, by the goroutine that
  closes, separates a waiting \<^verbatim>\<open>Accept\<close> or \<^verbatim>\<open>DialContext\<close> from returning \<^verbatim>\<open>ErrClosed\<close>.
\<close>

theorem close_releases:
  assumes "run (pl_step ctxErr) NewPipeListener ls s" and "sig_IsDone (pl_closed s)"
    and "pl_pcs s t = Accepting c \<or> pl_pcs s t = Dialling x y c"
  shows "\<exists>ls' l s'. run (pl_step ctxErr) s (ls' @ [l]) s' \<and> length ls' \<le> 1 \<and>
    l \<in> {AcceptFails t ErrClosed, DialFails t ErrClosed}"
proof -
  have inv: "pl_inv s" using pl.reachable_inv assms(1) by blast
  have ch: "sig_ch (pl_closed s) = None" using assms(2) IsDone_iff pl_invD(1) inv by blast
  have known: "chan_known (pl_closed s) c" using assms(3) pl_invD(5,6) [OF inv] by blast
  have release: "\<exists>l s'. pl_step ctxErr u l s' \<and> l \<in> {AcceptFails t ErrClosed, DialFails t ErrClosed}"
    if "chan_done (pl_closed u) c" "pl_pcs u t = pl_pcs s t" for u
    using that assms(3) accept_done [of u t c] dial_done [of u t x y c] by auto
  consider "chan_done (pl_closed s) c" | c0 t' where "c = Some c0" "sig_pcs (pl_closed s) t' = Closing c0"
    using known ch by (cases c) (auto simp: chan_known_def chan_done_def retired_def)
  then show ?thesis
  proof cases
    case 1
    from release [OF this refl] obtain l s' where "pl_step ctxErr s l s'"
      "l \<in> {AcceptFails t ErrClosed, DialFails t ErrClosed}" by blast
    then show ?thesis by (intro exI [of _ "[]"]) (auto intro: run_single)
  next
    case 2
    let ?sig = "set_pc t' Outside ((pl_closed s)\<lparr>sig_closed := insert c0 (sig_closed (pl_closed s))\<rparr>)"
    let ?u = "pl_set t' PlOutside (s\<lparr>pl_closed := ?sig\<rparr>)"
    have t': "pl_pcs s t' = PlClosing" using pl_invD(2) [OF inv, of t'] 2(2) by auto
    then have "t' \<noteq> t" using assms(3) by auto
    have "c0 \<notin> sig_closed (pl_closed s)" using sig_invD(4) [OF pl_invD(1) [OF inv] 2(2)] .
    with 2(2) have "sig_step (pl_closed s) (Returns OpSignal t' True) ?sig" by (rule signal_close)
    with t' have u: "pl_step ctxErr s (Closes t' None) ?u" by (rule close_end)
    obtain l s' where l: "pl_step ctxErr ?u l s'" "l \<in> {AcceptFails t ErrClosed, DialFails t ErrClosed}"
      using release [of ?u] 2(1) \<open>t' \<noteq> t\<close> by (auto simp: chan_done_def)
    have "run (pl_step ctxErr) s ([Closes t' None] @ [l]) s'"
      using run_Cons [of "pl_step ctxErr", OF u run_single [of "pl_step ctxErr", OF l(1)]] by simp
    with l(2) show ?thesis by (intro exI [of _ "[Closes t' None]"]) auto
  qed
qed

lemma closed_ok_inv:
  assumes "run (pl_step ctxErr) s0 ls s" and "s0 = NewPipeListener"
  shows "closed_ok ls + card {t. pl_pcs s t = PlClosing} + (if sig_ch (pl_closed s) = None then 0 else 1) = 1 \<and>
    finite {t. pl_pcs s t = PlClosing}"
  using assms
proof (induction rule: run.induct)
  case run_Nil
  then show ?case by (simp add: closed_ok_def NewPipeListener_def NewSignal_def Reset_def zero_Signal_def)
next
  case (run_snoc s0 ls s l s')
  note IH = run_snoc.IH [OF run_snoc.prems]
  let ?C = "{t. pl_pcs s t = PlClosing}"
  have upd: "{t'. ((pl_pcs s)(t := q)) t' = PlClosing} = (if q = PlClosing then insert t ?C else ?C - {t})" for t q
    by auto
  have out: "pl_pcs s t \<noteq> PlClosing \<Longrightarrow> ?C - {t} = ?C" for t by auto
  from run_snoc.hyps(2) show ?case
  proof cases
    case (close_begin t sig' c)
    then show ?thesis
      using close_swap [OF close_begin(5,4,6)] IH upd [of t PlClosing] by (simp add: closed_ok_def)
  next
    case (close_end t sig')
    have "sig_ch sig' = sig_ch (pl_closed s)" using close_returns [OF close_end(4)] by auto
    moreover have "Suc (card (?C - {t})) = card ?C" using card_Suc_Diff1 [of ?C t] IH close_end(3) by simp
    ultimately show ?thesis using IH close_end upd [of t PlOutside] by (simp add: closed_ok_def)
  next
    case (close_already t sig')
    then show ?thesis using close_returns [OF close_already(4)] IH by (simp add: closed_ok_def)
  next
    case (connect d x y c a c')
    then have "{t. pl_pcs s' t = PlClosing} = ?C" by auto
    with connect IH show ?thesis by (simp add: closed_ok_def)
  qed (use IH upd out in \<open>auto simp: closed_ok_def\<close>)
qed

lemma close_errors:
  assumes "run (pl_step ctxErr) s0 ls s" and "Closes t (Some e) \<in> set ls"
  shows "e = ErrAlreadyClosed"
  using assms
proof (induction rule: run.induct)
  case (run_snoc s0 ls s l s')
  from run_snoc.hyps(2) run_snoc.IH run_snoc.prems show ?case by cases auto
qed simp

text \<open>
  At most one call of \<^verbatim>\<open>Close\<close> reports success; the others return
  \<^verbatim>\<open>ErrAlreadyClosed\<close>.
\<close>

theorem close_succeeds_once:
  assumes "run (pl_step ctxErr) NewPipeListener ls s"
  shows "closed_ok ls \<le> 1 \<and> (closed_ok ls = 1 \<longrightarrow> sig_IsDone (pl_closed s)) \<and>
    (\<forall>t e. Closes t (Some e) \<in> set ls \<longrightarrow> e = ErrAlreadyClosed)"
proof -
  have inv: "sig_inv (pl_closed s)" using pl.reachable_inv assms pl_invD(1) by blast
  show ?thesis
    using closed_ok_inv [OF assms refl] IsDone_iff [OF inv] close_errors [OF assms] by (auto split: if_splits)
qed

section \<open>Instances\<close>

text \<open>Goroutine 0 dials and goroutine 1 accepts; or goroutine 2 closes the listener while 1 waits.\<close>

lemma New_simps [simp]:
  "pl_pcs NewPipeListener t = PlOutside" "pl_closed NewPipeListener = NewSignal" "pl_pipes NewPipeListener = 0"
  "sig_ch NewSignal = Some 0" "sig_pcs NewSignal t = Outside" "sig_closed NewSignal = {}" "Done NewSignal = Some 0"
  by (simp_all add: NewPipeListener_def NewSignal_def Reset_def zero_Signal_def Done_def WaitC_def)

lemma New_not_done [simp]: "\<not> sig_IsDone NewSignal"
  by (simp add: sig_IsDone_def chan_done_def)

definition pl_waiting :: pipeListener where
  "pl_waiting = pl_set 1 (Accepting (Some 0)) (pl_set 1 AcceptChecked NewPipeListener)"

definition pl_closing :: pipeListener where
  "pl_closing = pl_set 2 PlClosing (pl_waiting\<lparr>pl_closed := set_pc 2 (Closing 0) (NewSignal\<lparr>sig_ch := None\<rparr>)\<rparr>)"

lemma waiting_simps [simp]:
  "pl_pcs pl_waiting t = (if t = 1 then Accepting (Some 0) else PlOutside)" "pl_closed pl_waiting = NewSignal"
  "pl_pipes pl_waiting = 0"
  by (simp_all add: pl_waiting_def)

lemma closing_simps [simp]:
  "pl_pcs pl_closing t = (if t = 1 then Accepting (Some 0) else if t = 2 then PlClosing else PlOutside)"
  "sig_ch (pl_closed pl_closing) = None" "sig_pcs (pl_closed pl_closing) 2 = Closing 0"
  "sig_closed (pl_closed pl_closing) = {}"
  by (simp_all add: pl_closing_def)

lemma run_waiting: "run (pl_step ctxErr) NewPipeListener [PlInternal, PlInternal] pl_waiting"
proof -
  have 1: "pl_step ctxErr NewPipeListener PlInternal (pl_set 1 AcceptChecked NewPipeListener)"
    by (rule accept_check) simp_all
  have 2: "pl_step ctxErr (pl_set 1 AcceptChecked NewPipeListener) PlInternal pl_waiting"
    using accept_select [of "pl_set 1 AcceptChecked NewPipeListener" 1 ctxErr] by (simp add: pl_waiting_def)
  show ?thesis by (rule run_Cons [of "pl_step ctxErr", OF 1], rule run_single, rule 2)
qed

lemma run_closing: "run (pl_step ctxErr) NewPipeListener [PlInternal, PlInternal, PlInternal] pl_closing"
proof -
  have "sig_step NewSignal SigInternal (set_pc 2 (Closing 0) (NewSignal\<lparr>sig_ch := None\<rparr>))"
    by (rule signal_swap) simp_all
  then have "pl_step ctxErr pl_waiting PlInternal pl_closing"
    unfolding pl_closing_def by (intro close_begin [of pl_waiting 2 _ 0]) simp_all
  then have "run (pl_step ctxErr) pl_waiting [PlInternal] pl_closing" by (rule run_single)
  from run_append [of "pl_step ctxErr", OF this run_waiting] show ?thesis by simp
qed

theorem pipes_handed_over_once_witness:
  "\<exists>s. run (pl_step (\<lambda>_. EOF)) NewPipeListener
       [PlInternal, PlInternal, PlInternal, MakesPipe 0 0, Connects 0 1 (SecondEnd 0) (FirstEnd 0)] s \<and>
     peer (SecondEnd 0) = FirstEnd 0 \<and>
     distinct (handed_over [PlInternal, PlInternal, PlInternal, MakesPipe 0 0, Connects 0 1 (SecondEnd 0) (FirstEnd 0)])"
proof -
  let ?x = "SecondEnd 0" and ?y = "FirstEnd 0"
  define s1 where "s1 = pl_set 0 DialChecked pl_waiting"
  define s2 where "s2 = pl_set 0 (Dialling ?y ?x (Some 0)) (s1\<lparr>pl_pipes := 1\<rparr>)"
  define s3 where "s3 = pl_set 1 PlOutside (pl_set 0 PlOutside s2)"
  have 1: "pl_step (\<lambda>_. EOF) pl_waiting PlInternal s1" unfolding s1_def by (rule dial_check) simp_all
  have 2: "pl_step (\<lambda>_. EOF) s1 (MakesPipe 0 0) s2"
    using dial_select [of s1 0 ?y ?x "\<lambda>_. EOF"] by (simp add: s1_def s2_def net_Pipe_def)
  have 3: "pl_step (\<lambda>_. EOF) s2 (Connects 0 1 ?x ?y) s3"
    unfolding s3_def by (rule connect [of _ _ _ _ "Some 0" _ "Some 0"]) (simp_all add: s1_def s2_def)
  have "run (pl_step (\<lambda>_. EOF)) pl_waiting [PlInternal, MakesPipe 0 0, Connects 0 1 ?x ?y] s3"
    by (rule run_Cons [of "pl_step (\<lambda>_. EOF)", OF 1], rule run_Cons [of "pl_step (\<lambda>_. EOF)", OF 2], rule run_single, rule 3)
  from run_append [of "pl_step (\<lambda>_. EOF)", OF this run_waiting]
  have r: "run (pl_step (\<lambda>_. EOF)) NewPipeListener
      ([PlInternal, PlInternal, PlInternal, MakesPipe 0 0] @ Connects 0 1 ?x ?y # []) s3"
    by simp
  have "?y = peer ?x" using pipes_handed_over_once [OF r] by blast
  moreover have "distinct (handed_over ([PlInternal, PlInternal, PlInternal, MakesPipe 0 0] @ Connects 0 1 ?x ?y # []))"
    using pipes_handed_over_once [OF r] by blast
  ultimately show ?thesis using r by (intro exI [of _ s3]) simp
qed

theorem closed_listener_refuses_witness:
  "\<forall>d a x y. Connects d a x y \<in> set [AcceptFails 3 ErrClosed] \<longrightarrow> d \<noteq> 3 \<and> a \<noteq> 3"
proof (rule closed_listener_refuses [OF run_closing])
  show "run (pl_step (\<lambda>_. EOF)) pl_closing [AcceptFails 3 ErrClosed] pl_closing"
    by (rule run_single, rule accept_closed) (simp_all add: sig_IsDone_def)
qed (simp_all add: sig_IsDone_def)

theorem close_releases_witness:
  "\<exists>ls' l s'. run (pl_step (\<lambda>_. EOF)) pl_closing (ls' @ [l]) s' \<and> length ls' \<le> 1 \<and>
    l \<in> {AcceptFails 1 ErrClosed, DialFails 1 ErrClosed}"
  by (rule close_releases [OF run_closing, of 1 "Some 0"]) (simp_all add: sig_IsDone_def)

theorem close_succeeds_once_witness:
  "\<exists>s. run (pl_step (\<lambda>_. EOF)) NewPipeListener ([PlInternal, PlInternal, PlInternal] @ [Closes 2 None]) s \<and>
     closed_ok ([PlInternal, PlInternal, PlInternal] @ [Closes 2 None]) = 1 \<and> sig_IsDone (pl_closed s)"
proof -
  let ?sig = "set_pc 2 Outside ((pl_closed pl_closing)\<lparr>sig_closed := insert 0 (sig_closed (pl_closed pl_closing))\<rparr>)"
  have "sig_step (pl_closed pl_closing) (Returns OpSignal 2 True) ?sig" by (rule signal_close) simp_all
  then have "pl_step (\<lambda>_. EOF) pl_closing (Closes 2 None) (pl_set 2 PlOutside (pl_closing\<lparr>pl_closed := ?sig\<rparr>))"
    by (intro close_end) simp_all
  then have "\<exists>s. pl_step (\<lambda>_. EOF) pl_closing (Closes 2 None) s" by blast
  then obtain s where "pl_step (\<lambda>_. EOF) pl_closing (Closes 2 None) s" ..
  then have "run (pl_step (\<lambda>_. EOF)) pl_closing [Closes 2 None] s" by (rule run_single)
  from run_append [of "pl_step (\<lambda>_. EOF)", OF this run_closing]
  have r: "run (pl_step (\<lambda>_. EOF)) NewPipeListener ([PlInternal, PlInternal, PlInternal] @ [Closes 2 None]) s" .
  with close_succeeds_once [OF r] show ?thesis by (intro exI [of _ s]) (simp add: closed_ok_def)
qed

end
