(* ===== verification/Client.thy ===== *)
theory Client
  imports ReverseProxy GrpcWebWriter PipeConn
begin

text \<open>
  \<^verbatim>\<open>client/proxy.go\<close>, \<^verbatim>\<open>client/options.go\<close> and the entry of \<^verbatim>\<open>client/ws_proxy.go\<close>: the
  proxy that runs in the client's process. The gRPC client connects to it over a pipe; it speaks
  gRPC-Web or gRPC over a WebSocket to the remote server.

  Outside the repository are the HTTP transport, the WebSocket dialler, the gRPC library with its code
  for \<^verbatim>\<open>Unavailable\<close>, and TLS configurations. They are arguments of the definitions, or types that
  stay open.
\<close>

section \<open>Options\<close>

record 'd connectOptions =
  co_dialOpts :: "'d list"
  co_extraH2ALPNs :: "string list"
  co_forceHTTP2 :: bool
  co_forceDowngrade :: bool
  co_useWebSocket :: bool
  co_contentType :: string

definition no_options :: "'d connectOptions" where
  "no_options = \<lparr>co_dialOpts = [], co_extraH2ALPNs = [], co_forceHTTP2 = False, co_forceDowngrade = False,
     co_useWebSocket = False, co_contentType = []\<rparr>"

datatype 'd ConnectOption =
    DialOpts "'d list"
  | ExtraH2ALPNs "string list"
  | ForceHTTP2
  | UseWebSocket bool
  | ForceDowngrade bool
  | WithContentType string

fun apply_option :: "'d ConnectOption \<Rightarrow> 'd connectOptions \<Rightarrow> 'd connectOptions" where
  "apply_option (DialOpts o') opts = opts\<lparr>co_dialOpts := co_dialOpts opts @ o'\<rparr>"
| "apply_option (ExtraH2ALPNs o') opts = opts\<lparr>co_extraH2ALPNs := co_extraH2ALPNs opts @ o'\<rparr>"
| "apply_option ForceHTTP2 opts = opts\<lparr>co_forceHTTP2 := True\<rparr>"
| "apply_option (UseWebSocket o') opts = opts\<lparr>co_useWebSocket := o'\<rparr>"
| "apply_option (ForceDowngrade o') opts = opts\<lparr>co_forceDowngrade := o'\<rparr>"
| "apply_option (WithContentType o') opts = opts\<lparr>co_contentType := o'\<rparr>"

section \<open>Responses\<close>

definition upgradedContentType :: "string \<Rightarrow> string option" where
  "upgradedContentType ct =
     (let (contentType, contentSubType) = Split2 ct ''+'' in
      if contentType \<noteq> ''application/grpc-web'' then None
      else Some (if contentSubType \<noteq> [] then ''application/grpc'' @ ''+'' @ contentSubType else ''application/grpc''))"

definition modifyResponse :: "response \<Rightarrow> err \<times> response" where
  "modifyResponse resp =
     (case (case resp_Body resp of
              RawBody b \<Rightarrow> (case ExtractResponseError resp b of (e, b) \<Rightarrow> (e, resp\<lparr>resp_Body := RawBody b\<rparr>))
            | WebBody _ \<Rightarrow> (None, resp)) of
        (Some e, resp) \<Rightarrow> (Some (ErrWrap ''receiving gRPC response from remote endpoint'' e), resp)
      | (None, resp) \<Rightarrow>
          let resp = (if resp_ContentLength resp = 0
                then resp\<lparr>resp_Header := hSet dontFlushHeadersHeaderKey ''true'' (resp_Header resp)\<rparr> else resp) in
          case upgradedContentType (hGet (resp_Header resp) ''Content-Type'') of
            None \<Rightarrow> (None, resp)
          | Some respCT \<Rightarrow>
              let resp = resp\<lparr>resp_Header := hSet ''Content-Type'' respCT (resp_Header resp)\<rparr> in
              (None, case resp_Body resp of
                 RawBody b \<Rightarrow> resp\<lparr>resp_Body := WebBody (NewResponseReader b (resp_Trailer resp) None)\<rparr>
               | WebBody _ \<Rightarrow> resp))"

definition writeError :: "nat \<Rightarrow> writer_ops \<Rightarrow> go_error \<Rightarrow> httpWriter \<Rightarrow> httpWriter" where
  "writeError unavailable ops e w =
     (let h = hSet ''Content-Type'' ''application/grpc'' (hw_header w);
          h = hAdd ''Trailer'' ''Grpc-Status'' h;
          h = hAdd ''Trailer'' ''Grpc-Message'' h;
          w = op_WriteHeader ops StatusOK (w\<lparr>hw_header := h\<rparr>);
          h = hSet ''Grpc-Status'' (show_nat unavailable) (hw_header w);
          errMsg = Error (ErrWrap ''transport'' e);
          h = hSet ''Grpc-Message'' (EncodeGrpcMessage errMsg) h
      in w\<lparr>hw_header := h\<rparr>)"

section \<open>The gRPC-Web proxy\<close>

definition scheme_of :: "bool \<Rightarrow> string" where
  "scheme_of insecure = (if insecure then ''http'' else ''https'')"

definition Director :: "string \<Rightarrow> bool \<Rightarrow> bool \<Rightarrow> string \<Rightarrow> request \<Rightarrow> request" where
  "Director endpoint insecure forceDowngrade contentType req =
     (let req =
            (if forceDowngrade then
               req\<lparr>req_ProtoMajor := 1, req_ProtoMinor := 1, req_Proto := ''HTTP/1.1'',
                 req_Header := hAdd GRPCWebOnlyHeader ''true'' (hDel ''Accept'' (hDel ''TE'' (req_Header req)))\<rparr>
             else req\<lparr>req_Header := hAdd ''Accept'' ''application/grpc'' (req_Header req)\<rparr>);
          req = req\<lparr>req_Header := hAdd ''Accept'' ''application/grpc-web'' (req_Header req)\<rparr>;
          req = (if 0 < length contentType
                 then req\<lparr>req_Header := hSet ''Content-Type'' contentType (req_Header req)\<rparr> else req)
      in req\<lparr>req_URL_Scheme := scheme_of insecure, req_URL_Host := endpoint\<rparr>)"

definition createReverseProxy ::
  "nat \<Rightarrow> string \<Rightarrow> (request \<Rightarrow> go_error + response) \<Rightarrow> bool \<Rightarrow> bool \<Rightarrow> string \<Rightarrow> writer_ops \<Rightarrow> request \<Rightarrow> httpWriter \<Rightarrow> proxied" where
  "createReverseProxy unavailable endpoint transport insecure forceDowngrade contentType =
     proxy_ServeHTTP (Director endpoint insecure forceDowngrade contentType) transport modifyResponse
       (writeError unavailable)"

text \<open>
  A transport: one that speaks HTTP/2 only (without TLS it dials plainly), or an adaptive one with the
  protocol handlers of \<^verbatim>\<open>TLSNextProto\<close>. \<open>configure\<close> is the result of
  \<^verbatim>\<open>http2.ConfigureTransport\<close> on it.
\<close>

datatype ('tls, 'h) transport =
    Http2Transport "'tls option" bool
  | HttpTransport "'tls option" "string \<Rightarrow> 'h option"

definition createTransport ::
  "(go_error + (string \<Rightarrow> 'h option)) \<Rightarrow> 'tls option \<Rightarrow> bool \<Rightarrow> string list \<Rightarrow> go_error + ('tls, 'h) transport" where
  "createTransport configure tlsClientConf forceHTTP2 extraH2ALPNs =
     (if forceHTTP2 then Inr (Http2Transport tlsClientConf (tlsClientConf = None))
      else case configure of
        Inl e \<Rightarrow> Inl (ErrWrap ''configuring transport for HTTP/2 use'' e)
      | Inr TLSNextProto \<Rightarrow>
          Inr (HttpTransport tlsClientConf
            (fold (\<lambda>extraALPN m. m(extraALPN := m ''h2'')) extraH2ALPNs TLSNextProto)))"

section \<open>The WebSocket proxy\<close>

definition subprotocols :: "string list" where
  [simp]: "subprotocols = [SubprotocolName]"

text \<open>
  \<^verbatim>\<open>url.String()\<close> for an URL of scheme, host and path in which nothing needs escaping, and the verb
  \<^verbatim>\<open>%q\<close> for such a text.
\<close>

definition URL_String :: "string \<Rightarrow> string \<Rightarrow> string \<Rightarrow> string" where
  "URL_String scheme host path = scheme @ ''://'' @ host @ path"

definition quoted :: "string \<Rightarrow> string" where
  "quoted s = [CHR 0x22] @ s @ [CHR 0x22]"

record http2WebSocketProxy =
  wp_insecure :: bool
  wp_endpoint :: string

datatype ws_dialled =
    DialError go_error "(response_head \<times> reader) option"
  | Dialled ws_out "ws_event list"

definition StatusUnsupportedMediaType :: int where [go_defs]: "StatusUnsupportedMediaType = 415"

definition ServeHTTP ::
  "nat \<Rightarrow> (string \<Rightarrow> header \<Rightarrow> string list \<Rightarrow> ws_dialled) \<Rightarrow> bool \<Rightarrow> http2WebSocketProxy \<Rightarrow> writer_ops \<Rightarrow>
     request \<Rightarrow> reader \<Rightarrow> httpWriter \<Rightarrow> httpWriter" where
  "ServeHTTP unavailable dial writerFirst h ops req body w =
     (if req_ProtoMajor req \<noteq> 2 \<or> \<not> HasPrefix (hGet (req_Header req) ''Content-Type'') ''application/grpc''
      then op_WriteHeader ops StatusUnsupportedMediaType w
      else
        let url = URL_String (scheme_of (wp_insecure h)) (wp_endpoint h) (req_Path req) in
        case dial url (req_Header req) subprotocols of
          DialError e resp \<Rightarrow>
            let e = (case resp of
                       None \<Rightarrow> e
                     | Some (head, b) \<Rightarrow>
                         (case fst (ExtractResponseError head b) of
                            None \<Rightarrow> e
                          | Some respErr \<Rightarrow> ErrNew (Error e @ ''; response error: '' @ Error respErr)))
            in writeError unavailable ops (ErrWrap (''connecting to gRPC endpoint '' @ quoted url) e) w
        | Dialled out evs \<Rightarrow> fst (serve_dialled unavailable writerFirst ops body out evs w))"

section \<open>Connecting\<close>

datatype ('tls, 'h) client_proxy =
    WSProxy http2WebSocketProxy "'tls option"
  | WebProxy string "('tls, 'h) transport" bool bool string

datatype ('tls, 'd) dial_option = ContextDialer | SideChannelCreds string 'tls | UserOption 'd

text \<open>
  The HTTP server that runs a proxy on a pipe. \<open>serverErr\<close> is the result of
  \<^verbatim>\<open>http2.ConfigureServer\<close>.
\<close>

record ('tls, 'h) proxy_server =
  srv_Addr :: string
  srv_Handler :: "('tls, 'h) client_proxy"

definition makeProxyServer :: "err \<Rightarrow> ('tls, 'h) client_proxy \<Rightarrow> go_error + ('tls, 'h) proxy_server" where
  "makeProxyServer serverErr handler =
     (case serverErr of
        Some e \<Rightarrow> Inl (ErrWrap ''configuring HTTP/2 server'' e)
      | None \<Rightarrow> Inr \<lparr>srv_Addr = pipeAddr, srv_Handler = handler\<rparr>)"

definition createClientWSProxy :: "err \<Rightarrow> string \<Rightarrow> 'tls option \<Rightarrow> go_error + ('tls, 'h) proxy_server" where
  "createClientWSProxy serverErr endpoint tlsClientConf =
     makeProxyServer serverErr
       (WSProxy \<lparr>wp_insecure = (tlsClientConf = None), wp_endpoint = endpoint\<rparr> tlsClientConf)"

definition createClientProxy ::
  "(go_error + (string \<Rightarrow> 'h option)) \<Rightarrow> err \<Rightarrow> string \<Rightarrow> 'tls option \<Rightarrow> bool \<Rightarrow> bool \<Rightarrow> string list \<Rightarrow> string \<Rightarrow>
     go_error + ('tls, 'h) proxy_server" where
  "createClientProxy configure serverErr endpoint tlsClientConf forceHTTP2 forceDowngrade extraH2ALPNs contentType =
     (case createTransport configure tlsClientConf forceHTTP2 extraH2ALPNs of
        Inl e \<Rightarrow> Inl (ErrWrap ''creating transport'' e)
      | Inr transport \<Rightarrow>
          makeProxyServer serverErr (WebProxy endpoint transport (tlsClientConf = None) forceDowngrade contentType))"

definition makeDialOpts :: "string \<Rightarrow> 'tls option \<Rightarrow> 'd connectOptions \<Rightarrow> ('tls, 'd) dial_option list" where
  "makeDialOpts endpoint tlsClientConf connectOpts =
     [ContextDialer] @ (case tlsClientConf of None \<Rightarrow> [] | Some tls \<Rightarrow> [SideChannelCreds endpoint tls]) @
     map UserOption (co_dialOpts connectOpts)"

text \<open>
  \<open>dial\<close> is the gRPC library's \<^verbatim>\<open>DialContext\<close>, with the address and the options that it is
  given. The result says what was connected, and for a failed dial that the proxy's server was closed
  again. What happens to the server afterwards is the subject of \<open>ProxyServer\<close>.
\<close>

datatype ('tls, 'h, 'c) connected =
    Connected "('tls, 'h) proxy_server" 'c
  | SetupFailed go_error
  | DialFailed go_error bool

definition dialGRPCServer ::
  "(string \<Rightarrow> ('tls, 'd) dial_option list \<Rightarrow> go_error + 'c) \<Rightarrow> ('tls, 'h) proxy_server \<Rightarrow> ('tls, 'd) dial_option list \<Rightarrow>
     ('tls, 'h, 'c) connected" where
  "dialGRPCServer dial proxy dialOpts =
     (case dial (srv_Addr proxy) dialOpts of
        Inl e \<Rightarrow> DialFailed e True
      | Inr cc \<Rightarrow> Connected proxy cc)"

definition ConnectViaProxy ::
  "(go_error + (string \<Rightarrow> 'h option)) \<Rightarrow> err \<Rightarrow> (string \<Rightarrow> ('tls, 'd) dial_option list \<Rightarrow> go_error + 'c) \<Rightarrow>
     string \<Rightarrow> 'tls option \<Rightarrow> 'd ConnectOption list \<Rightarrow> ('tls, 'h, 'c) connected" where
  "ConnectViaProxy configure serverErr dial endpoint tlsClientConf opts =
     (let connectOpts = fold apply_option opts no_options in
      case (if co_useWebSocket connectOpts then createClientWSProxy serverErr endpoint tlsClientConf
            else createClientProxy configure serverErr endpoint tlsClientConf (co_forceHTTP2 connectOpts)
              (co_forceDowngrade connectOpts) (co_extraH2ALPNs connectOpts) (co_contentType connectOpts)) of
        Inl e \<Rightarrow> SetupFailed (ErrWrap ''creating client proxy'' e)
      | Inr proxy \<Rightarrow> dialGRPCServer dial proxy (makeDialOpts endpoint tlsClientConf connectOpts))"

section \<open>Facts\<close>

lemma grpc_keys [simp]:
  "CanonicalHeaderKey ''Grpc-Status'' = ''Grpc-Status''" "CanonicalHeaderKey ''Grpc-Message'' = ''Grpc-Message''"
  "CanonicalHeaderKey ''Trailer'' = ''Trailer''"
  by code_simp+

lemma nb_key_ne [simp]: "dontFlushHeadersHeaderKey \<noteq> ''Trailer''" "dontFlushHeadersHeaderKey \<noteq> ''Content-Type''"
  "''Content-Type'' \<noteq> dontFlushHeadersHeaderKey" "''Trailer'' \<noteq> dontFlushHeadersHeaderKey"
  by (simp_all add: dontFlushHeadersHeaderKey_def)

text \<open>The content type of a gRPC response survives the downgrade and the upgrade.\<close>

lemma upgraded_downgraded:
  assumes "ct = ''application/grpc'' \<or> (\<exists>sub. sub \<noteq> [] \<and> ct = ''application/grpc+'' @ sub)"
  shows "upgradedContentType (downgradedContentType ct) = Some ct"
proof -
  have split: "Split2 (''application/grpc-web+'' @ sub) ''+'' = (''application/grpc-web'', sub)"
    "Split2 (''application/grpc+'' @ sub) ''+'' = (''application/grpc'', sub)" for sub
    by (simp_all add: Split2_char)
  have nosplit: "Split2 ''application/grpc-web'' ''+'' = (''application/grpc-web'', [])"
    "Split2 ''application/grpc'' ''+'' = (''application/grpc'', [])"
    by (simp_all add: Split2_char)
  from assms show ?thesis
  proof
    assume "\<exists>sub. sub \<noteq> [] \<and> ct = ''application/grpc+'' @ sub"
    then obtain sub where sub: "sub \<noteq> []" "ct = ''application/grpc+'' @ sub" by blast
    then have "downgradedContentType ct = ''application/grpc-web+'' @ sub"
      using split(2) [of sub] by (simp add: downgradedContentType_def)
    with sub split(1) [of sub] show ?thesis by (simp add: upgradedContentType_def)
  qed (simp add: upgradedContentType_def downgradedContentType_def nosplit)
qed

lemma modifyResponse_web:
  assumes "resp_StatusCode resp < 400" and "resp_Body resp = RawBody b"
    and "upgradedContentType (hGet (resp_Header resp) ''Content-Type'') = Some ct"
  obtains resp' where "modifyResponse resp = (None, resp')"
    and "resp_Body resp' = WebBody (NewResponseReader b (resp_Trailer resp) None)"
    and "resp_StatusCode resp' = resp_StatusCode resp" and "resp_Trailer resp' = resp_Trailer resp"
    and "resp_Header resp' = hSet ''Content-Type'' ct
      (if resp_ContentLength resp = 0 then hSet dontFlushHeadersHeaderKey ''true'' (resp_Header resp) else resp_Header resp)"
proof -
  have ct: "hGet (hSet dontFlushHeadersHeaderKey v h) ''Content-Type'' = hGet h ''Content-Type''" for v h
    by (simp add: hGet_def hSet_def nb_key)
  have b: "resp\<lparr>resp_Body := RawBody b\<rparr> = resp" using assms(2) by (cases resp) simp
  show ?thesis
    by (rule that [of "snd (modifyResponse resp)"])
      (use assms ct b in \<open>simp_all add: modifyResponse_def ExtractResponseError_def Let_def\<close>)
qed

lemma writeError_simps:
  "hvalues (hw_header (writeError unavailable ops e w)) ''Grpc-Status'' = [show_nat unavailable]"
  "hvalues (hw_header (writeError unavailable ops e w)) ''Grpc-Message'' = [EncodeGrpcMessage (''transport: '' @ Error e)]"
  by (simp_all add: writeError_def Let_def hSet_def)

lemma writeError_sent:
  assumes "ops \<in> {plain_ops, nonBuffering_ops}" and "hw_sent w = None"
  obtains h where "hw_sent (writeError unavailable ops e w) = Some (200, h)"
    and "hvalues h ''Trailer'' = hvalues (hw_header w) ''Trailer'' @ [''Grpc-Status'', ''Grpc-Message'']"
    and "hvalues h ''Content-Type'' = [''application/grpc'']"
proof -
  have flush: "hw_sent (hw_Flush w') = hw_sent w'" if "hw_sent w' \<noteq> None" for w'
    using that by (auto simp: hw_Flush_def hw_WriteHeader_def)
  show ?thesis
    by (rule that [of "snd (the (hw_sent (writeError unavailable ops e w)))"])
      (use assms flush in \<open>auto simp: writeError_def plain_ops_def nonBuffering_ops_def nb_WriteHeader_def hw_WriteHeader_def
        Let_def hSet_def hAdd_def hDel_def nb_key StatusOK_def\<close>)
qed

lemma percent_decode_error: "percent_decode (EncodeGrpcMessage msg) = to_valid_utf8 msg"
  by (simp add: Encode_eq_Unchecked percent_decode_unchecked)

lemma alpn_fold:
  "fold (\<lambda>a m. m(a := m ''h2'')) as m x = (if x \<in> set as then m ''h2'' else m x)"
proof (induction as arbitrary: m)
  case (Cons a as)
  show ?case using Cons [of "m(a := m ''h2'')"] by auto
qed simp

section \<open>Properties\<close>

text \<open>
  Claim C29. A transport error becomes a gRPC status: the response is sent with status 200 and
  announces the two trailers, and these say \<^verbatim>\<open>Unavailable\<close> and, after decoding, the text of the
  error (with ill-formed bytes replaced).
\<close>

theorem writeError_reports:
  assumes "ops \<in> {plain_ops, nonBuffering_ops}" and "hw_sent w = None" and "hvalues (hw_header w) ''Trailer'' = []"
  shows "(\<exists>h. hw_sent (writeError unavailable ops e w) = Some (200, h) \<and>
      hvalues h ''Trailer'' = [''Grpc-Status'', ''Grpc-Message''] \<and> hvalues h ''Content-Type'' = [''application/grpc'']) \<and>
    hvalues (hw_header (writeError unavailable ops e w)) ''Grpc-Status'' = [show_nat unavailable] \<and>
    map percent_decode (hvalues (hw_header (writeError unavailable ops e w)) ''Grpc-Message'') =
      [to_valid_utf8 (''transport: '' @ Error e)]"
  using writeError_sent [OF assms(1,2), of unavailable e] assms(3)
  by (auto simp: writeError_simps percent_decode_error)

text \<open>
  A response of a gRPC-Web server is passed on as the gRPC response it was made from: for
  a content type that the server's writer downgraded, the original one is restored, the body is read
  through the gRPC-Web reader, and no other header changes, but for the marker on an empty response.
\<close>

theorem modifyResponse_restores:
  assumes "resp_StatusCode resp < 400" and "resp_Body resp = RawBody b"
    and "hGet (resp_Header resp) ''Content-Type'' = downgradedContentType ct"
    and "ct = ''application/grpc'' \<or> (\<exists>sub. sub \<noteq> [] \<and> ct = ''application/grpc+'' @ sub)"
  shows "\<exists>resp'. modifyResponse resp = (None, resp') \<and>
    resp_Body resp' = WebBody (NewResponseReader b (resp_Trailer resp) None) \<and>
    hindex (resp_Header resp') ''Content-Type'' = Some [ct] \<and>
    (\<forall>k. k \<noteq> ''Content-Type'' \<and> k \<noteq> dontFlushHeadersHeaderKey \<longrightarrow> hindex (resp_Header resp') k = hindex (resp_Header resp) k) \<and>
    (hindex (resp_Header resp') dontFlushHeadersHeaderKey =
       (if resp_ContentLength resp = 0 then Some [''true''] else hindex (resp_Header resp) dontFlushHeadersHeaderKey))"
proof -
  have "upgradedContentType (hGet (resp_Header resp) ''Content-Type'') = Some ct"
    using assms(3) upgraded_downgraded [OF assms(4)] by simp
  then show ?thesis
    by (rule modifyResponse_web [OF assms(1,2)])
      (auto simp: hSet_def nb_key)
qed

text \<open>
  An error response of the remote server (a status of 400 or more) never reaches the gRPC
  client as data: it is turned into an error.
\<close>

theorem error_response_rejected:
  assumes "400 \<le> resp_StatusCode resp" and "resp_Body resp = RawBody b"
  shows "\<exists>t resp'. modifyResponse resp =
    (Some (ErrWrap ''receiving gRPC response from remote endpoint'' (ErrNew (resp_Status resp @ t))), resp')"
proof (cases rule: ExtractResponseError_cases [of resp b])
  case success
  with assms(1) show ?thesis by simp
qed (use assms(2) in \<open>auto simp: modifyResponse_def\<close>)

text \<open>
  If the WebSocket cannot be opened, the gRPC client gets the status \<^verbatim>\<open>Unavailable\<close>, with
  a message that names the endpoint and the error of the dialler and, if the remote server answered
  with an error response, the text of that.
\<close>

theorem ws_dial_failure_reported:
  assumes "req_ProtoMajor req = 2" and "HasPrefix (hGet (req_Header req) ''Content-Type'') ''application/grpc''"
    and "url = URL_String (scheme_of (wp_insecure h)) (wp_endpoint h) (req_Path req)"
    and "dial url (req_Header req) [''grpc-ws''] = DialError e resp"
    and "errText = (case resp of None \<Rightarrow> Error e
      | Some (head, b) \<Rightarrow> (case fst (ExtractResponseError head b) of None \<Rightarrow> Error e
         | Some respErr \<Rightarrow> Error e @ ''; response error: '' @ Error respErr))"
  shows "hvalues (hw_header (ServeHTTP unavailable dial writerFirst h ops req body w)) ''Grpc-Status'' = [show_nat unavailable] \<and>
    map percent_decode (hvalues (hw_header (ServeHTTP unavailable dial writerFirst h ops req body w)) ''Grpc-Message'') =
      [to_valid_utf8 (''transport: connecting to gRPC endpoint '' @ quoted url @ '': '' @ errText)]"
proof -
  have "\<exists>e'. ServeHTTP unavailable dial writerFirst h ops req body w = writeError unavailable ops e' w \<and>
      Error e' = ''connecting to gRPC endpoint '' @ quoted url @ '': '' @ errText"
    using assms by (auto simp: ServeHTTP_def SubprotocolName_def Let_def split: option.splits prod.splits)
  then show ?thesis by (auto simp: writeError_simps percent_decode_error)
qed

text \<open>
  The proxy for WebSockets takes gRPC requests over HTTP/2 only: everything else is answered
  with status 415 and no connection is opened.
\<close>

theorem ws_proxy_rejects:
  assumes "req_ProtoMajor req \<noteq> 2 \<or> \<not> (\<exists>t. hGet (req_Header req) ''Content-Type'' = ''application/grpc'' @ t)"
    and "hw_sent w = None" and "ops \<in> {plain_ops, nonBuffering_ops}"
  shows "(\<exists>hdr. hw_sent (ServeHTTP unavailable dial writerFirst h ops req body w) = Some (415, hdr)) \<and>
    ServeHTTP unavailable dial writerFirst h ops req body w = ServeHTTP unavailable dial' writerFirst h ops req body w"
proof -
  have "ServeHTTP unavailable d writerFirst h ops req body w = op_WriteHeader ops 415 w" for d
    using assms(1) by (auto simp: ServeHTTP_def HasPrefix_iff StatusUnsupportedMediaType_def)
  then show ?thesis
    using assms(2,3)
    by (auto simp: plain_ops_def nonBuffering_ops_def nb_WriteHeader_def hw_WriteHeader_def hw_Flush_def Let_def)
qed

text \<open>
  Every extra protocol name is handled by the HTTP/2 handler, and the handlers of all other
  names are left alone.
\<close>

theorem extra_ALPNs_speak_h2:
  "createTransport (Inr protos) tls False alpns = Inr (HttpTransport tls
     (\<lambda>p. if p \<in> set alpns then protos ''h2'' else protos p))"
  by (simp add: createTransport_def alpn_fold fun_eq_iff)

text \<open>
  With the WebSocket option in force the connection goes over the WebSocket proxy, no matter
  which other options are given and whether an HTTP transport could be configured; TLS is used exactly
  if a TLS configuration is given; and the user's dial options come last, in the order given.
\<close>

theorem websocket_option_wins:
  assumes "\<forall>opt \<in> set opts. \<forall>b. opt \<noteq> UseWebSocket b"
  shows "ConnectViaProxy configure None dial endpoint tls (opts' @ [UseWebSocket True] @ opts) =
    (case dial ''pipe'' ([ContextDialer] @ (case tls of None \<Rightarrow> [] | Some c \<Rightarrow> [SideChannelCreds endpoint c]) @
         map UserOption (concat (map (\<lambda>opt. case opt of DialOpts ds \<Rightarrow> ds | _ \<Rightarrow> []) (opts' @ opts)))) of
       Inl e \<Rightarrow> DialFailed e True
     | Inr cc \<Rightarrow> Connected \<lparr>srv_Addr = ''pipe'', srv_Handler = WSProxy \<lparr>wp_insecure = (tls = None), wp_endpoint = endpoint\<rparr> tls\<rparr> cc)"
proof -
  have ws: "co_useWebSocket (fold apply_option opts o0) = co_useWebSocket o0" for o0
    using assms
  proof (induction opts arbitrary: o0)
    case (Cons opt opts)
    then show ?case by (cases opt) auto
  qed simp
  have ds: "co_dialOpts (fold apply_option os o0) =
      co_dialOpts o0 @ concat (map (\<lambda>opt. case opt of DialOpts ds \<Rightarrow> ds | _ \<Rightarrow> []) os)" for os o0
  proof (induction os arbitrary: o0)
    case (Cons opt os)
    then show ?case by (cases opt) auto
  qed simp
  show ?thesis
    by (simp add: ConnectViaProxy_def Let_def createClientWSProxy_def makeProxyServer_def dialGRPCServer_def pipeAddr_def makeDialOpts_def ws ds no_options_def split: sum.split)
qed

section \<open>Instances\<close>

theorem writeError_reports_witness:
  "hvalues (hw_header (writeError 14 nonBuffering_ops EOF new_httpWriter)) ''Grpc-Status'' = [''14''] \<and>
   map percent_decode (hvalues (hw_header (writeError 14 nonBuffering_ops EOF new_httpWriter)) ''Grpc-Message'') =
     [''transport: EOF'']"
proof -
  have "show_nat 14 = ''14''" by code_simp
  moreover have "to_valid_utf8 (''transport: '' @ Error EOF) = ''transport: EOF''"
    by (rule trans [OF to_valid_utf8_id]) (simp_all add: ascii_valid)
  ultimately show ?thesis
    using writeError_reports [of nonBuffering_ops new_httpWriter 14 EOF] by simp
qed

abbreviation sample_resp :: response where
  "sample_resp \<equiv> \<lparr>resp_StatusCode = 200, resp_Status = ''200 OK'', resp_Header = [(''Content-Type'', [''application/grpc-web''])],
     resp_ContentLength = 0, resp_Body = RawBody [], resp_Trailer = None\<rparr>"

theorem modifyResponse_restores_witness:
  "\<exists>resp'. modifyResponse sample_resp = (None, resp') \<and> hindex (resp_Header resp') ''Content-Type'' = Some [''application/grpc'']"
proof -
  have "downgradedContentType ''application/grpc'' = ''application/grpc-web''" by code_simp
  then show ?thesis
    using modifyResponse_restores [of sample_resp "[]" "''application/grpc''"]
    by (auto simp: hGet_def hvalues_def hindex_def)
qed

theorem error_response_rejected_witness:
  "\<exists>e resp'. modifyResponse (sample_resp\<lparr>resp_StatusCode := 502, resp_Status := ''502''\<rparr>) = (Some e, resp')"
  using error_response_rejected [of "sample_resp\<lparr>resp_StatusCode := 502, resp_Status := ''502''\<rparr>" "[]"] by auto

abbreviation sample_call :: request where
  "sample_call \<equiv>
     \<lparr>req_Method = ''POST'', req_ProtoMajor = 2, req_ProtoMinor = 0, req_Proto = ''HTTP/2.0'', req_URL_Scheme = [],
      req_URL_Host = [], req_Path = ''/echo.Echo/Stream'', req_Header = [(''Content-Type'', [''application/grpc''])],
      req_ContentLength = -1, req_Body = HttpBody []\<rparr>"

theorem ws_dial_failure_reported_witness:
  "hvalues (hw_header (ServeHTTP 14 (\<lambda>_ _ _. DialError EOF None) False \<lparr>wp_insecure = True, wp_endpoint = ''localhost''\<rparr>
     plain_ops sample_call [] new_httpWriter)) ''Grpc-Status'' = [show_nat 14]"
  using ws_dial_failure_reported [of sample_call "URL_String (scheme_of True) ''localhost'' ''/echo.Echo/Stream''"
      "\<lparr>wp_insecure = True, wp_endpoint = ''localhost''\<rparr>" "\<lambda>_ _ _. DialError EOF None" EOF None "Error EOF" 14 False plain_ops "[]" new_httpWriter]
  by (simp add: hGet_def hvalues_def hindex_def HasPrefix_def)

theorem ws_proxy_rejects_witness:
  "\<exists>hdr. hw_sent (ServeHTTP 14 (\<lambda>_ _ _. DialError EOF None) False \<lparr>wp_insecure = True, wp_endpoint = ''localhost''\<rparr>
     nonBuffering_ops (sample_call\<lparr>req_ProtoMajor := 1\<rparr>) [] new_httpWriter) = Some (415, hdr)"
  using ws_proxy_rejects [of "sample_call\<lparr>req_ProtoMajor := 1\<rparr>" new_httpWriter nonBuffering_ops 14 "\<lambda>_ _ _. DialError EOF None"
      False "\<lparr>wp_insecure = True, wp_endpoint = ''localhost''\<rparr>" "[]" "\<lambda>_ _ _. Dialled \<lparr>ws_sent = [], ws_results = []\<rparr> []"]
  by auto

theorem websocket_option_wins_witness:
  "ConnectViaProxy (Inl EOF) None (\<lambda>_ ds. Inr (length ds)) ''localhost:443'' None [ForceDowngrade True, UseWebSocket True, DialOpts [7 :: nat]] =
     (Connected \<lparr>srv_Addr = ''pipe'', srv_Handler = WSProxy \<lparr>wp_insecure = True, wp_endpoint = ''localhost:443''\<rparr> (None :: unit option)\<rparr> 2 :: (unit, unit, nat) connected)"
  using websocket_option_wins [of "[DialOpts [7 :: nat]]" "Inl EOF :: go_error + (string \<Rightarrow> unit option)"
      "\<lambda>_ (ds :: (unit, nat) dial_option list). Inr (length ds)" "''localhost:443''" None "[ForceDowngrade True]"]
  by simp

end
