(* ===== verification/EndToEnd.thy ===== *)
theory EndToEnd
  imports Server Client
begin

text \<open>
  Client and server together: what the client's proxy asks for is what the server's handler
  decides, and what a handler of the gRPC server writes is what the gRPC client gets.
\<close>

section \<open>Hop-by-hop headers\<close>

lemma hop_canonical: "map CanonicalHeaderKey hopHeaders = hopHeaders"
  by code_simp

lemma fold_hDel: "fold hDel ks h = fold hdelete (map CanonicalHeaderKey ks) h"
  by (induction ks arbitrary: h) (simp_all add: hDel_def)

lemma hindex_remove_hop:
  assumes "hvalues h ''Connection'' = []"
  shows "hindex (remove_hop_headers h) k = (if k \<in> set hopHeaders then None else hindex h k)"
  using assms
  by (simp add: remove_hop_headers_def removeConnectionHeaders_def fold_hDel hop_canonical hmap.index_delete_all)

lemma hvalues_remove_hop:
  assumes "hvalues h ''Connection'' = []"
  shows "hvalues (remove_hop_headers h) k = (if k \<in> set hopHeaders then [] else hvalues h k)"
  by (simp add: hvalues_def hindex_remove_hop [OF assms])

lemma canonical_hdelete: "canonical_header h \<Longrightarrow> canonical_header (hdelete k h)"
  using header_ok_simps(3) [of h k] by (auto simp: canonical_header_def hdelete_def AList.delete_eq)

lemma canonical_hSet: "canonical_header h \<Longrightarrow> canonical_header (hSet k v h)"
  by (simp add: hSet_def canonical_hput)

lemma canonical_remove_hop:
  assumes "canonical_header h" and "hvalues h ''Connection'' = []"
  shows "canonical_header (remove_hop_headers h)"
proof -
  have "canonical_header h' \<Longrightarrow> canonical_header (fold hdelete ks h')" for ks h'
    by (induction ks arbitrary: h') (simp_all add: canonical_hdelete)
  with assms show ?thesis
    by (simp add: remove_hop_headers_def removeConnectionHeaders_def fold_hDel)
qed

lemma not_hop [simp]:
  "''Accept'' \<notin> set hopHeaders" "''Grpc-Web-Only'' \<notin> set hopHeaders" "''Content-Type'' \<notin> set hopHeaders"
  "''Te'' \<in> set hopHeaders"
  by (simp_all add: hopHeaders_def)

section \<open>What the client asks for\<close>

lemma outgoing_values:
  assumes "hvalues (req_Header (Dir req)) ''Connection'' = []"
  shows "hvalues (req_Header (outgoing_request Dir req)) k =
    (if k = ''Te'' \<and> HeaderValuesContainsToken (hvalues (req_Header req) ''Te'') ''trailers'' then [''trailers'']
     else if k \<in> set hopHeaders then [] else hvalues (req_Header (Dir req)) k)"
proof -
  have te: "CanonicalHeaderKey ''Te'' = ''Te''" by code_simp
  show ?thesis
    by (auto simp: outgoing_request_def Let_def hSet_def te hvalues_remove_hop [OF assms])
qed

lemma Director_values:
  "hvalues (req_Header (Director endpoint insecure force ct req)) ''Accept'' =
     (if force then [''application/grpc-web'']
      else hvalues (req_Header req) ''Accept'' @ [''application/grpc'', ''application/grpc-web''])"
  "hvalues (req_Header (Director endpoint insecure force ct req)) ''Grpc-Web-Only'' =
     hvalues (req_Header req) ''Grpc-Web-Only'' @ (if force then [''true''] else [])"
  "hvalues (req_Header (Director endpoint insecure force ct req)) ''Connection'' = hvalues (req_Header req) ''Connection''"
  by (simp_all add: Director_def Let_def hAdd_def hDel_def hSet_def GRPCWebOnlyHeader_def)

lemma accept_words:
  "FieldsFunc ''application/grpc'' spaceOrComma = [''application/grpc'']"
  "FieldsFunc ''application/grpc-web'' spaceOrComma = [''application/grpc-web'']"
  by (rule FieldsFunc_last; simp add: spaceOrComma_def IsSpace_def)+

text \<open>
  Claim C8. A client that forces the downgrade gets a gRPC-Web response for every method that does not
  stream from the client, and an error for the others; never a native response, although the standard
  proxy puts the \<^verbatim>\<open>TE\<close> header back that the client's director removed.
\<close>

theorem forced_downgrade_negotiated:
  assumes "hvalues (req_Header creq) ''Connection'' = []"
    and "req_Header sreq = req_Header (outgoing_request (Director endpoint insecure True ct) creq)"
  shows "handleGRPCWeb serve order paths opts sreq w =
    (if req_Path sreq \<in> set paths then web_response order (serve (with_trailers (as_http2 sreq))) w
     else if req_ProtoMajor sreq = 2
       then http_Error ''Client requires a gRPC-Web response to a method that cannot be downgraded'' 400 w
     else http_Error ''Method cannot be downgraded'' 500 w)"
proof -
  note v = outgoing_values [of "Director endpoint insecure True ct" creq, unfolded Director_values, OF assms(1)]
  have "hvalues (req_Header sreq) ''Accept'' = [''application/grpc-web'']" "web_only sreq"
    by (simp_all add: assms(2) v Director_values web_only_def GRPCWebOnlyHeader_def)
  moreover from this(1) have "accepts sreq ''application/grpc-web''" by (simp add: accepts_def accept_words)
  ultimately show ?thesis by (simp add: handleGRPCWeb_chooses preference_def refusal_def)
qed

text \<open>
  Claim C7. What a client in its default mode gets, which offers trailers and accepts gRPC and gRPC-Web, if
  the server is reached by HTTP/2 or the method does not stream from the client. If the \<^verbatim>\<open>TE\<close> header
  arrives, the response is native gRPC, unless the server prefers gRPC-Web and the method does not stream
  from the client: then it is downgraded. If an intermediary drops the header, the response is downgraded,
  unless the method streams from the client: then the request is refused with status 400. So a server that
  prefers gRPC-Web answers natively where the method streams from the client, although the comment on the
  option says that it always sends a downgraded response to a client that accepts one.
\<close>

theorem adaptive_downgrade:
  assumes "hvalues (req_Header creq) ''Connection'' = []" and "hvalues (req_Header creq) ''Te'' = [''trailers'']"
    and "hvalues (req_Header creq) ''Grpc-Web-Only'' = []" and "req_ProtoMajor sreq = 2 \<or> req_Path sreq \<in> set paths"
    and "h = req_Header (outgoing_request (Director endpoint insecure False ct) creq)"
    and "req_Header sreq = (if dropped then hDel ''TE'' h else h)"
  shows "handleGRPCWeb serve order paths opts sreq w =
    (if \<not> dropped \<and> \<not> (preferGRPCWeb opts \<and> req_Path sreq \<in> set paths) then plain_handle (serve (as_http2 sreq)) w
     else if req_Path sreq \<in> set paths then web_response order (serve (with_trailers (as_http2 sreq))) w
     else http_Error ''Client requires a gRPC-Web response to a method that cannot be downgraded'' 400 w)"
proof -
  note v = outgoing_values [of "Director endpoint insecure False ct" creq, unfolded Director_values, OF assms(1)]
  have tok: "HeaderValuesContainsToken [''trailers''] ''trailers''" by code_simp
  have "hvalues (req_Header sreq) ''Accept'' =
      hvalues (req_Header creq) ''Accept'' @ [''application/grpc'', ''application/grpc-web'']"
    by (simp add: assms(5,6) v Director_values hDel_def)
  then have acc: "accepts sreq ''application/grpc-web''" "accepts sreq ''application/grpc''"
    by (simp_all add: accepts_def accept_words)
  have "\<not> web_only sreq"
    by (simp add: assms(3,5,6) v Director_values web_only_def GRPCWebOnlyHeader_def hDel_def)
  moreover have "takes_trailers sreq \<longleftrightarrow> \<not> dropped"
    using assms(2) tok by (auto simp: takes_trailers_def hGet_def assms(5,6) v hDel_def)
  ultimately show ?thesis using acc assms(4) by (auto simp: handleGRPCWeb_chooses preference_def refusal_def)
qed

section \<open>What the client gets\<close>

text \<open>The response writers that the proxy may have.\<close>

lemma proxy_writer: "ops \<in> {plain_ops, nonBuffering_ops} \<Longrightarrow> response_writer ops"
  using plain.response_writer_axioms nonBuffering.response_writer_axioms by blast

lemma copyHeader_eq: "copyHeader src dst = add_fields False src dst"
  by (simp add: copyHeader_def add_fields_def)

lemma no_fields: "copyHeader [] h = h" "add_fields b [] h = h"
  by (simp_all add: copyHeader_def add_fields_def)

text \<open>
  Copying a response with a gRPC-Web body: its messages become the body, its trailers are sent under
  the trailer prefix, and the headers are those of the response.
\<close>

lemma copy_web_response:
  assumes "response_writer ops" and "resp_Body res = WebBody r" and "resp_Trailer res = None"
    and "canonical_header (resp_Header res)" and "\<forall>k \<in> fst ` set (resp_Header res). \<not> HasPrefix k TrailerPrefix"
    and "read_until Read (replicate n copyBufferSize) r = (d, Some EOF, r')"
    and "rr_trailers r' = Some tr" and "header_ok tr"
    and "hw_healthy w" and "hw_header w = []" and "hw_body w = []" and "hw_sent w = None"
  obtains w' h where "copy_response ops res w = Finished w'" and "hw_body w' = d"
    and "\<And>name. hvalues (hw_header w') (TrailerPrefix @ name) = hvalues tr name"
    and "hw_sent w' = Some (resp_StatusCode res, h)"
    and "\<And>k. k \<noteq> dontFlushHeadersHeaderKey \<Longrightarrow> hvalues h k = hvalues (resp_Header res) k"
proof -
  let ?h = "copyHeader (resp_Header res) (hw_header w)"
  define w1 where "w1 = op_WriteHeader ops (resp_StatusCode res) (w\<lparr>hw_header := ?h\<rparr>)"
  have wh: "hvalues ?h k = hvalues (resp_Header res) k" for k
    by (simp add: copyHeader_eq hvalues_add_fields_headers [OF assms(4)] assms(10))
  have w1: "hw_healthy w1" "hw_body w1 = []"
    "\<And>k. k \<noteq> dontFlushHeadersHeaderKey \<Longrightarrow> hvalues (hw_header w1) k = hvalues (resp_Header res) k"
    using response_writer.WriteHeader_ok [OF assms(1), of "resp_StatusCode res" "w\<lparr>hw_header := ?h\<rparr>"] assms(9,11) wh
    by (simp_all add: w1_def hw_healthy_def hvalues_def)
  have rd: "read_until body_Read (replicate n copyBufferSize) (resp_Body res) = (d, Some EOF, WebBody r')"
    by (simp add: assms(2,6) read_until_WebBody)
  have sub: "set (replicate n copyBufferSize) \<subseteq> {copyBufferSize}" by auto
  obtain w2 where
    w2: "copyBuffer ops (resp_Body res) w1 = Some (None, WebBody r', w2)" "hw_body w2 = d" "hw_header w2 = hw_header w1"
      "hw_sent w1 \<noteq> None \<longrightarrow> hw_sent w2 = hw_sent w1"
    using response_writer.copyBuffer_until [OF assms(1) rd sub w1(1)] w1(2) by auto
  have sent: "hw_sent w1 = Some (resp_StatusCode res, hw_header w1)"
    using response_writer.WriteHeader_sends [OF assms(1), of "w\<lparr>hw_header := ?h\<rparr>"] assms(12) by (simp add: w1_def)
  define w' where "w' = w2\<lparr>hw_header := add_fields True tr (hw_header w2)\<rparr>"
  have "copy_response ops res w = Finished w'"
    using w2(1) assms(3,7)
    by (cases tr) (simp_all add: copy_response_def Let_def w1_def [symmetric] final_trailer_def w'_def no_fields)
  moreover have "hvalues (hw_header w') (TrailerPrefix @ name) = hvalues tr name" for name
  proof -
    have "TrailerPrefix @ name \<noteq> dontFlushHeadersHeaderKey" by (simp add: TrailerPrefix_def dontFlushHeadersHeaderKey_def)
    moreover have "hvalues (resp_Header res) (TrailerPrefix @ name) = []"
      using assms(5) HasPrefix_append [of TrailerPrefix name] by (intro hvalues_notin) blast
    ultimately show ?thesis
      using hvalues_add_fields_trailers(1) [OF assms(8)] w1(3) w2(3) by (simp add: w'_def)
  qed
  ultimately show ?thesis using that [of w' "hw_header w1"] w2(2,4) w1(3) sent by (simp add: w'_def)
qed

text \<open>
  What is assumed of the transport: a response with headers as HTTP parses them, and with a body that can
  be read to its end, in any pieces.
\<close>

definition delivers :: "bytes \<Rightarrow> reader \<Rightarrow> response \<Rightarrow> bool" where
  "delivers body s res \<longleftrightarrow> resp_Trailer res = None \<and>
     canonical_header (resp_Header res) \<and> hvalues (resp_Header res) ''Connection'' = [] \<and>
     (\<forall>k \<in> fst ` set (resp_Header res). \<not> HasPrefix k TrailerPrefix) \<and>
     resp_Body res = RawBody s \<and> rd_clean s \<and> rd_progress s \<and> rd_content s = body"

text \<open>
  The response that a server has sent: the transport delivers the status and the body, and the fields of
  the header, but for those that are meant for one connection only, with their values as they look after
  the wire. It may add fields that the server did not set, such as the date.
\<close>

definition carries :: "httpWriter \<Rightarrow> reader \<Rightarrow> response \<Rightarrow> bool" where
  "carries sw s res \<longleftrightarrow> delivers (hw_body sw) s res \<and>
     (\<exists>h. hw_sent sw = Some (resp_StatusCode res, h) \<and>
        (\<forall>k. k \<notin> set hopHeaders \<and> hvalues h k \<noteq> [] \<longrightarrow> hvalues (resp_Header res) k = on_wire k (hvalues h k)))"

text \<open>A successful gRPC-Web response of some remote server.\<close>

definition web_reply :: "bytes \<Rightarrow> string \<Rightarrow> reader \<Rightarrow> response \<Rightarrow> bool" where
  "web_reply body ct s res \<longleftrightarrow> delivers body s res \<and> resp_StatusCode res = 200 \<and>
     hvalues (resp_Header res) ''Content-Type'' = [ct]"

lemma reply_modified:
  assumes "delivers body s res" and "resp_StatusCode res < 400"
    and "hvalues (resp_Header res) ''Content-Type'' = [downgradedContentType ct]"
    and "ct = ''application/grpc'' \<or> (\<exists>sub. sub \<noteq> [] \<and> ct = ''application/grpc+'' @ sub)"
  obtains res' where "modifyResponse (res\<lparr>resp_Header := remove_hop_headers (resp_Header res)\<rparr>) = (None, res')"
    and "resp_Body res' = WebBody (NewResponseReader s None None)" and "resp_Trailer res' = None"
    and "canonical_header (resp_Header res')" and "\<forall>k \<in> fst ` set (resp_Header res'). \<not> HasPrefix k TrailerPrefix"
    and "hvalues (resp_Header res') ''Content-Type'' = [ct]" and "resp_StatusCode res' = resp_StatusCode res"
    and "resp_Header res' = hSet ''Content-Type'' ct
      (if resp_ContentLength res = 0 then hSet dontFlushHeadersHeaderKey ''true'' (remove_hop_headers (resp_Header res))
       else remove_hop_headers (resp_Header res))"
proof -
  let ?res = "res\<lparr>resp_Header := remove_hop_headers (resp_Header res)\<rparr>"
  note c = assms(1) [unfolded delivers_def] assms(2,3)
  have conn: "hvalues (resp_Header res) ''Connection'' = []" using c by blast
  have "hGet (resp_Header ?res) ''Content-Type'' = downgradedContentType ct"
    using c by (simp add: hGet_def hvalues_remove_hop [OF conn])
  then have up: "upgradedContentType (hGet (resp_Header ?res) ''Content-Type'') = Some ct"
    using upgraded_downgraded [OF assms(4)] by simp
  obtain res' where r: "modifyResponse ?res = (None, res')"
    "resp_Body res' = WebBody (NewResponseReader s None None)" "resp_Trailer res' = None"
    "resp_Header res' = hSet ''Content-Type'' ct
      (if resp_ContentLength res = 0 then hSet dontFlushHeadersHeaderKey ''true'' (resp_Header ?res) else resp_Header ?res)"
    "resp_StatusCode res' = resp_StatusCode res"
    by (rule modifyResponse_web [OF _ _ up, of s]) (use c that in simp_all)
  have can: "canonical_header (resp_Header res')"
    using canonical_remove_hop [of "resp_Header res"] c unfolding r(4) by (simp add: canonical_hSet)
  have keys: "fst ` set (resp_Header res') \<subseteq> {''Content-Type'', dontFlushHeadersHeaderKey} \<union> fst ` set (resp_Header res)"
  proof
    fix k assume "k \<in> fst ` set (resp_Header res')"
    then have "hindex (resp_Header res') k \<noteq> None" using hindex_None_iff by blast
    then have "k \<in> {''Content-Type'', dontFlushHeadersHeaderKey} \<or> hindex (resp_Header res) k \<noteq> None"
      using hindex_remove_hop [OF conn, of k] by (auto simp: r(4) hSet_def nb_key simp del: not_None_eq split: if_splits)
    then show "k \<in> {''Content-Type'', dontFlushHeadersHeaderKey} \<union> fst ` set (resp_Header res)"
      using hindex_None_iff [of "resp_Header res" k] by auto
  qed
  have np: "\<not> HasPrefix ''Content-Type'' TrailerPrefix" "\<not> HasPrefix dontFlushHeadersHeaderKey TrailerPrefix" by code_simp+
  have old: "\<forall>k \<in> fst ` set (resp_Header res). \<not> HasPrefix k TrailerPrefix" using c by blast
  have "\<forall>k \<in> fst ` set (resp_Header res'). \<not> HasPrefix k TrailerPrefix"
  proof
    fix k assume "k \<in> fst ` set (resp_Header res')"
    with keys have "k = ''Content-Type'' \<or> k = dontFlushHeadersHeaderKey \<or> k \<in> fst ` set (resp_Header res)" by auto
    with np old show "\<not> HasPrefix k TrailerPrefix" by (elim disjE) (simp, simp, rule bspec)
  qed
  moreover have "hvalues (resp_Header res') ''Content-Type'' = [ct]" by (simp add: r(4) hSet_def)
  ultimately show ?thesis by (rule that [OF r(1-3) can _ _ r(5)]) (simp add: r(4))
qed

text \<open>What arrives of a downgraded response.\<close>

lemma carried_answer:
  assumes "hw_sent hw = None" and "w = handle ops (NewResponseWriter hw)"
    and "first_write ops (hw_header hw) = Some (status, h0)"
    and "ct = hGet h0 ''Content-Type''" and "norm_value ct = ct"
    and "ct = ''application/grpc'' \<or> (\<exists>sub. sub \<noteq> [] \<and> ct = ''application/grpc+'' @ sub)"
    and "ks = order (Header w)" and "carries (web_response order ops hw) s res"
  shows "delivers (hw_body (rw_w (snd (Finalize ks w)))) s res" and "resp_StatusCode res = status"
    and "hvalues (resp_Header res) ''Content-Type'' = [downgradedContentType ct]"
    and "k \<notin> set hopHeaders \<union> {''Content-Type'', ''Content-Length''} \<Longrightarrow> hvalues h0 k \<noteq> [] \<Longrightarrow>
      hvalues (resp_Header res) k = on_wire k (hvalues h0 k)"
proof -
  have sw: "web_response order ops hw = rw_w (snd (Finalize ks w))"
    by (simp add: web_response_def assms(2,7) Let_def)
  obtain h where h: "hw_sent (web_response order ops hw) = Some (status, h)" "\<And>k. hvalues h k = downgraded_values h0 k"
    using handle_sent [of "NewResponseWriter hw" ops status h0] Finalize_sent [of w ks] assms(1-3)
    unfolding sw by (auto simp: NewResponseWriter_def Header_def)
  have fields: "hvalues (resp_Header res) k = on_wire k (downgraded_values h0 k)"
    if "k \<notin> set hopHeaders" "downgraded_values h0 k \<noteq> []" for k
    using assms(8) h that by (auto simp: carries_def)
  show "delivers (hw_body (rw_w (snd (Finalize ks w)))) s res" "resp_StatusCode res = status"
    using assms(8) h(1) by (auto simp: carries_def sw)
  show "hvalues (resp_Header res) ''Content-Type'' = [downgradedContentType ct]"
    using fields [of "''Content-Type''"] downgraded_on_wire [OF assms(6,5)] assms(4) by (simp add: downgraded_values_def)
  show "hvalues (resp_Header res) k = on_wire k (hvalues h0 k)"
    if k: "k \<notin> set hopHeaders \<union> {''Content-Type'', ''Content-Length''}" "hvalues h0 k \<noteq> []"
  proof -
    have "k \<noteq> ''Trailer''" using k(1) by (auto simp: hopHeaders_def)
    with k have "downgraded_values h0 k = hvalues h0 k" by (simp add: downgraded_values_def)
    with fields [of k] k show ?thesis by simp
  qed
qed

text \<open>
  Claim C1. A downgraded call from end to end. A handler of the gRPC server writes frames, in any
  pieces, having announced its trailers; the server downgrades the response, the transport carries what
  the server sent in any pieces, and the client's proxy passes it on. Then the gRPC client's response is
  complete: its status is that of the handler's first write, its content type is the gRPC content type
  that the handler had set by then, although the wire has the one of gRPC-Web, and the other fields are the
  handler's, but for those that concern one connection only and the length; its body is what the handler
  wrote, and its trailers are those the handler left, normalised the way HTTP does. This holds for every
  configuration of the client's proxy.
\<close>

theorem downgraded_call:
  assumes "hw_healthy hw" and "hw_body hw = []" and "hw_sent hw = None" and "w = handle ops (NewResponseWriter hw)"
    and "first_write ops (hw_header hw) = Some (status, h0)" and "status < 400" and "hindex h0 ''Trailer'' = Some ats"
    and "ct = hGet h0 ''Content-Type''" and "norm_value ct = ct"
    and "ct = ''application/grpc'' \<or> (\<exists>sub. sub \<noteq> [] \<and> ct = ''application/grpc+'' @ sub)"
    and "ks = order (Header w)" and "range_order (Header w) ks"
    and "written ops = frames_bytes fs" and "message_frames fs" and "length (trailers_text ks w) < 2 ^ 32"
    and "transport (outgoing_request (Director endpoint insecure force override) creq) = Inr res"
    and "carries (web_response order ops hw) s res"
    and "cops \<in> {plain_ops, nonBuffering_ops}" and "hw_healthy cw" and "hw_header cw = []" and "hw_body cw = []" and "hw_sent cw = None"
  shows "\<exists>w' h'. createReverseProxy unavailable endpoint transport insecure force override cops creq cw = Finished w' \<and>
    hw_sent w' = Some (status, h') \<and> hvalues h' ''Content-Type'' = [ct] \<and>
    (\<forall>k. k \<notin> set hopHeaders \<union> {''Content-Type'', ''Content-Length'', dontFlushHeadersHeaderKey} \<and> hvalues h0 k \<noteq> [] \<longrightarrow>
       hvalues h' k = on_wire k (hvalues h0 k)) \<and>
    hw_body w' = written ops \<and>
    (\<forall>name. hvalues (hw_header w') (''Trailer:'' @ name) = sent_values ks ats (Header w) name)"
proof -
  let ?n = "Suc (length (written ops))"
  have ats: "announcedTrailers w = Some ats"
    unfolding assms(4) by (rule handle_announced) (use assms(5,7) in \<open>simp_all add: NewResponseWriter_def Header_def\<close>)
  note answer = carried_answer [OF assms(3-5,8-11,17)]
  note d = answer(1) and st = answer(2)
  have s: "rd_clean s" "rd_progress s" "rd_content s = hw_body (rw_w (snd (Finalize ks w)))"
    using d by (simp_all add: delivers_def)
  have cs: "\<forall>c \<in> set (replicate ?n copyBufferSize). 0 < c" "length (written ops) < length (replicate ?n copyBufferSize)"
    by (simp_all add: copyBufferSize_def)
  from roundtrip_read [OF assms(1,2,4) ats assms(12-15) s cs, of None] obtain r' tr where
    r: "read_until Read (replicate ?n copyBufferSize) (NewResponseReader s None None) = (written ops, Some EOF, r')"
    "rr_trailers r' = Some tr" "header_ok tr" "\<And>name. hvalues tr name = sent_values ks ats (Header w) name" by blast
  obtain res' where m: "modifyResponse (res\<lparr>resp_Header := remove_hop_headers (resp_Header res)\<rparr>) = (None, res')"
    "resp_Body res' = WebBody (NewResponseReader s None None)" "resp_Trailer res' = None"
    "canonical_header (resp_Header res')" "\<forall>k \<in> fst ` set (resp_Header res'). \<not> HasPrefix k TrailerPrefix"
    "hvalues (resp_Header res') ''Content-Type'' = [ct]" "resp_StatusCode res' = resp_StatusCode res"
    "resp_Header res' = hSet ''Content-Type'' ct
      (if resp_ContentLength res = 0 then hSet dontFlushHeadersHeaderKey ''true'' (remove_hop_headers (resp_Header res))
       else remove_hop_headers (resp_Header res))"
    by (rule reply_modified [OF d _ answer(3) assms(10)]) (use assms(6) st that in simp_all)
  obtain w' h' where w': "copy_response cops res' cw = Finished w'" "hw_body w' = written ops"
    "\<And>name. hvalues (hw_header w') (TrailerPrefix @ name) = hvalues tr name"
    "hw_sent w' = Some (resp_StatusCode res', h')"
    "\<And>k. k \<noteq> dontFlushHeadersHeaderKey \<Longrightarrow> hvalues h' k = hvalues (resp_Header res') k"
    by (rule copy_web_response [OF proxy_writer [OF assms(18)] m(2-5) r(1-3) assms(19-22)]) (rule that)
  have "hvalues h' ''Content-Type'' = [ct]" using w'(5) [of "''Content-Type''"] m(6) by (simp add: dontFlushHeadersHeaderKey_def)
  moreover have "hvalues h' k = on_wire k (hvalues h0 k)"
    if "k \<notin> set hopHeaders \<union> {''Content-Type'', ''Content-Length'', dontFlushHeadersHeaderKey}" "hvalues h0 k \<noteq> []" for k
    using w'(5) [of k] that answer(4) [of k] hvalues_remove_hop [of "resp_Header res" k] d
    by (simp add: m(8) hSet_def nb_key delivers_def)
  moreover have "createReverseProxy unavailable endpoint transport insecure force override cops creq cw = Finished w'"
    using assms(16) m(1) w'(1) by (simp add: createReverseProxy_def proxy_ServeHTTP_def)
  moreover have "hvalues (hw_header w') (''Trailer:'' @ name) = sent_values ks ats (Header w) name" for name
    using w'(3) [of name] r(4) by (simp add: TrailerPrefix_def)
  moreover have "hw_sent w' = Some (status, h')" using w'(4) m(7) st by simp
  ultimately show ?thesis using w'(2) by blast
qed

section \<open>Responses that are not complete\<close>

lemma web_reply_modified:
  assumes "web_reply body (downgradedContentType ct) s res"
    and "ct = ''application/grpc'' \<or> (\<exists>sub. sub \<noteq> [] \<and> ct = ''application/grpc+'' @ sub)"
  obtains res' where "modifyResponse (res\<lparr>resp_Header := remove_hop_headers (resp_Header res)\<rparr>) = (None, res')"
    and "resp_Body res' = WebBody (NewResponseReader s None None)" and "resp_Trailer res' = None"
    and "canonical_header (resp_Header res')"
    and "hvalues (resp_Header res') ''Content-Type'' = [ct]" and "resp_StatusCode res' = 200"
    and "resp_Header res' = hSet ''Content-Type'' ct
      (if resp_ContentLength res = 0 then hSet dontFlushHeadersHeaderKey ''true'' (remove_hop_headers (resp_Header res))
       else remove_hop_headers (resp_Header res))"
proof -
  have r: "delivers body s res" "resp_StatusCode res = 200" "hvalues (resp_Header res) ''Content-Type'' = [downgradedContentType ct]"
    using assms(1) by (simp_all add: web_reply_def)
  show ?thesis by (rule reply_modified [OF r(1) _ r(3) assms(2)]) (use r(2) that in auto)
qed

text \<open>
  Claim C13. A gRPC-Web response that breaks off before its trailers is not passed on as a complete one:
  the client's proxy delivers the bytes that arrived and then aborts the response.
\<close>

theorem truncated_call_aborted:
  assumes "transport (outgoing_request (Director endpoint insecure force override) creq) = Inr res"
    and "web_reply body (downgradedContentType ct) s res"
    and "ct = ''application/grpc'' \<or> (\<exists>sub. sub \<noteq> [] \<and> ct = ''application/grpc+'' @ sub)"
    and "body @ lost = frames_bytes fs" and "message_frames fs" and "body \<noteq> []"
    and "cops \<in> {plain_ops, nonBuffering_ops}" and "hw_healthy cw" and "hw_body cw = []"
  shows "\<exists>w'. createReverseProxy unavailable endpoint transport insecure force override cops creq cw = Aborted w' \<and>
    hw_body w' = body"
proof -
  let ?n = "Suc (length body)"
  have s: "rd_clean s" "rd_progress s" "rd_content s = body" using assms(2) by (simp_all add: web_reply_def delivers_def)
  have "\<exists>r'. read_until Read (replicate ?n copyBufferSize) (NewResponseReader s None None) = (rd_content s, Some ErrUnexpectedEOF, r')"
    by (rule read_truncated [OF s(1,2)]) (use assms(4-6) s(3) in \<open>simp_all add: copyBufferSize_def\<close>)
  then obtain r' where r: "read_until Read (replicate ?n copyBufferSize) (NewResponseReader s None None) =
      (body, Some ErrUnexpectedEOF, r')" using s(3) by auto
  obtain res' where m: "modifyResponse (res\<lparr>resp_Header := remove_hop_headers (resp_Header res)\<rparr>) = (None, res')"
    "resp_Body res' = WebBody (NewResponseReader s None None)" "resp_Trailer res' = None"
    by (rule web_reply_modified [OF assms(2,3)])
  define w1 where "w1 = op_WriteHeader cops (resp_StatusCode res') (cw\<lparr>hw_header := copyHeader (resp_Header res') (hw_header cw)\<rparr>)"
  note rw = proxy_writer [OF assms(7)]
  have w1: "hw_healthy w1" "hw_body w1 = []"
    using response_writer.WriteHeader_ok [OF rw, of "resp_StatusCode res'"] assms(8,9) by (simp_all add: w1_def hw_healthy_def)
  have rd: "read_until body_Read (replicate ?n copyBufferSize) (resp_Body res') = (body, Some ErrUnexpectedEOF, WebBody r')"
    using r by (simp only: m(2) read_until_WebBody prod.case)
  have "set (replicate ?n copyBufferSize) \<subseteq> {copyBufferSize}" by auto
  from response_writer.copyBuffer_until [OF rw rd this w1(1)] w1(2) obtain w2 where
    "copyBuffer cops (resp_Body res') w1 = Some (Some ErrUnexpectedEOF, WebBody r', w2)" "hw_body w2 = body" by auto
  with m(1,3) assms(1) show ?thesis
    by (simp add: createReverseProxy_def proxy_ServeHTTP_def copy_response_def Let_def w1_def)
qed

text \<open>
  Claim C35. A remote server that leaves out the last line break of its trailers can make the client's proxy
  spin. If the whole body is one uncompressed trailers frame, whose text reads like header lines that break
  off before their end, and it arrives in one read of at most 32768 bytes (the size of the copy buffer),
  then the copying of the response never ends, so that the call neither completes nor fails. (A frame that
  arrives in pieces may be noticed as incomplete before.)
\<close>

theorem open_trailers_hang:
  assumes "transport (outgoing_request (Director endpoint insecure force override) creq) = Inr res"
    and "web_reply body (downgradedContentType ct) [(mk_frame flags (bytes_of text), e)] res"
    and "ct = ''application/grpc'' \<or> (\<exists>sub. sub \<noteq> [] \<and> ct = ''application/grpc+'' @ sub)"
    and "flags AND trailerMessageFlag \<noteq> 0" and "flags AND compressedFlag = 0" and "length text + 5 \<le> 32768"
    and "ReadMIMEHeader EOF (text @ CRLF) = (tr, Some EOF, x)" and "e = None \<or> e = Some EOF"
  shows "createReverseProxy unavailable endpoint transport insecure force override cops creq cw = Endless"
proof -
  let ?s = "[(mk_frame flags (bytes_of text), e)]"
  obtain res' where m: "modifyResponse (res\<lparr>resp_Header := remove_hop_headers (resp_Header res)\<rparr>) = (None, res')"
    "resp_Body res' = WebBody (NewResponseReader ?s None None)" "resp_Trailer res' = None"
    by (rule web_reply_modified [OF assms(2,3)])
  have stuck: "\<exists>r'. read_until Read (replicate n copyBufferSize) (NewResponseReader ?s None None) = ([], None, r')" for n
    by (rule open_trailers_stuck [OF assms(4,5) _ assms(7) _ assms(8)]) (use assms(6) in \<open>simp_all add: copyBufferSize_def\<close>)
  have "copyBuffer cops (resp_Body res') w1 = None" for w1
  proof (rule ccontr)
    assume "copyBuffer cops (resp_Body res') w1 \<noteq> None"
    then obtain y where "copyBuffer cops (resp_Body res') w1 = Some y" by blast
    then obtain n d e' src' where
      "read_until body_Read (replicate n copyBufferSize) (resp_Body res') = (d, e', src')" "d \<noteq> [] \<or> e' \<noteq> None"
      using copyBuffer_ends by blast
    with stuck [of n] show False by (auto simp: m(2) read_until_WebBody)
  qed
  with m(1,3) assms(1) show ?thesis
    by (simp add: createReverseProxy_def proxy_ServeHTTP_def copy_response_def Let_def)
qed

section \<open>Responses without a body\<close>


section \<open>Calls over a WebSocket\<close>

text \<open>The headers of a request to open a WebSocket for the program's subprotocol.\<close>

definition upgrade_request :: "request \<Rightarrow> bool" where
  "upgrade_request req \<longleftrightarrow> hGet (req_Header req) ''Sec-Websocket-Protocol'' = ''grpc-ws'' \<and>
     hGet (req_Header req) ''Connection'' = ''Upgrade'' \<and> hGet (req_Header req) ''Upgrade'' = ''websocket''"

lemma upgrade_handled:
  assumes "upgrade_request req"
  shows "CreateDowngradingHandler serve order accept services httpHandler opts req w = handleGRPCWS serve order accept req w"
proof -
  have "EqualFold ''Upgrade'' ''upgrade''" "EqualFold ''websocket'' ''websocket''" by code_simp+
  with assms have "isWebSocketUpgrade (req_Header req) = (True, None)"
    by (simp add: isWebSocketUpgrade_def upgrade_request_def SubprotocolName_def)
  then show ?thesis by (simp add: CreateDowngradingHandler_def Let_def)
qed

lemma request_sent:
  assumes "rd_clean body" and "rd_content body = frames_bytes fs" and "list_all frame_ok fs"
  shows "fst (writeToServer body no_failures) = None"
proof -
  have c: "rd_content body = frames_bytes fs @ []" using assms(2) by simp
  obtain r2 c2 where 2: "rd_clean r2" "rd_content r2 = []" "ws_healthy c2"
    "GrpcWebSocket.Write body no_failures = GrpcWebSocket.Write r2 c2"
    by (rule Write_clean_frames [OF assms(1) c assms(3) no_failures_simps(1)]) (rule that, simp_all)
  from Write_clean_exhausted [OF 2(1,2)] 2(4) have "\<exists>r3. GrpcWebSocket.Write body no_failures = (None, r3, c2)" by auto
  with conn_Write_healthy [OF 2(3)] show ?thesis
    by (cases "conn_Write EndStreamHeader c2") (auto simp: writeToServer_def)
qed

text \<open>
  Claim C2. A call over a WebSocket from end to end. The gRPC client's request body is a stream of data frames, read
  in any pieces; the proxy sends it over the WebSocket, the server's handler passes the call to the gRPC
  server, whose handler writes data frames with announced trailers, and the proxy passes the messages that
  come back on. If the connection does not fail, the handler on the server returns after a normal closure;
  the gRPC server reads exactly the request's bytes and then \<^verbatim>\<open>io.EOF\<close>, whatever the interleaving of
  its reads; and the gRPC client gets exactly the handler's bytes, headers and trailers, with no status of
  the proxy's own.
\<close>

theorem websocket_call:
  assumes "req_ProtoMajor creq = 2" and "HasPrefix (hGet (req_Header creq) ''Content-Type'') ''application/grpc''"
    and "rd_clean body" and "rd_content body = frames_bytes fs_in"
    and "list_all (\<lambda>(flags, p). flags AND metadataMask = 0 \<and> length p < 2 ^ 32) fs_in"
    and "conn = map (\<lambda>m. Arrives True m None) (ws_sent (snd (writeToServer body no_failures))) @ later"
    and "upgrade_request sreq" and "accept sreq sw = (sw', Inr (conn, no_failures))"
    and "ops = map ww_of (serve (grpc_request conn sreq))"
    and "sent_header ops [] = Some h0" and "hindex h0 ''Trailer'' = Some ats"
    and "canonical_header (response_headers h0)" and "hvalues (response_headers h0) ''Grpc-Status'' = []"
    and "length (Header_Write (response_headers h0)) < 2 ^ 32" and "ww_written ops = frames_bytes fs"
    and "list_all (\<lambda>(flags, p). flags AND metadataMask = 0 \<and> length p < 2 ^ 32) fs"
    and "hdr = ww_header (ww_handle ops (newWebSocketResponseWriter []))" and "ks = order hdr" and "range_order hdr ks"
    and "length (closing_text ks ops) < 2 ^ 32"
    and "wops = plain_ops \<or> wops = nonBuffering_ops" and "hw_healthy cw" and "hw_header cw = []" and "hw_body cw = []"
  shows "\<exists>sout. CreateDowngradingHandler serve order accept services httpHandler opts sreq sw = OverWebSocket sout NormalClosure [] \<and>
    (\<forall>ls r d e'. run wsr_step (newWebSocketReader conn) ls r \<and> \<not> wr_cancelled r \<and> Ret d (Some e') \<in> set ls \<longrightarrow>
       concat (map returned ls) = rd_content body \<and> e' = EOF) \<and>
    (\<forall>dial. dial (URL_String (scheme_of (wp_insecure h)) (wp_endpoint h) (req_Path creq)) (req_Header creq) [''grpc-ws''] =
         Dialled no_failures (map (Message True) (ws_sent sout) @ [Closed StatusNormalClosure e]) \<longrightarrow>
       (\<exists>w'. ServeHTTP unavailable dial writerFirst h wops creq body cw = w' \<and> hw_body w' = ww_written ops \<and>
         (\<forall>name. hvalues (hw_header w') (TrailerPrefix @ name) = sent_values ks ats hdr name) \<and>
         (\<forall>name. name \<noteq> dontFlushHeadersHeaderKey \<and> \<not> HasPrefix name TrailerPrefix \<longrightarrow>
            hvalues (hw_header w') name = on_wire name (hvalues (response_headers h0) name))))"
proof -
  have ok: "list_all frame_ok fs_in" "list_all frame_ok fs"
    using assms(5,16) by (auto simp: list_all_iff frame_ok_def)
  have "sends_frames ks ops fs" using assms(10,14,15,20) ok(2) by (simp add: sends_frames_def)
  then obtain sout where sout: "handleGRPCWS serve order accept sreq sw = OverWebSocket sout NormalClosure []"
    "ws_sent sout = ws_messages ks ops no_failures"
    using assms(8,9,17,18)
    by (elim ws_answer [of accept sreq sw sw' conn no_failures ops serve ks order fs, rotated 4]) (simp_all add: ws_Header_def)
  obtain w' where w': "readFromServer wops (map (Message True) (ws_messages ks ops no_failures) @
        [Closed StatusNormalClosure e]) cw = (None, [], w')" "hw_body w' = ww_written ops"
    "\<forall>name. hvalues (hw_header w') (TrailerPrefix @ name) = sent_values ks ats hdr name"
    "\<forall>name. name \<noteq> dontFlushHeadersHeaderKey \<and> \<not> HasPrefix name TrailerPrefix \<longrightarrow>
       hvalues (hw_header w') name = on_wire name (hvalues (response_headers h0) name)"
    using ws_response_roundtrip [OF assms(10-17,19,20,21,22,23), of e "[]"] assms(24) by auto
  have we: "fst (writeToServer body no_failures) = None" by (rule request_sent [OF assms(3,4) ok(1)])
  have "ServeHTTP unavailable dial writerFirst h wops creq body cw = w'"
    if "dial (URL_String (scheme_of (wp_insecure h)) (wp_endpoint h) (req_Path creq)) (req_Header creq) [''grpc-ws''] =
      Dialled no_failures (map (Message True) (ws_sent sout) @ [Closed StatusNormalClosure e])" for dial
    using assms(1,2) that w'(1) we sout(2)
    by (cases "writeToServer body no_failures")
      (simp add: ServeHTTP_def SubprotocolName_def serve_dialled_def writeErrorIfNecessary_def Let_def)
  moreover have "concat (map returned ls) = rd_content body \<and> e' = EOF"
    if "run wsr_step (newWebSocketReader conn) ls r" "\<not> wr_cancelled r" "Ret d (Some e') \<in> set ls" for ls r d e'
    using ws_request_roundtrip [OF assms(3,4,5) surjective_pairing that(1) [unfolded assms(6)] that(2,3)] by blast
  ultimately show ?thesis
    unfolding upgrade_handled [OF assms(7)] using sout(1) w'(2-4) by blast
qed

section \<open>Instances\<close>

text \<open>A call of the sample method, the request that arrives at the server, and responses to it.\<close>

definition arrived :: "bool \<Rightarrow> header \<Rightarrow> request" where
  "arrived force h =
     sample_request (req_Header (outgoing_request (Director ''localhost'' True force []) (sample_call\<lparr>req_Header := h\<rparr>)))"

definition sample_answer :: "reader \<Rightarrow> response" where
  "sample_answer s =
     \<lparr>resp_StatusCode = 200, resp_Status = ''200 OK'',
      resp_Header = [(''Content-Type'', [''application/grpc-web+proto'']), (''X-Id'', [''7''])],
      resp_ContentLength = (if s = [] then 0 else -1), resp_Body = RawBody s, resp_Trailer = None\<rparr>"

lemma sample_answer_reply:
  assumes "rd_clean s" and "rd_progress s"
  shows "web_reply (rd_content s) (downgradedContentType ''application/grpc+proto'') s (sample_answer s)"
proof -
  have "canonical_header (resp_Header (sample_answer s))" unfolding sample_answer_def by simp code_simp
  moreover have "\<not> HasPrefix ''Content-Type'' TrailerPrefix" "\<not> HasPrefix ''X-Id'' TrailerPrefix" by code_simp+
  ultimately show ?thesis
    using assms by (simp add: web_reply_def delivers_def sample_type) (simp add: sample_answer_def hvalues_def hindex_def)
qed

lemma sample_subtype: "\<exists>sub. sub \<noteq> [] \<and> ''application/grpc+proto'' = ''application/grpc+'' @ sub"
  by (rule exI [of _ "''proto''"]) simp

theorem forced_downgrade_negotiated_witness:
  "handleGRPCWeb (\<lambda>_. sample_ops) (map fst) [''/echo.Echo/Stream''] \<lparr>preferGRPCWeb = False\<rparr>
     (arrived True [(''Te'', [''trailers''])]) new_httpWriter = web_response (map fst) sample_ops new_httpWriter"
  using forced_downgrade_negotiated [of "sample_call\<lparr>req_Header := [(''Te'', [''trailers''])]\<rparr>" "arrived True [(''Te'', [''trailers''])]"
      "''localhost''" True "[]" "\<lambda>_. sample_ops" "map fst" "[''/echo.Echo/Stream'']" "\<lparr>preferGRPCWeb = False\<rparr>" new_httpWriter]
  by (simp add: arrived_def sample_request_def hvalues_def hindex_def)

theorem adaptive_downgrade_witness:
  "handleGRPCWeb (\<lambda>_. sample_ops) (map fst) [''/echo.Echo/Stream''] \<lparr>preferGRPCWeb = False\<rparr>
     (arrived False [(''Te'', [''trailers''])]) new_httpWriter = plain_handle sample_ops new_httpWriter"
  using adaptive_downgrade [of "sample_call\<lparr>req_Header := [(''Te'', [''trailers''])]\<rparr>" "arrived False [(''Te'', [''trailers''])]"
      "[''/echo.Echo/Stream'']" _ "''localhost''" True "[]" False "\<lambda>_. sample_ops" "map fst" "\<lparr>preferGRPCWeb = False\<rparr>" new_httpWriter]
  by (simp add: arrived_def sample_request_def hvalues_def hindex_def)

abbreviation sample_h0 :: header where
  "sample_h0 \<equiv> [(''Trailer'', [''Grpc-Status'']), (''Content-Type'', [''application/grpc+proto''])]"

lemma sample_first_write: "first_write sample_ops (hw_header new_httpWriter) = Some (200, sample_h0)"
  by (simp add: sample_ops_def hSet_def hput_def)

text \<open>The server's response to the sample call is carried by the sample answer.\<close>

lemma sample_carried:
  "carries (web_response (map fst) sample_ops new_httpWriter)
     [(hw_body (web_response (map fst) sample_ops new_httpWriter), Some EOF)]
     (sample_answer [(hw_body (web_response (map fst) sample_ops new_httpWriter), Some EOF)])"
  (is "carries ?sw ?s _")
proof -
  have type: "downgraded_values sample_h0 k = (if k = ''Content-Type'' then [''application/grpc-web+proto''] else [])" for k
    by (simp add: downgraded_values_def hvalues_def hindex_def hGet_def sample_type)
  have "\<exists>h. hw_sent ?sw = Some (200, h) \<and> (\<forall>k. hvalues h k = downgraded_values sample_h0 k)"
    using handle_sent [of "NewResponseWriter new_httpWriter" sample_ops 200 sample_h0] sample_first_write
      Finalize_sent [of "handle sample_ops (NewResponseWriter new_httpWriter)"]
    by (auto simp: NewResponseWriter_def Header_def web_response_def Let_def)
  then obtain h where h: "hw_sent ?sw = Some (200, h)" "\<And>k. hvalues h k = (if k = ''Content-Type'' then [''application/grpc-web+proto''] else [])"
    using type by auto
  have "on_wire ''Content-Type'' [''application/grpc-web+proto''] = [''application/grpc-web+proto'']" by code_simp
  with h show ?thesis
    using sample_answer_reply [of ?s]
    by (simp add: carries_def web_reply_def rd_progress_def sample_type)
qed

theorem downgraded_call_witness:
  "\<exists>s w' h'. carries (web_response (map fst) sample_ops new_httpWriter) s (sample_answer s) \<and>
     createReverseProxy 14 ''localhost'' (\<lambda>_. Inr (sample_answer s)) True True [] plain_ops sample_call new_httpWriter = Finished w' \<and>
     hw_sent w' = Some (200, h') \<and> hvalues h' ''Content-Type'' = [''application/grpc+proto''] \<and>
     hw_body w' = written sample_ops \<and> hvalues (hw_header w') ''Trailer:X-Extra'' = [''a'', ''b'']"
proof -
  let ?s = "[(hw_body (web_response (map fst) sample_ops new_httpWriter), Some EOF)]"
  have o: "range_order (Header sample_w) sample_ks"
    unfolding conjunct1 [OF sample_w_state] by (rule range_order_self) code_simp
  have k: "sample_ks = map fst (Header sample_w)" using sample_w_state by simp
  have t: "''application/grpc+proto'' = hGet sample_h0 ''Content-Type''" "hindex sample_h0 ''Trailer'' = Some [''Grpc-Status'']"
    by (simp_all add: hGet_def hvalues_def hindex_def)
  have n: "norm_value ''application/grpc+proto'' = ''application/grpc+proto''" by code_simp
  from downgraded_call [OF _ _ _ refl sample_first_write _ t(2,1) n disjI2 [OF sample_subtype] k o sample_written(1,3) sample_text_length
      refl sample_carried, of plain_ops new_httpWriter 14 "''localhost''" True True "[]" sample_call]
  obtain w' h' where "createReverseProxy 14 ''localhost'' (\<lambda>_. Inr (sample_answer ?s)) True True [] plain_ops sample_call new_httpWriter = Finished w'"
    "hw_sent w' = Some (200, h')" "hvalues h' ''Content-Type'' = [''application/grpc+proto'']" "hw_body w' = written sample_ops"
    "\<forall>name. hvalues (hw_header w') (''Trailer:'' @ name) = sent_values sample_ks [''Grpc-Status''] (Header sample_w) name" by auto
  moreover from this(5) have "hvalues (hw_header w') ''Trailer:X-Extra'' = [''a'', ''b'']"
    using sample_values by (elim allE [of _ "''X-Extra''"]) (simp add: sample_w_state)
  ultimately show ?thesis using sample_carried by (intro exI [of _ ?s]) blast
qed

theorem truncated_call_aborted_witness:
  "\<exists>w'. createReverseProxy 14 ''localhost'' (\<lambda>_. Inr (sample_answer [([0, 0, 0], None), ([0, 1], Some EOF)])) True False []
     nonBuffering_ops sample_call new_httpWriter = Aborted w' \<and> hw_body w' = [0, 0, 0, 0, 1]"
proof -
  let ?s = "[([0, 0, 0], None), ([0, 1], Some EOF)] :: reader"
  have "web_reply [0, 0, 0, 0, 1] (downgradedContentType ''application/grpc+proto'') ?s (sample_answer ?s)"
    using sample_answer_reply [of ?s] by (simp add: rd_progress_def)
  moreover have "[0, 0, 0, 0, 1] @ [9] = frames_bytes [(0, [9])]"
    by (simp add: frames_bytes_def mk_frame_Cons BigEndian_PutUint32_def)
  ultimately show ?thesis
    using truncated_call_aborted [OF refl _ disjI2 [OF sample_subtype] _ sample_written(3)] by auto
qed

theorem open_trailers_hang_witness:
  "createReverseProxy 14 ''localhost'' (\<lambda>_. Inr (sample_answer [(mk_frame 128 (bytes_of ''grpc-status: 0''), Some EOF)])) True False []
     plain_ops sample_call new_httpWriter = Endless"
proof -
  let ?s = "[(mk_frame 128 (bytes_of ''grpc-status: 0''), Some EOF)]"
  have h: "ReadMIMEHeader EOF (''grpc-status: 0'' @ CRLF) = ([(''Grpc-Status'', [''0''])], Some EOF, [])"
    by code_simp
  have c: "web_reply (rd_content ?s) (downgradedContentType ''application/grpc+proto'') ?s (sample_answer ?s)"
    by (rule sample_answer_reply) (simp_all add: rd_progress_def mk_frame_Cons)
  show ?thesis
    by (rule open_trailers_hang [OF refl c disjI2 [OF sample_subtype] _ _ _ h]) (simp_all add: go_defs)
qed


definition sample_response :: "rw_op list" where
  "sample_response =
     [OpHeader (hput ''Trailer'' [''Grpc-Status'']), OpHeader (hput ''Content-Type'' [''application/grpc'']),
      OpWriteHeader 200, OpWrite [0, 0, 0, 0, 1, 9], OpHeader (hput ''Grpc-Status'' [''0''])]"

definition sample_upgrade :: request where
  "sample_upgrade = sample_request
     [(''Sec-Websocket-Protocol'', [''grpc-ws'']), (''Connection'', [''Upgrade'']), (''Upgrade'', [''websocket''])]"

lemma sample_upgrade_facts: "upgrade_request sample_upgrade" "ws_ops = map ww_of sample_response"
  by (simp_all add: upgrade_request_def sample_upgrade_def sample_request_def hGet_def hvalues_def hindex_def
      sample_response_def ws_ops_def)

lemma ws_h0_facts: "hindex ws_h0 ''Trailer'' = Some [''Grpc-Status'']" "canonical_header (response_headers ws_h0)"
  "hvalues (response_headers ws_h0) ''Grpc-Status'' = []" "length (Header_Write (response_headers ws_h0)) < 2 ^ 32"
proof -
  have "length (Header_Write [(''Content-Type'', [''application/grpc''])]) = 32" by code_simp
  then show "length (Header_Write (response_headers ws_h0)) < 2 ^ 32" by (simp add: ws_ops_facts(2))
  show "canonical_header (response_headers ws_h0)" "hvalues (response_headers ws_h0) ''Grpc-Status'' = []"
    unfolding ws_ops_facts(2) by code_simp+
qed (simp add: hindex_def)

theorem websocket_call_witness:
  "\<exists>sout w'. CreateDowngradingHandler (\<lambda>_. sample_response) (map fst) (\<lambda>_ w. (w, Inr (req_conn, no_failures))) [] (\<lambda>_ w. w)
      [] sample_upgrade new_httpWriter = OverWebSocket sout NormalClosure [] \<and>
    ServeHTTP 14 (\<lambda>_ _ _. Dialled no_failures (map (Message True) (ws_sent sout) @ [Closed StatusNormalClosure EOF])) False
      \<lparr>wp_insecure = True, wp_endpoint = ''localhost''\<rparr> nonBuffering_ops sample_call [] new_httpWriter = w' \<and>
    hw_body w' = [0, 0, 0, 0, 1, 9] \<and> hvalues (hw_header w') (TrailerPrefix @ ''Grpc-Status'') = [''0'']"
proof -
  have c: "req_conn = map (\<lambda>m. Arrives True m None) (ws_sent (snd (writeToServer [] no_failures))) @ []"
    by (simp add: empty_request)
  have v: "sent_values [''Content-Type'', ''Grpc-Status''] [''Grpc-Status''] ws_hdr ''Grpc-Status'' = [''0'']" by code_simp
  have b: "ww_written ws_ops = [0, 0, 0, 0, 1, 9]"
    by (simp add: ws_ops_facts(3) mk_frame_Cons BigEndian_PutUint32_def)
  have call: "req_ProtoMajor sample_call = 2" "HasPrefix (hGet (req_Header sample_call) ''Content-Type'') ''application/grpc''"
    "rd_clean []" "rd_content [] = frames_bytes []" "hw_healthy new_httpWriter" "hw_header new_httpWriter = []" "hw_body new_httpWriter = []"
    by (simp_all add: hGet_def hvalues_def hindex_def HasPrefix_def)
  have msg: "list_all (\<lambda>(flags, p). flags AND metadataMask = 0 \<and> length p < 2 ^ 32) []"
    "list_all (\<lambda>(flags, p). flags AND metadataMask = 0 \<and> length p < 2 ^ 32) [(0 :: byte, [9 :: byte])]" by simp_all
  have o: "[''Content-Type'', ''Grpc-Status''] = map fst ws_hdr" "range_order ws_hdr [''Content-Type'', ''Grpc-Status'']"
    by (simp_all add: range_order_def)
  note websocket_call [where accept = "\<lambda>_ w. (w, Inr (req_conn, no_failures))" and sw = new_httpWriter and order = "map fst"
      and serve = "\<lambda>_. sample_response" and h = "\<lparr>wp_insecure = True, wp_endpoint = ''localhost''\<rparr>" and e = EOF
      and creq = sample_call and body = "[]" and unavailable = 14 and services = "[]" and httpHandler = "\<lambda>_ w. w" and opts = "[]"
      and writerFirst = False, OF call(1-4) msg(1) c sample_upgrade_facts(1) refl sample_upgrade_facts(2) ws_ops_facts(1) ws_h0_facts
      ws_ops_facts(3) msg(2) conjunct1 [OF ws_ops_state, symmetric] o ws_closing_text disjI2 [OF refl] call(5-7)]
  then obtain sout where "CreateDowngradingHandler (\<lambda>_. sample_response) (map fst) (\<lambda>_ w. (w, Inr (req_conn, no_failures))) [] (\<lambda>_ w. w)
      [] sample_upgrade new_httpWriter = OverWebSocket sout NormalClosure []"
    and d: "\<forall>dial. dial (URL_String (scheme_of True) ''localhost'' (req_Path sample_call)) (req_Header sample_call) [''grpc-ws''] =
         Dialled no_failures (map (Message True) (ws_sent sout) @ [Closed StatusNormalClosure EOF]) \<longrightarrow>
       (\<exists>w'. ServeHTTP 14 dial False \<lparr>wp_insecure = True, wp_endpoint = ''localhost''\<rparr> nonBuffering_ops sample_call [] new_httpWriter = w' \<and>
         hw_body w' = ww_written ws_ops \<and>
         (\<forall>name. hvalues (hw_header w') (TrailerPrefix @ name) =
            sent_values [''Content-Type'', ''Grpc-Status''] [''Grpc-Status''] ws_hdr name))"
    by auto
  with d [rule_format, of "\<lambda>_ _ _. Dialled no_failures (map (Message True) (ws_sent sout) @ [Closed StatusNormalClosure EOF])"] b v
  show ?thesis by auto
qed

end
