(* ===== verification/SideChannel.thy ===== *)
theory SideChannel
  imports Utils "HOL-Library.Multiset"
begin

text \<open>
  \<^verbatim>\<open>client/side_channel_creds.go\<close>: transport credentials for the connection between the gRPC client
  and the local proxy. That connection is a pipe and needs no encryption; the authentication info of
  the remote server is taken from a connection of its own, which is opened once, possibly through an
  HTTP proxy, and closed after the handshake.

  The network, the proxy settings and the TLS handshake are outside the repository: they are the record
  \<open>network\<close>. Connections are numbers. An operation returns the connections that it opened and those
  that it closed.
\<close>

section \<open>Addresses\<close>

text \<open>
  \<^verbatim>\<open>Port\<close> and \<^verbatim>\<open>Hostname\<close> of \<^verbatim>\<open>net/url\<close>, and \<^verbatim>\<open>net.JoinHostPort\<close>. The port of a URL's
  host is what follows the last colon, if it consists of digits.
\<close>

definition is_port_digit :: "char \<Rightarrow> bool" where
  "is_port_digit c \<longleftrightarrow> c \<in> set ''0123456789''"

definition url_splitHostPort :: "string \<Rightarrow> string \<times> string" where
  "url_splitHostPort hostPort =
     (let port = rev (takeWhile (\<lambda>c. c \<noteq> CHR '':'') (rev hostPort));
          (host, port) =
            (if CHR '':'' \<in> set hostPort \<and> list_all is_port_digit port
             then (take (length hostPort - length port - 1) hostPort, port) else (hostPort, []));
          host = (if host \<noteq> [] \<and> hd host = CHR ''['' \<and> last host = CHR '']'' then butlast (tl host) else host)
      in (host, port))"

definition url_Hostname :: "string \<Rightarrow> string" where "url_Hostname h = fst (url_splitHostPort h)"
definition url_Port :: "string \<Rightarrow> string" where "url_Port h = snd (url_splitHostPort h)"

definition JoinHostPort :: "string \<Rightarrow> string \<Rightarrow> string" where
  "JoinHostPort host port =
     (if CHR '':'' \<in> set host then ''['' @ host @ '']:'' @ port else host @ '':'' @ port)"

section \<open>The network\<close>

text \<open>
  A response to the \<^verbatim>\<open>CONNECT\<close> request: its status code and text, and the number of bytes that the
  proxy sent after it. \<open>net_response c txt\<close> is the response on connection \<open>c\<close> to the request
  \<open>txt\<close>.
\<close>

record 'auth network =
  net_request :: "string \<Rightarrow> err"
  net_proxy :: "string \<Rightarrow> go_error + string option"
  net_dial :: "string \<Rightarrow> go_error + nat"
  net_response :: "nat \<Rightarrow> string \<Rightarrow> go_error + int \<times> string \<times> nat"
  net_handshake :: "string \<Rightarrow> nat \<Rightarrow> go_error + 'auth"

definition errorf_w :: "string \<Rightarrow> go_error \<Rightarrow> go_error" where
  "errorf_w s e = ErrWrap s e"

text \<open>The address of the HTTP proxy, and what is sent to it.\<close>

definition proxyAddr :: "string \<Rightarrow> string" where
  "proxyAddr proxyHost = (if url_Port proxyHost = [] then JoinHostPort proxyHost ''80'' else proxyHost)"

definition CONNECT_request :: "string \<Rightarrow> string \<Rightarrow> string" where
  "CONNECT_request addr proxyHost =
     ''CONNECT '' @ addr @ '' HTTP/1.1'' @ [CHR 0x0D, CHR 0x0A] @ ''Host: '' @ url_Hostname proxyHost @
     [CHR 0x0D, CHR 0x0A, CHR 0x0D, CHR 0x0A]"

definition dialViaCONNECT :: "'auth network \<Rightarrow> string \<Rightarrow> string \<Rightarrow> (go_error + nat) \<times> nat list \<times> nat list" where
  "dialViaCONNECT net addr proxyHost =
     (let proxyAddr = proxyAddr proxyHost in
      case net_dial net proxyAddr of
        Inl e \<Rightarrow> (Inl (errorf_w (''failed to dial proxy '' @ proxyAddr) e), [], [])
      | Inr conn \<Rightarrow>
          (case net_response net conn (CONNECT_request addr proxyHost) of
             Inl e \<Rightarrow> (Inl (errorf_w (''failed to read response from HTTP CONNECT to '' @ addr @ '' via proxy '' @ proxyAddr) e), [conn], [])
           | Inr (statusCode, status, buffered) \<Rightarrow>
               if statusCode \<noteq> 200 then
                 (Inl (ErrNew (''failed to dial '' @ addr @ '' via '' @ proxyAddr @ ''. response status: '' @ status)), [conn], [])
               else if 0 < buffered then
                 (Inl (ErrNew (''CONNECT response from '' @ proxyAddr @ '' resulted in '' @ show_nat buffered @ '' bytes of unexpected data'')), [conn], [])
               else (Inr conn, [conn], [])))"

section \<open>ClientHandshake\<close>

record 'auth sideChannelCreds =
  sc_endpoint :: string
  sc_authInfo :: "'auth option"

definition newCredsFromSideChannel :: "string \<Rightarrow> 'auth sideChannelCreds" where
  "newCredsFromSideChannel endpoint = \<lparr>sc_endpoint = endpoint, sc_authInfo = None\<rparr>"

text \<open>
  The whole method runs under the mutex, so calls happen one after the other. The result has the
  connection and the authentication info, and the connections opened and closed.
\<close>

definition ClientHandshake ::
  "'auth network \<Rightarrow> string \<Rightarrow> 'conn \<Rightarrow> 'auth sideChannelCreds \<Rightarrow>
     (go_error + 'conn \<times> 'auth) \<times> nat list \<times> nat list \<times> 'auth sideChannelCreds" where
  "ClientHandshake net authority rawConn c =
     (case sc_authInfo c of
        Some authInfo \<Rightarrow> (Inr (rawConn, authInfo), [], [], c)
      | None \<Rightarrow>
          (case net_request net (''http://'' @ sc_endpoint c) of
             Some e \<Rightarrow> (Inl (errorf_w (''failed to determine proxy URL for '' @ sc_endpoint c) e), [], [], c)
           | None \<Rightarrow>
               (case net_proxy net (''http://'' @ sc_endpoint c) of
                  Inl e \<Rightarrow> (Inl (errorf_w (''failed to determine proxy URL for '' @ sc_endpoint c) e), [], [], c)
                | Inr proxyURL \<Rightarrow>
                    (case (case proxyURL of
                             Some proxyHost \<Rightarrow> dialViaCONNECT net (sc_endpoint c) proxyHost
                           | None \<Rightarrow> (case net_dial net (sc_endpoint c) of
                                         Inl e \<Rightarrow> (Inl e, [], []) | Inr conn \<Rightarrow> (Inr conn, [conn], []))) of
                       (Inl e, opened, closed) \<Rightarrow> (Inl e, opened, closed, c)
                     | (Inr conn, opened, closed) \<Rightarrow>
                         (case net_handshake net authority conn of
                            Inl e \<Rightarrow> (Inl e, opened, closed @ [conn], c)
                          | Inr authInfo \<Rightarrow>
                              (Inr (rawConn, authInfo), opened, closed @ [conn], c\<lparr>sc_authInfo := Some authInfo\<rparr>))))))"

text \<open>A sequence of handshakes, each with its own network, authority and connection.\<close>

fun handshakes ::
  "('auth network \<times> string \<times> 'conn) list \<Rightarrow> 'auth sideChannelCreds \<Rightarrow>
     ((go_error + 'conn \<times> 'auth) \<times> nat list \<times> nat list) list \<times> 'auth sideChannelCreds" where
  "handshakes [] c = ([], c)"
| "handshakes ((net, authority, rawConn) # hs) c =
     (case ClientHandshake net authority rawConn c of (r, opened, closed, c) \<Rightarrow>
        (case handshakes hs c of (rs, c) \<Rightarrow> ((r, opened, closed) # rs, c)))"

text \<open>The connections that handshakes have opened and not closed.\<close>

definition left_open :: "('r \<times> nat list \<times> nat list) list \<Rightarrow> nat multiset" where
  "left_open rs = mset (concat (map (fst \<circ> snd) rs)) - mset (concat (map (snd \<circ> snd) rs))"

text \<open>
  When a tunnel is refused: an HTTP proxy is to be used and can be reached, but there is no response to the
  request for a tunnel, or one with a status other than 200, or one followed by data. The result is the
  connection to the proxy.
\<close>

definition refused_tunnel :: "'auth network \<Rightarrow> string \<Rightarrow> nat option" where
  "refused_tunnel net endpoint =
     (case (net_request net (''http://'' @ endpoint), net_proxy net (''http://'' @ endpoint)) of
        (None, Inr (Some proxyHost)) \<Rightarrow>
          (case net_dial net (proxyAddr proxyHost) of
             Inl _ \<Rightarrow> None
           | Inr conn \<Rightarrow>
               (case net_response net conn (CONNECT_request endpoint proxyHost) of
                  Inr (statusCode, _, buffered) \<Rightarrow> if statusCode = 200 \<and> buffered = 0 then None else Some conn
                | Inl _ \<Rightarrow> Some conn))
      | _ \<Rightarrow> None)"

section \<open>Facts\<close>

lemma dialViaCONNECT_opened:
  "dialViaCONNECT net addr proxyHost = (Inr conn, opened, closed) \<Longrightarrow> opened = [conn] \<and> closed = []"
  by (auto simp: dialViaCONNECT_def Let_def split: sum.splits prod.splits if_splits)

text \<open>A handshake leaves a connection open exactly if it is one to a proxy that refused the tunnel.\<close>

lemma refused_tunnel_Some:
  assumes "refused_tunnel net endpoint = Some conn"
  shows "\<exists>proxyHost e. net_request net (''http://'' @ endpoint) = None \<and>
    net_proxy net (''http://'' @ endpoint) = Inr (Some proxyHost) \<and>
    dialViaCONNECT net endpoint proxyHost = (Inl e, [conn], [])"
proof -
  from assms obtain proxyHost where "net_request net (''http://'' @ endpoint) = None"
    "net_proxy net (''http://'' @ endpoint) = Inr (Some proxyHost)" "net_dial net (proxyAddr proxyHost) = Inr conn"
    by (auto simp: refused_tunnel_def split: option.splits sum.splits prod.splits if_splits)
  with assms show ?thesis
    by (cases "net_response net conn (CONNECT_request endpoint proxyHost)")
      (auto simp: refused_tunnel_def dialViaCONNECT_def Let_def split: if_splits)
qed

lemma ClientHandshake_refused:
  assumes "sc_authInfo c = None" and "refused_tunnel net (sc_endpoint c) = Some conn"
  shows "\<exists>e. ClientHandshake net authority rawConn c = (Inl e, [conn], [], c)"
  using refused_tunnel_Some [OF assms(2)] assms(1) by (auto simp: ClientHandshake_def)

lemma dialViaCONNECT_fails:
  assumes "dialViaCONNECT net endpoint proxyHost = (Inl e, opened, closed)"
    and "net_request net (''http://'' @ endpoint) = None" and "net_proxy net (''http://'' @ endpoint) = Inr (Some proxyHost)"
    and "refused_tunnel net endpoint = None"
  shows "opened = [] \<and> closed = []"
  using assms
  by (auto simp: refused_tunnel_def dialViaCONNECT_def Let_def split: option.splits sum.splits prod.splits if_splits)

lemma ClientHandshake_cached:
  "sc_authInfo c = Some a \<Longrightarrow> ClientHandshake net authority rawConn c = (Inr (rawConn, a), [], [], c)"
  by (simp add: ClientHandshake_def)

lemma ClientHandshake_success:
  assumes "ClientHandshake net authority rawConn c = (Inr (conn, a), opened, closed, c')"
  shows "conn = rawConn \<and> sc_authInfo c' = Some a \<and> opened = closed"
  using assms
  by (auto simp: ClientHandshake_def dest: dialViaCONNECT_opened split: option.splits sum.splits prod.splits)

lemma handshakes_cached:
  "sc_authInfo c = Some a \<Longrightarrow> handshakes hs c = (map (\<lambda>(_, _, rawConn). (Inr (rawConn, a), [], [])) hs, c)"
  by (induction hs) (auto simp: ClientHandshake_cached)

section \<open>Properties\<close>

text \<open>
  Claim C33. A successful handshake leaves the connection that it was given alone and closes every
  connection that it opened, and it is the last one to use the network: all later handshakes with the
  same credentials return their own connection with the same authentication info and open and close nothing.
\<close>

theorem handshake_once:
  assumes "ClientHandshake net authority rawConn c = (Inr (conn, a), opened, closed, c')"
  shows "conn = rawConn \<and> opened = closed \<and>
    handshakes hs c' = (map (\<lambda>(_, _, rawConn). (Inr (rawConn, a), [], [])) hs, c')"
  using ClientHandshake_success [OF assms] handshakes_cached [of c' a hs] by simp

text \<open>
  Unless an HTTP proxy refuses the tunnel, no connection is leaked: whatever else fails, a handshake has
  closed the connections that it opened when it returns. A failed handshake leaves the credentials as they
  were, so that the next one tries again.
\<close>

theorem handshake_closes:
  assumes "refused_tunnel net (sc_endpoint c) = None" and "ClientHandshake net authority rawConn c = (r, opened, closed, c')"
  shows "opened = closed \<and> ((\<exists>e. r = Inl e) \<longrightarrow> c' = c)"
  using assms
  by (auto simp: ClientHandshake_def dest: dialViaCONNECT_opened dialViaCONNECT_fails split: option.splits sum.splits prod.splits)

text \<open>
  Claim C39. Through an HTTP proxy, the connection to the proxy is leaked whenever the proxy does not
  grant the tunnel: whether its response cannot be read, has a status other than 200, or is followed by
  data, the handshake fails and nothing closes the connection. Since a failed handshake leaves the
  credentials as they were, the next one tries again: however often the gRPC client reconnects, every
  attempt leaves one more connection open.
\<close>

theorem refused_tunnel_leaks:
  assumes "sc_authInfo c = None" and "handshakes hs c = (rs, c')"
    and "\<forall>h \<in> set hs. refused_tunnel (fst h) (sc_endpoint c) \<noteq> None"
  shows "c' = c \<and> length rs = length hs \<and> (\<forall>(r, _) \<in> set rs. \<exists>e. r = Inl e) \<and>
    left_open rs = mset (map (\<lambda>h. the (refused_tunnel (fst h) (sc_endpoint c))) hs)"
proof -
  have "\<exists>es. length es = length hs \<and> handshakes hs c =
      (map2 (\<lambda>e h. (Inl e, [the (refused_tunnel (fst h) (sc_endpoint c))], [])) es hs, c)"
    using assms(3)
  proof (induction hs)
    case (Cons h hs)
    obtain net authority rawConn where h: "h = (net, authority, rawConn)" by (cases h)
    obtain conn where conn: "refused_tunnel net (sc_endpoint c) = Some conn" using Cons.prems h by auto
    obtain e where "ClientHandshake net authority rawConn c = (Inl e, [conn], [], c)"
      using ClientHandshake_refused [OF assms(1) conn, of authority rawConn] by blast
    moreover obtain es where "length es = length hs" "handshakes hs c =
        (map2 (\<lambda>e h. (Inl e, [the (refused_tunnel (fst h) (sc_endpoint c))], [])) es hs, c)"
      using Cons.IH Cons.prems by auto
    ultimately show ?case using h conn by (intro exI [of _ "e # es"]) simp
  qed simp
  then obtain es where es: "length es = length hs" "c' = c"
    "rs = map2 (\<lambda>e h. (Inl e, [the (refused_tunnel (fst h) (sc_endpoint c))], [])) es hs"
    using assms(2) by auto
  have "concat (map (fst \<circ> snd) rs) = map (\<lambda>h. the (refused_tunnel (fst h) (sc_endpoint c))) hs"
    "concat (map (snd \<circ> snd) rs) = []"
    using es(1) unfolding es(3) by (induction es hs rule: list_induct2) simp_all
  then have "left_open rs = mset (map (\<lambda>h. the (refused_tunnel (fst h) (sc_endpoint c))) hs)"
    by (simp only: left_open_def mset.simps diff_empty)
  with es show ?thesis by auto
qed

text \<open>
  An HTTP proxy that is given by an IPv6 address without a port cannot be used: the brackets of
  the address are put into brackets again, which no dialler accepts as an address (the hypothesis).
\<close>

theorem ipv6_proxy_unreachable:
  assumes "\<forall>a. \<exists>e. net_dial net (''[['' @ a) = Inl e"
  shows "\<exists>e. dialViaCONNECT net addr ''[::1]'' = (Inl (ErrWrap ''failed to dial proxy [[::1]]:80'' e), [], [])"
proof -
  obtain e where "net_dial net ''[[::1]]:80'' = Inl e" using assms [rule_format, of "'':''"] assms [rule_format, of "''::1]]:80''"] by auto
  then show ?thesis
    by (simp add: dialViaCONNECT_def proxyAddr_def Let_def JoinHostPort_def url_Port_def url_splitHostPort_def is_port_digit_def errorf_w_def)
qed

section \<open>Instances\<close>

definition sample_net :: "string option \<Rightarrow> int \<Rightarrow> nat network" where
  "sample_net proxy status =
     \<lparr>net_request = (\<lambda>_. None), net_proxy = (\<lambda>_. Inr proxy), net_dial = (\<lambda>_. Inr 5),
      net_response = (\<lambda>_ _. Inr (status, [], 0)), net_handshake = (\<lambda>_ _. Inr 42)\<rparr>"

theorem handshake_once_witness:
  "handshakes [(sample_net None 200, ''h'', 8 :: nat), (sample_net None 200, ''h'', 9)] (newCredsFromSideChannel ''remote:443'') =
     ([(Inr (8, 42), [5], [5]), (Inr (9, 42), [], [])], \<lparr>sc_endpoint = ''remote:443'', sc_authInfo = Some 42\<rparr>)"
proof -
  have 1: "ClientHandshake (sample_net None 200) ''h'' (8 :: nat) (newCredsFromSideChannel ''remote:443'') =
      (Inr (8, 42), [5], [5], \<lparr>sc_endpoint = ''remote:443'', sc_authInfo = Some 42\<rparr>)"
    by (simp add: ClientHandshake_def sample_net_def newCredsFromSideChannel_def)
  from handshake_once [OF 1, of "[(sample_net None 200, ''h'', 9 :: nat)]"] 1 show ?thesis by simp
qed

lemma sample_refused:
  "refused_tunnel (sample_net None 200) ''remote:443'' = None" "refused_tunnel (sample_net (Some ''proxy'') 407) ''remote:443'' = Some 5"
  by (simp_all add: refused_tunnel_def sample_net_def)

theorem handshake_closes_witness:
  "\<exists>r opened closed c'. ClientHandshake (sample_net None 200) ''h'' (8 :: nat) (newCredsFromSideChannel ''remote:443'') =
     (r, opened, closed, c') \<and> opened = closed"
proof -
  obtain r opened closed c' where h: "ClientHandshake (sample_net None 200) ''h'' (8 :: nat)
      (newCredsFromSideChannel ''remote:443'') = (r, opened, closed, c')"
    by (cases "ClientHandshake (sample_net None 200) ''h'' (8 :: nat) (newCredsFromSideChannel ''remote:443'')") auto
  from handshake_closes [OF _ h] h sample_refused(1) show ?thesis by (simp add: newCredsFromSideChannel_def)
qed

theorem refused_tunnel_leaks_witness:
  "left_open (fst (handshakes (replicate 3 (sample_net (Some ''proxy'') 407, ''h'', 8 :: nat)) (newCredsFromSideChannel ''remote:443''))) =
     {#5, 5, 5#}"
  using refused_tunnel_leaks [OF _ surjective_pairing, of "newCredsFromSideChannel ''remote:443''"
      "replicate 3 (sample_net (Some ''proxy'') 407, ''h'', 8 :: nat)"] sample_refused(2)
  by (simp add: newCredsFromSideChannel_def numeral_3_eq_3)

theorem ipv6_proxy_unreachable_witness:
  "\<exists>e. dialViaCONNECT ((sample_net None 200)\<lparr>net_dial := (\<lambda>a. if HasPrefix a ''[['' then Inl EOF else Inr 5)\<rparr>) ''remote:443'' ''[::1]'' =
     (Inl (ErrWrap ''failed to dial proxy [[::1]]:80'' e), [], [])"
  by (rule ipv6_proxy_unreachable) (simp add: HasPrefix_def)

end
