(* ===== verification/CountingReader.thy ===== *)
theory CountingReader
  imports GoIO
begin

text \<open>
  The counting reader of \<^verbatim>\<open>ioutils/counting_reader.go\<close>: it passes every read on to the reader that
  it wraps and adds the number of bytes to a 64-bit counter of its caller. The wrapped reader is any
  reader, given by its \<^verbatim>\<open>Read\<close> method, and by its \<^verbatim>\<open>Close\<close> method if it has one.
\<close>

record 'r countingReader =
  cr_reader :: 'r
  cr_count :: "64 word"

definition NewCountingReader :: "'r \<Rightarrow> 64 word \<Rightarrow> 'r countingReader" where
  "NewCountingReader reader count = \<lparr>cr_reader = reader, cr_count = count\<rparr>"

definition cr_Close :: "('r \<Rightarrow> err \<times> 'r) option \<Rightarrow> 'r countingReader \<Rightarrow> err \<times> 'r countingReader" where
  "cr_Close closer r =
     (case closer of
        None \<Rightarrow> (None, r)
      | Some close \<Rightarrow> (case close (cr_reader r) of (e, s) \<Rightarrow> (e, r\<lparr>cr_reader := s\<rparr>)))"

definition cr_Read ::
  "(nat \<Rightarrow> 'r \<Rightarrow> bytes \<times> err \<times> 'r) \<Rightarrow> nat \<Rightarrow> 'r countingReader \<Rightarrow> bytes \<times> err \<times> 'r countingReader" where
  "cr_Read rd n r =
     (case rd n (cr_reader r) of
        (d, e, s) \<Rightarrow> (d, e, r\<lparr>cr_reader := s, cr_count := cr_count r + word_of_nat (length d)\<rparr>))"

lemma read_until_counting:
  "read_until (cr_Read rd) cs r =
     (case read_until rd cs (cr_reader r) of
        (d, e, s) \<Rightarrow> (d, e, r\<lparr>cr_reader := s, cr_count := cr_count r + word_of_nat (length d)\<rparr>))"
proof (induction cs arbitrary: r)
  case (Cons c cs)
  then show ?case by (auto simp: cr_Read_def split: prod.split option.split)
qed simp

text \<open>
  Counting is transparent and exact: for every reader and every sequence of reads, the data and the
  error are those of the wrapped reader, and the signed 64-bit counter, started at zero, holds the
  number of bytes delivered, as long as these are fewer than \<^verbatim>\<open>2^63\<close>.
\<close>

theorem counting_reader_exact:
  assumes "read_until rd cs s = (d, e, s')" and "length d < 2 ^ 63"
  shows "\<exists>r'. read_until (cr_Read rd) cs (NewCountingReader s 0) = (d, e, r') \<and> cr_reader r' = s' \<and>
    sint (cr_count r') = int (length d)"
proof -
  have "sint (word_of_nat (length d) :: 64 word) = int (length d)"
    using assms(2) by (simp add: signed_of_nat signed_take_bit_int_eq_self)
  with assms(1) show ?thesis by (simp add: read_until_counting NewCountingReader_def)
qed

theorem counting_reader_exact_witness:
  "\<exists>r'. read_until (cr_Read rd_read) [2, 2] (NewCountingReader [([1, 2, 3], None)] 0) = ([1, 2, 3], None, r') \<and>
     sint (cr_count r') = 3"
  using counting_reader_exact [of rd_read "[2, 2]" "[([1, 2, 3], None)]" "[1, 2, 3]" None] by auto

end
