(* ===== verification/ProxyServer.thy ===== *)
theory ProxyServer
  imports PipeConn
begin

text \<open>
  The life of the proxy's server (\<^verbatim>\<open>makeProxyServer\<close>, \<^verbatim>\<open>dialGRPCServer\<close> and
  \<^verbatim>\<open>closeServerOnConnShutdown\<close> of \<^verbatim>\<open>client/proxy.go\<close>) on top of the pipe listener. Goroutine 0
  runs \<^verbatim>\<open>srv.Serve(lis)\<close>; goroutine 1 is the one that closes the server, either at once, because the
  gRPC library could not dial, or after it has seen the connection shut down; all others belong to the gRPC
  library and dial.

  Of the standard library this uses \<^verbatim>\<open>http.Server\<close>: \<^verbatim>\<open>Serve\<close> registers the listener, unless the
  server has been closed, and accepts connections until \<^verbatim>\<open>Accept\<close> fails; it reports
  \<^verbatim>\<open>ErrServerClosed\<close> if the server is being shut down and the error of \<^verbatim>\<open>Accept\<close> otherwise.
  \<^verbatim>\<open>Close\<close> sets the flag that says so and closes the registered listener. A listener that could not
  be registered is closed by \<^verbatim>\<open>Serve\<close> itself. The states of the gRPC connection are any type;
  \<open>Shutdown\<close> is the final one.
\<close>

section \<open>State\<close>

definition ErrServerClosed :: go_error where "ErrServerClosed = ErrNew ''http: Server closed''"

datatype serve_pc = Starting | Serving | Unwinding | Returned go_error

datatype 'st watch_pc = Watching | AwaitingChange 'st | ClosingServer | ClosingListeners | ServerClosed err

record 'st proxy_run =
  pr_lis :: pipeListener
  pr_inShutdown :: bool
  pr_tracked :: bool
  pr_serve :: serve_pc
  pr_conn :: 'st
  pr_watch :: "'st watch_pc"

definition started :: "'st \<Rightarrow> bool \<Rightarrow> 'st proxy_run" where
  "started conn dialled =
     \<lparr>pr_lis = NewPipeListener, pr_inShutdown = False, pr_tracked = False, pr_serve = Starting, pr_conn = conn,
      pr_watch = (if dialled then Watching else ClosingServer)\<rparr>"

text \<open>Which operation of the listener a goroutine may be in.\<close>

definition may_close :: "'st proxy_run \<Rightarrow> nat \<Rightarrow> bool" where
  "may_close s t \<longleftrightarrow> t = 1 \<and> pr_watch s = ClosingListeners \<and> pr_tracked s \<or> t = 0 \<and> pr_serve s = Unwinding"

fun role :: "'st proxy_run \<Rightarrow> nat \<Rightarrow> pl_pc \<Rightarrow> bool" where
  "role s t PlOutside = True"
| "role s t AcceptChecked = (t = 0 \<and> pr_serve s = Serving)"
| "role s t (Accepting _) = (t = 0 \<and> pr_serve s = Serving)"
| "role s t DialChecked = (2 \<le> t)"
| "role s t (Dialling _ _ _) = (2 \<le> t)"
| "role s t PlClosing = may_close s t"

definition roles :: "'st proxy_run \<Rightarrow> pipeListener \<Rightarrow> bool" where
  "roles s lis \<longleftrightarrow> (\<forall>t. role s t (pl_pcs lis t))"

section \<open>Steps\<close>

text \<open>\<open>Warning e\<close>: one of the two warnings is logged. \<open>OnListener l\<close>: a step of the listener.\<close>

datatype pr_label = PrInternal | OnListener pl_label | Warning go_error

inductive pr_step :: "(nat \<Rightarrow> go_error) \<Rightarrow> 'st \<Rightarrow> 'st proxy_run \<Rightarrow> pr_label \<Rightarrow> 'st proxy_run \<Rightarrow> bool"
  for ctxErr Shutdown where
  listener: "pl_step ctxErr (pr_lis s) l lis' \<Longrightarrow>
    l = PlInternal \<or> (\<exists>t p. l = MakesPipe t p) \<or> (\<exists>t e. 2 \<le> t \<and> l = DialFails t e) \<or> (\<exists>d a x y. l = Connects d a x y) \<Longrightarrow> roles s lis' \<Longrightarrow>
    pr_step ctxErr Shutdown s (OnListener l) (s\<lparr>pr_lis := lis'\<rparr>)"
| serve_start: "pr_serve s = Starting \<Longrightarrow> \<not> pr_inShutdown s \<Longrightarrow>
    pr_step ctxErr Shutdown s PrInternal (s\<lparr>pr_tracked := True, pr_serve := Serving\<rparr>)"
| serve_refused: "pr_serve s = Starting \<Longrightarrow> pr_inShutdown s \<Longrightarrow>
    pr_step ctxErr Shutdown s PrInternal (s\<lparr>pr_serve := Unwinding\<rparr>)"
| serve_unwound: "pr_serve s = Unwinding \<Longrightarrow> pl_step ctxErr (pr_lis s) (Closes 0 e) lis' \<Longrightarrow>
    pr_step ctxErr Shutdown s PrInternal (s\<lparr>pr_lis := lis', pr_serve := Returned ErrServerClosed\<rparr>)"
| serve_fails: "pr_serve s = Serving \<Longrightarrow> pl_step ctxErr (pr_lis s) (AcceptFails 0 e) lis' \<Longrightarrow>
    e' = (if pr_inShutdown s then ErrServerClosed else e) \<Longrightarrow>
    pr_step ctxErr Shutdown s (if e' \<noteq> ErrServerClosed then Warning e' else PrInternal)
      (s\<lparr>pr_lis := lis', pr_serve := Returned e'\<rparr>)"
| conn_changes: "pr_conn s \<noteq> Shutdown \<Longrightarrow> pr_step ctxErr Shutdown s PrInternal (s\<lparr>pr_conn := st\<rparr>)"
| watch_wait: "pr_watch s = Watching \<Longrightarrow> pr_conn s \<noteq> Shutdown \<Longrightarrow>
    pr_step ctxErr Shutdown s PrInternal (s\<lparr>pr_watch := AwaitingChange (pr_conn s)\<rparr>)"
| watch_changed: "pr_watch s = AwaitingChange st \<Longrightarrow> pr_conn s \<noteq> st \<Longrightarrow>
    pr_step ctxErr Shutdown s PrInternal (s\<lparr>pr_watch := Watching\<rparr>)"
| watch_shutdown: "pr_watch s = Watching \<Longrightarrow> pr_conn s = Shutdown \<Longrightarrow>
    pr_step ctxErr Shutdown s PrInternal (s\<lparr>pr_watch := ClosingServer\<rparr>)"
| close_flag: "pr_watch s = ClosingServer \<Longrightarrow>
    pr_step ctxErr Shutdown s PrInternal (s\<lparr>pr_inShutdown := True, pr_watch := ClosingListeners\<rparr>)"
| close_nothing: "pr_watch s = ClosingListeners \<Longrightarrow> \<not> pr_tracked s \<Longrightarrow>
    pr_step ctxErr Shutdown s PrInternal (s\<lparr>pr_watch := ServerClosed None\<rparr>)"
| close_listener: "pr_watch s = ClosingListeners \<Longrightarrow> pr_tracked s \<Longrightarrow> pl_step ctxErr (pr_lis s) (Closes 1 e) lis' \<Longrightarrow>
    pr_step ctxErr Shutdown s (case e of Some e \<Rightarrow> Warning e | None \<Rightarrow> PrInternal)
      (s\<lparr>pr_lis := lis', pr_watch := ServerClosed e\<rparr>)"

section \<open>What the steps of the listener do\<close>

abbreviation closed :: "pipeListener \<Rightarrow> bool" where
  "closed lis \<equiv> sig_ch (pl_closed lis) = None"

inductive_cases closesE: "pl_step ctxErr lis (Closes t e) lis'"
inductive_cases acceptFailsE: "pl_step ctxErr lis (AcceptFails t e) lis'"

lemma pl_Closes:
  assumes "pl_step ctxErr lis (Closes t e) lis'"
  shows "closed lis' = closed lis" and "pl_pcs lis' = (pl_pcs lis)(t := PlOutside)"
    and "e = None \<and> pl_pcs lis t = PlClosing \<or> e \<noteq> None \<and> pl_pcs lis t = PlOutside \<and> closed lis"
  using assms by (auto elim!: closesE dest!: close_returns simp: fun_upd_idem)

lemma pl_AcceptFails:
  assumes "pl_step ctxErr lis (AcceptFails t e) lis'" and "pl_inv lis"
  shows "pl_pcs lis' = (pl_pcs lis)(t := PlOutside)" and "closed lis" and "closed lis'"
proof -
  have "pl_pcs lis' = (pl_pcs lis)(t := PlOutside) \<and> pl_closed lis' = pl_closed lis \<and>
      (sig_IsDone (pl_closed lis) \<or> (\<exists>c. pl_pcs lis t = Accepting c \<and> chan_done (pl_closed lis) c))"
    using assms(1) by (auto elim!: acceptFailsE)
  moreover have "closed lis" if "pl_pcs lis t = Accepting c" "chan_done (pl_closed lis) c" for c
    using pl_invD(5) [OF assms(2) that(1)] that(2) IsDone_iff [OF pl_invD(1) [OF assms(2)]]
    by (auto simp: chan_known_def chan_done_def sig_IsDone_def split: option.splits)
  ultimately show "pl_pcs lis' = (pl_pcs lis)(t := PlOutside)" "closed lis" "closed lis'"
    using IsDone_iff [OF pl_invD(1) [OF assms(2)]] by auto
qed

text \<open>The other steps leave goroutines that close alone; the listener becomes closed only by one that begins to close it.\<close>

lemma pl_other:
  assumes "pl_step ctxErr lis l lis'" and "l = PlInternal \<or> (\<exists>t p. l = MakesPipe t p) \<or> (\<exists>t e. l = DialFails t e) \<or> (\<exists>d a x y. l = Connects d a x y)"
  shows "pl_pcs lis t = PlClosing \<Longrightarrow> pl_pcs lis' t = PlClosing"
    and "closed lis \<Longrightarrow> closed lis'"
    and "closed lis' \<Longrightarrow> closed lis \<or> (\<exists>t. pl_pcs lis' t = PlClosing)"
  using assms by (cases, auto dest: close_swap split: if_splits)+

text \<open>A goroutine that has begun to close the listener is the one that will close the signal's channel.\<close>

definition closing_ok :: "pipeListener \<Rightarrow> bool" where
  "closing_ok lis \<longleftrightarrow> (\<forall>t. pl_pcs lis t = PlClosing \<longrightarrow> closed lis \<and> (\<exists>c. sig_pcs (pl_closed lis) t = Closing c))"

lemma closing_okD:
  assumes "closing_ok lis" and "pl_pcs lis t = PlClosing"
  shows "closed lis" and "\<exists>c. sig_pcs (pl_closed lis) t = Closing c"
  using assms unfolding closing_ok_def by blast+

lemma closing_ok_step:
  assumes "closing_ok lis" and "pl_step ctxErr lis l lis'"
  shows "closing_ok lis'"
  using assms(2)
proof cases
  case (close_begin t sig' c)
  then show ?thesis using close_swap [OF close_begin(5,4,6)] assms(1) by (auto simp: closing_ok_def)
next
  case (close_end t sig')
  then show ?thesis using close_returns [OF close_end(4)] assms(1) by (auto simp: closing_ok_def)
next
  case (close_already t sig')
  then show ?thesis using close_returns [OF close_already(4)] assms(1) by (auto simp: closing_ok_def)
qed (use assms(1) in \<open>auto simp: closing_ok_def\<close>)

section \<open>Invariant\<close>

text \<open>
  The listener is closed only when the server is being shut down, by the goroutine that is in charge; a
  \<^verbatim>\<open>Serve\<close> that has returned was told to, and \<^verbatim>\<open>Close\<close> has closed a registered listener without
  an error.
\<close>

definition pr_inv :: "'st \<Rightarrow> 'st proxy_run \<Rightarrow> bool" where
  "pr_inv Shutdown s \<longleftrightarrow> pl_inv (pr_lis s) \<and> roles s (pr_lis s) \<and>
     closing_ok (pr_lis s) \<and> (closed (pr_lis s) \<longrightarrow> pr_inShutdown s) \<and>
     (pr_inShutdown s \<longleftrightarrow> pr_watch s = ClosingListeners \<or> (\<exists>e. pr_watch s = ServerClosed e)) \<and>
     (case pr_serve s of
        Starting \<Rightarrow> \<not> pr_tracked s
      | Serving \<Rightarrow> pr_tracked s
      | Unwinding \<Rightarrow> \<not> pr_tracked s \<and> pr_inShutdown s
      | Returned e \<Rightarrow> e = ErrServerClosed \<and> closed (pr_lis s)) \<and>
     (case pr_watch s of
        AwaitingChange st \<Rightarrow> st \<noteq> Shutdown
      | ClosingListeners \<Rightarrow> pr_tracked s \<and> closed (pr_lis s) \<longrightarrow> pl_pcs (pr_lis s) 1 = PlClosing
      | ServerClosed e \<Rightarrow> e = None \<and> (pr_tracked s \<longrightarrow> closed (pr_lis s))
      | _ \<Rightarrow> True)"

lemma pr_invD:
  assumes "pr_inv Shutdown s"
  shows "pl_inv (pr_lis s)" "roles s (pr_lis s)" "closed (pr_lis s) \<Longrightarrow> pr_inShutdown s"
    "closing_ok (pr_lis s)"
    "pr_inShutdown s \<longleftrightarrow> pr_watch s = ClosingListeners \<or> (\<exists>e. pr_watch s = ServerClosed e)"
    "pr_serve s = Starting \<Longrightarrow> \<not> pr_tracked s" "pr_serve s = Serving \<Longrightarrow> pr_tracked s"
    "pr_serve s = Unwinding \<Longrightarrow> \<not> pr_tracked s" "pr_serve s = Unwinding \<Longrightarrow> pr_inShutdown s"
    "pr_serve s = Returned e \<Longrightarrow> e = ErrServerClosed" "pr_serve s = Returned e \<Longrightarrow> closed (pr_lis s)"
    "pr_watch s = AwaitingChange st \<Longrightarrow> st \<noteq> Shutdown"
    "pr_watch s = ClosingListeners \<Longrightarrow> pr_tracked s \<Longrightarrow> closed (pr_lis s) \<Longrightarrow> pl_pcs (pr_lis s) 1 = PlClosing"
    "pr_watch s = ServerClosed e' \<Longrightarrow> e' = None" "pr_watch s = ServerClosed e' \<Longrightarrow> pr_tracked s \<Longrightarrow> closed (pr_lis s)"
  using assms unfolding pr_inv_def by (blast | fastforce split: serve_pc.splits watch_pc.splits)+

lemma pr_inv_started: "pr_inv Shutdown (started conn dialled)"
  by (simp add: pr_inv_def started_def pl_inv_New roles_def closing_ok_def)

text \<open>A goroutine that leaves the listener leaves no role to check.\<close>

lemma role_cong: "pr_serve s' = pr_serve s \<Longrightarrow> may_close s' t = may_close s t \<Longrightarrow> role s' t p = role s t p"
  by (cases p) simp_all

lemma roles_leave:
  assumes "roles s lis" and "pl_pcs lis' = (pl_pcs lis)(t := PlOutside)"
    and "\<And>t' p. t' \<noteq> t \<Longrightarrow> role s t' p \<Longrightarrow> role s' t' p"
  shows "roles s' lis'"
  using assms unfolding roles_def by simp

lemma roles_same:
  assumes "roles s lis" and "\<And>t p. role s t p \<Longrightarrow> role s' t p"
  shows "roles s' lis"
  using assms unfolding roles_def by blast

lemma role_mono:
  assumes "role s t p" and "pr_serve s = Serving \<Longrightarrow> t = 0 \<Longrightarrow> pr_serve s' = Serving"
    and "may_close s t \<Longrightarrow> may_close s' t"
  shows "role s' t p"
  using assms by (cases p) auto

lemma pr_inv_listener:
  assumes inv: "pr_inv Shutdown s" and step: "pl_step ctxErr (pr_lis s) l lis'"
    and l: "l = PlInternal \<or> (\<exists>t p. l = MakesPipe t p) \<or> (\<exists>t e. 2 \<le> t \<and> l = DialFails t e) \<or> (\<exists>d a x y. l = Connects d a x y)" and "roles s lis'"
  shows "pr_inv Shutdown (s\<lparr>pr_lis := lis'\<rparr>)"
proof -
  have "l = PlInternal \<or> (\<exists>t p. l = MakesPipe t p) \<or> (\<exists>t e. l = DialFails t e) \<or> (\<exists>d a x y. l = Connects d a x y)" using l by blast
  note o = pl_other [OF step this]
  have r: "roles (s\<lparr>pr_lis := lis'\<rparr>) lis'"
    using roles_same [OF assms(4), of "s\<lparr>pr_lis := lis'\<rparr>"] role_cong [of "s\<lparr>pr_lis := lis'\<rparr>" s]
    by (simp add: may_close_def)
  have new: "\<exists>t. may_close s t \<and> pl_pcs lis' t = PlClosing" if "closed lis'" "\<not> closed (pr_lis s)"
    using o(3) [OF that(1)] that(2) assms(4) unfolding roles_def by (metis role.simps(6))
  have "pl_inv lis'" using inv pl_inv_step [OF _ step] by (simp add: pr_inv_def)
  moreover have "closed lis' \<longrightarrow> pr_inShutdown s"
    using pr_invD(3) [OF inv] pr_invD(5) [OF inv] pr_invD(9) [OF inv] new unfolding may_close_def by blast
  moreover have "closing_ok lis'" by (rule closing_ok_step [OF pr_invD(4) [OF inv] step])
  moreover have "pl_pcs lis' 1 = PlClosing" if "pr_watch s = ClosingListeners" "pr_tracked s" "closed lis'"
    using pr_invD(8) [OF inv] pr_invD(13) [OF inv] o(1) [of 1] new that unfolding may_close_def by blast
  ultimately show ?thesis
    using inv o(2) r unfolding pr_inv_def by (auto simp del: not_None_eq split: serve_pc.splits watch_pc.splits)
qed

lemma pr_inv_step:
  assumes inv: "pr_inv Shutdown s" and "pr_step ctxErr Shutdown s l s'"
  shows "pr_inv Shutdown s' \<and> (\<forall>e. l \<noteq> Warning e)"
  using assms(2)
proof cases
  case (listener l lis')
  then show ?thesis using pr_inv_listener [OF inv] by simp
next
  case (serve_unwound e lis')
  note c = pl_Closes [OF serve_unwound(4)]
  have "roles s' (pr_lis s')"
    unfolding serve_unwound(2)
    by (rule roles_leave [of s "pr_lis s" _ 0]) (use inv serve_unwound(3) c(2) in
      \<open>auto simp: pr_inv_def elim!: role_mono simp: may_close_def\<close>)
  then show ?thesis
    using inv serve_unwound c pl_inv_step [OF _ serve_unwound(4)] closing_ok_step [OF _ serve_unwound(4)] closing_okD(1) [of "pr_lis s" 0]
    by (auto simp: pr_inv_def split: watch_pc.splits)
next
  case (serve_fails e lis' e')
  have "pl_inv (pr_lis s)" using inv by (simp add: pr_inv_def)
  note c = pl_AcceptFails [OF serve_fails(4) this]
  have "roles s' (pr_lis s')"
    unfolding serve_fails(2)
    by (rule roles_leave [of s "pr_lis s" _ 0]) (use inv serve_fails(3) c(1) in
      \<open>auto simp: pr_inv_def elim!: role_mono simp: may_close_def\<close>)
  moreover have "pr_inShutdown s" using inv c(2) by (simp add: pr_inv_def)
  ultimately show ?thesis
    using inv serve_fails c pl_inv_step [OF _ serve_fails(4)] closing_ok_step [OF _ serve_fails(4)] closing_okD(1) [of "pr_lis s" 0]
    by (auto simp: pr_inv_def split: watch_pc.splits)
next
  case (close_listener e lis')
  note c = pl_Closes [OF close_listener(5)]
  have e: "e = None" using c(3) inv close_listener(3,4) by (auto simp: pr_inv_def)
  have "roles s' (pr_lis s')"
    unfolding close_listener(2)
    by (rule roles_leave [of s "pr_lis s" _ 1]) (use inv close_listener(3) c(2) in
      \<open>auto simp: pr_inv_def elim!: role_mono simp: may_close_def\<close>)
  then show ?thesis
    using inv close_listener c e pl_inv_step [OF _ close_listener(5)] closing_ok_step [OF _ close_listener(5)] closing_okD(1) [of "pr_lis s" 1]
    by (auto simp: pr_inv_def split: serve_pc.splits)
qed (use inv in \<open>auto simp: pr_inv_def may_close_def elim!: roles_same role_mono split: serve_pc.splits watch_pc.splits\<close>)

interpretation pr: invariant "\<lambda>s. \<exists>conn dialled. s = started conn dialled" "pr_step ctxErr Shutdown" "pr_inv Shutdown"
  for ctxErr and Shutdown :: 'st
  by standard (auto simp: pr_inv_started dest: pr_inv_step)

section \<open>Shutting down\<close>

text \<open>First the server is told to shut down.\<close>

lemma reaches_shutdown:
  assumes inv: "pr_inv Shutdown s" and "pr_conn s = Shutdown \<or> pr_watch s = ClosingServer \<or> pr_inShutdown s"
  shows "within 3 (pr_step ctxErr Shutdown) s pr_inShutdown"
proof -
  let ?step = "pr_step ctxErr Shutdown"
  have 1: "within 1 ?step u pr_inShutdown" if "pr_watch u = ClosingServer" for u
    by (rule within_one, rule close_flag [OF that]) simp
  have 2: "within 2 ?step u pr_inShutdown" if "pr_watch u = Watching" "pr_conn u = Shutdown" for u
    unfolding numeral_2_eq_2 by (rule within_step, rule watch_shutdown [OF that]) (use 1 in simp)
  have 3: "within 3 ?step s pr_inShutdown" if "pr_watch s = AwaitingChange st" "pr_conn s = Shutdown" for st
  proof -
    have "pr_conn s \<noteq> st" using pr_invD(12) [OF inv that(1)] that(2) by simp
    then show ?thesis
      unfolding numeral_3_eq_3
      by (intro within_step [of ?step, OF watch_changed [OF that(1)]]) (use 2 that(2) in \<open>simp_all add: numeral_2_eq_2\<close>)
  qed
  consider "pr_inShutdown s" | "pr_watch s = ClosingServer" | "pr_watch s = Watching" "pr_conn s = Shutdown"
    | st where "pr_watch s = AwaitingChange st" "pr_conn s = Shutdown"
    using assms(2) pr_invD(5) [OF inv] by (cases "pr_watch s") auto
  then show ?thesis
  proof cases
    case 1
    then show ?thesis by (rule within_here)
  next
    case 2
    from within_mono [OF 1 [OF 2]] show ?thesis by simp
  next
    case 3
    from within_mono [OF 2 [OF 3]] show ?thesis by simp
  next
    case 4
    then show ?thesis by (rule 3)
  qed
qed

text \<open>A listener that is open can be closed, and one that is being closed gets closed.\<close>

lemma listener_closes:
  assumes "pl_inv lis" and "closing_ok lis" and "pl_pcs lis t = PlClosing"
  shows "\<exists>lis'. pl_step ctxErr lis (Closes t None) lis'"
proof -
  obtain c where c: "sig_pcs (pl_closed lis) t = Closing c" using closing_okD(2) [OF assms(2,3)] by blast
  have "c \<notin> sig_closed (pl_closed lis)" using sig_invD(4) [OF pl_invD(1) [OF assms(1)] c] .
  from close_end [OF assms(3) signal_close [OF c this]] show ?thesis by blast
qed

lemma listener_begins:
  assumes "pl_inv lis" and "pl_pcs lis t = PlOutside" and "\<not> closed lis"
  shows "\<exists>lis'. pl_step ctxErr lis PlInternal lis' \<and> pl_pcs lis' = (pl_pcs lis)(t := PlClosing)"
proof -
  have o: "sig_pcs (pl_closed lis) t = Outside" using pl_invD(2) [OF assms(1), of t] assms(2) by auto
  obtain c where "sig_ch (pl_closed lis) = Some c" using assms(3) by blast
  then have "sig_step (pl_closed lis) SigInternal (set_pc t (Closing c) ((pl_closed lis)\<lparr>sig_ch := None\<rparr>))"
    using o by (intro signal_swap) simp_all
  from close_begin [OF assms(2) o this, of c ctxErr]
  have "pl_step ctxErr lis PlInternal (pl_set t PlClosing
      (lis\<lparr>pl_closed := set_pc t (Closing c) ((pl_closed lis)\<lparr>sig_ch := None\<rparr>)\<rparr>))" by simp
  then show ?thesis by (intro exI, intro conjI) (assumption, simp)
qed

lemma listener_already:
  assumes "pl_inv lis" and "pl_pcs lis t = PlOutside" and "closed lis"
  shows "\<exists>lis'. pl_step ctxErr lis (Closes t (Some ErrAlreadyClosed)) lis'"
proof -
  have "sig_pcs (pl_closed lis) t = Outside" using pl_invD(2) [OF assms(1), of t] assms(2) by auto
  from close_already [OF assms(2) signal_already [OF disjI1 [OF this] assms(3)]] show ?thesis by blast
qed

text \<open>A goroutine that may close the listener does so in at most two steps.\<close>

lemma closes_listener:
  assumes inv: "pr_inv Shutdown s" and "may_close s t"
    and finish: "\<And>s1 e lis'. pr_serve s1 = pr_serve s \<Longrightarrow> pr_watch s1 = pr_watch s \<Longrightarrow> pr_tracked s1 = pr_tracked s \<Longrightarrow>
      pl_step ctxErr (pr_lis s1) (Closes t e) lis' \<Longrightarrow> within 1 (pr_step ctxErr Shutdown) s1 P"
  shows "within 2 (pr_step ctxErr Shutdown) s P"
proof -
  let ?step = "pr_step ctxErr Shutdown"
  have pc: "pl_pcs (pr_lis s) t = PlOutside \<or> pl_pcs (pr_lis s) t = PlClosing"
  proof -
    have "role s t (pl_pcs (pr_lis s) t)" using pr_invD(2) [OF inv] by (simp add: roles_def)
    with assms(2) pr_invD(7) [OF inv] show ?thesis
      by (cases "pl_pcs (pr_lis s) t") (auto simp: may_close_def)
  qed
  consider (closing) "pl_pcs (pr_lis s) t = PlClosing" | (already) "pl_pcs (pr_lis s) t = PlOutside" "closed (pr_lis s)"
    | (fresh) "pl_pcs (pr_lis s) t = PlOutside" "\<not> closed (pr_lis s)" using pc by blast
  then show ?thesis
  proof cases
    case closing
    from listener_closes [OF pr_invD(1) [OF inv] pr_invD(4) [OF inv] this] finish [OF refl refl refl]
    have "within 1 ?step s P" by blast
    then show ?thesis by (rule within_mono) simp
  next
    case already
    from listener_already [OF pr_invD(1) [OF inv] this] finish [OF refl refl refl]
    have "within 1 ?step s P" by blast
    then show ?thesis by (rule within_mono) simp
  next
    case fresh
    from listener_begins [OF pr_invD(1) [OF inv] this] obtain lis' where
      l: "pl_step ctxErr (pr_lis s) PlInternal lis'" "pl_pcs lis' = (pl_pcs (pr_lis s))(t := PlClosing)" by blast
    have "roles s lis'" using pr_invD(2) [OF inv] assms(2) l(2) by (simp add: roles_def)
    with listener [OF l(1), of Shutdown] have step: "?step s (OnListener PlInternal) (s\<lparr>pr_lis := lis'\<rparr>)" by simp
    have inv': "pr_inv Shutdown (s\<lparr>pr_lis := lis'\<rparr>)" using pr_inv_step [OF inv step] by simp
    have "within 1 ?step (s\<lparr>pr_lis := lis'\<rparr>) P"
      using listener_closes [OF pr_invD(1) [OF inv'] pr_invD(4) [OF inv'], of t] l(2) finish [of "s\<lparr>pr_lis := lis'\<rparr>"]
      by auto
    then show ?thesis using within_step [of ?step, OF step] by (simp add: numeral_2_eq_2)
  qed
qed

text \<open>Then \<^verbatim>\<open>Close\<close> returns, and after it \<^verbatim>\<open>Serve\<close>.\<close>

abbreviation close_returned :: "'st proxy_run \<Rightarrow> bool" where
  "close_returned s \<equiv> \<exists>e. pr_watch s = ServerClosed e"

abbreviation serve_returned :: "'st proxy_run \<Rightarrow> bool" where
  "serve_returned s \<equiv> \<exists>e. pr_serve s = Returned e"

lemma close_returns_soon:
  fixes s :: "'st proxy_run"
  assumes inv: "pr_inv Shutdown s" and "pr_inShutdown s"
  shows "within 2 (pr_step ctxErr Shutdown) s close_returned"
proof -
  consider "close_returned s" | "pr_watch s = ClosingListeners" "\<not> pr_tracked s"
    | (tracked) "pr_watch s = ClosingListeners" "pr_tracked s"
    using assms(2) pr_invD(5) [OF inv] by blast
  then show ?thesis
  proof cases
    case 1
    then show ?thesis by (rule within_here)
  next
    case 2
    have "within 1 (pr_step ctxErr Shutdown) s close_returned"
      by (rule within_one, rule close_nothing [OF 2]) simp
    then show ?thesis by (rule within_mono) simp
  next
    case tracked
    have "may_close s 1" using tracked by (simp add: may_close_def)
    then show ?thesis
    proof (rule closes_listener [OF inv])
      fix s1 :: "'st proxy_run" and e lis'
      assume "pr_watch s1 = pr_watch s" "pr_tracked s1 = pr_tracked s" "pl_step ctxErr (pr_lis s1) (Closes 1 e) lis'"
      with tracked close_listener [of s1] show "within 1 (pr_step ctxErr Shutdown) s1 close_returned"
        by (intro within_one [of "pr_step ctxErr Shutdown", OF close_listener [of s1]]) simp_all
    qed
  qed
qed

text \<open>\<^verbatim>\<open>Accept\<close> on a listener whose signal is closed for good fails in at most two steps.\<close>

lemma accept_fails_soon:
  assumes inv: "pr_inv Shutdown s" and "pr_serve s = Serving" and "close_returned s"
  shows "within 2 (pr_step ctxErr Shutdown) s (\<lambda>s'. serve_returned s' \<and> close_returned s')"
proof -
  let ?step = "pr_step ctxErr Shutdown" and ?P = "\<lambda>s'. serve_returned s' \<and> close_returned s'"
  note pl = pr_invD(1) [OF inv]
  have c: "closed (pr_lis s)" using pr_invD(7) [OF inv assms(2)] pr_invD(15) [OF inv] assms(3) by blast
  have out: "sig_pcs (pl_closed (pr_lis s)) t = Outside" for t
  proof (rule ccontr)
    assume "sig_pcs (pl_closed (pr_lis s)) t \<noteq> Outside"
    then have "pl_pcs (pr_lis s) t = PlClosing" using pl_invD(2) [OF pl, of t] by blast
    then have "may_close s t" using pr_invD(2) [OF inv] unfolding roles_def by (metis role.simps(6))
    with assms(2,3) show False by (auto simp: may_close_def)
  qed
  have 1: "within 1 ?step u ?P" if "pl_step ctxErr (pr_lis u) (AcceptFails 0 e) lis'" "pr_serve u = Serving" "close_returned u" for u e lis'
    by (rule within_one, rule serve_fails [OF that(2,1) refl]) (use that(3) in simp)
  have role: "role s 0 (pl_pcs (pr_lis s) 0)" using pr_invD(2) [OF inv] by (simp add: roles_def)
  show ?thesis
  proof (cases "pl_pcs (pr_lis s) 0")
    case PlOutside
    have "pl_step ctxErr (pr_lis s) (AcceptFails 0 ErrClosed) (pr_lis s)"
      by (rule accept_closed [OF PlOutside]) (use c in \<open>simp add: sig_IsDone_def\<close>)
    from within_mono [OF 1 [OF this assms(2,3)]] show ?thesis by simp
  next
    case AcceptChecked
    let ?lis = "pl_set 0 (Accepting None) (pr_lis s)"
    have d: "Done (pl_closed (pr_lis s)) = None" using c by (simp add: Done_def WaitC_def)
    have a: "pl_step ctxErr (pr_lis s) PlInternal ?lis" using accept_select [OF AcceptChecked, of ctxErr] d by simp
    have "roles s ?lis" using pr_invD(2) [OF inv] assms(2) by (simp add: roles_def)
    with listener [OF a, of Shutdown] have st: "?step s (OnListener PlInternal) (s\<lparr>pr_lis := ?lis\<rparr>)" by simp
    have "pl_step ctxErr ?lis (AcceptFails 0 ErrClosed) (pl_set 0 PlOutside ?lis)"
      by (rule accept_done [of _ _ None]) (simp_all add: chan_done_def)
    then have "within 1 ?step (s\<lparr>pr_lis := ?lis\<rparr>) ?P" using 1 [of "s\<lparr>pr_lis := ?lis\<rparr>"] assms(2,3) by simp
    then show ?thesis using within_step [of ?step, OF st] by (simp add: numeral_2_eq_2)
  next
    case (Accepting ch)
    have "chan_known (pl_closed (pr_lis s)) ch" by (rule pl_invD(5) [OF pl Accepting])
    then have "chan_done (pl_closed (pr_lis s)) ch"
      using c out by (auto simp: chan_known_def chan_done_def retired_def split: option.splits)
    from within_mono [OF 1 [OF accept_done [OF Accepting this] assms(2,3)]] show ?thesis by simp
  qed (use role assms(3) pr_invD(8) [OF inv] in \<open>auto simp: may_close_def assms(2)\<close>)
qed

lemma serve_returns_soon:
  fixes s :: "'st proxy_run"
  assumes inv: "pr_inv Shutdown s" and closed: "close_returned s"
  shows "within 3 (pr_step ctxErr Shutdown) s (\<lambda>s'. serve_returned s' \<and> close_returned s')"
proof -
  let ?step = "pr_step ctxErr Shutdown" and ?P = "\<lambda>s'. serve_returned s' \<and> close_returned s'"
  have unwind: "within 2 ?step u ?P" if "pr_inv Shutdown u" "pr_serve u = Unwinding" "close_returned u" for u
  proof (rule closes_listener [OF that(1)])
    show "may_close u 0" using that(2) by (simp add: may_close_def)
  next
    fix s1 :: "'st proxy_run" and e lis'
    assume "pr_serve s1 = pr_serve u" "pr_watch s1 = pr_watch u" "pl_step ctxErr (pr_lis s1) (Closes 0 e) lis'"
    with that show "within 1 ?step s1 ?P"
      by (intro within_one [of ?step, OF serve_unwound [of s1]]) simp_all
  qed
  show ?thesis
  proof (cases "pr_serve s")
    case Starting
    have "pr_inShutdown s" using pr_invD(5) [OF inv] closed by blast
    then have st: "?step s PrInternal (s\<lparr>pr_serve := Unwinding\<rparr>)" by (rule serve_refused [OF Starting])
    have "within 2 ?step (s\<lparr>pr_serve := Unwinding\<rparr>) ?P"
      by (rule unwind) (use pr_inv_step [OF inv st] closed in simp_all)
    from within_step [of ?step, OF st this] show ?thesis by (simp add: numeral_3_eq_3 numeral_2_eq_2)
  next
    case Serving
    from within_mono [OF accept_fails_soon [OF inv this closed]] show ?thesis by simp
  next
    case Unwinding
    from within_mono [OF unwind [OF inv this closed]] show ?thesis by simp
  next
    case (Returned e)
    then show ?thesis using closed by (intro within_here) simp
  qed
qed

section \<open>Properties\<close>

lemma pr_reachable: "run (pr_step ctxErr Shutdown) (started conn dialled) ls s \<Longrightarrow> pr_inv Shutdown s"
  by (rule pr.reachable_inv) (intro exI, rule refl)

text \<open>A server whose connection could not be dialled is being closed from the start.\<close>

lemma not_dialled:
  assumes "run (pr_step ctxErr Shutdown) s0 ls s" and "pr_watch s0 = ClosingServer"
  shows "pr_watch s = ClosingServer \<or> pr_watch s = ClosingListeners \<or> close_returned s"
  using assms
proof (induction rule: run.induct)
  case (run_snoc s ls s' l s'')
  from run_snoc.hyps(2) run_snoc.IH [OF run_snoc.prems] show ?case by cases auto
qed simp

text \<open>
  Claim C19. The proxy's server stops cleanly. However the goroutines interleave, neither of the two warnings is
  ever logged: \<^verbatim>\<open>Serve\<close> returns no other error than \<^verbatim>\<open>http.ErrServerClosed\<close>, and closing the server
  succeeds. The listener is open for as long as the server was not told to close, and it is closed when
  \<^verbatim>\<open>Serve\<close> returns, also if the server was closed before it started to serve.
\<close>

theorem clean_shutdown:
  assumes "run (pr_step ctxErr Shutdown) (started conn dialled) ls s"
  shows "(\<forall>e. Warning e \<notin> set ls) \<and>
    (\<forall>e. pr_serve s = Returned e \<longrightarrow> e = ErrServerClosed \<and> sig_IsDone (pl_closed (pr_lis s))) \<and>
    (sig_IsDone (pl_closed (pr_lis s)) \<longrightarrow> pr_inShutdown s)"
proof -
  note inv = pr_reachable [OF assms]
  have "\<forall>e. Warning e \<notin> set ls"
    using assms
  proof (induction "started conn dialled" ls s rule: run.induct)
    case (run_snoc ls s' l s'')
    from pr_inv_step [OF pr_reachable [OF run_snoc.hyps(1)] run_snoc.hyps(3)] run_snoc.hyps(2) show ?case by auto
  qed simp
  moreover have "sig_IsDone (pl_closed (pr_lis s)) \<longleftrightarrow> closed (pr_lis s)"
    by (rule IsDone_iff [OF pl_invD(1) [OF pr_invD(1) [OF inv]]])
  moreover have "e = ErrServerClosed \<and> closed (pr_lis s)" if "pr_serve s = Returned e" for e
    using pr_invD(10) [OF inv that] pr_invD(11) [OF inv that] by blast
  ultimately show ?thesis using pr_invD(3) [OF inv] by (simp del: not_None_eq)
qed

text \<open>
  Claim C20. The server does not outlive the connection. When the gRPC connection has been shut down, or could not be
  dialled, then at most eight steps of the program's own goroutines, whatever happened before, lead to a
  state in which \<^verbatim>\<open>Close\<close> and \<^verbatim>\<open>Serve\<close> have returned and the listener is closed.
\<close>

theorem shutdown_completes:
  assumes "run (pr_step ctxErr Shutdown) (started conn dialled) ls s" and "pr_conn s = Shutdown \<or> \<not> dialled"
  shows "\<exists>ls' s'. run (pr_step ctxErr Shutdown) s ls' s' \<and> length ls' \<le> 8 \<and>
    pr_watch s' = ServerClosed None \<and> pr_serve s' = Returned ErrServerClosed \<and> sig_IsDone (pl_closed (pr_lis s'))"
proof -
  let ?step = "pr_step ctxErr Shutdown" and ?P = "\<lambda>s'. serve_returned s' \<and> close_returned s'"
  note inv = pr_reachable [OF assms(1)]
  have "pr_conn s = Shutdown \<or> pr_watch s = ClosingServer \<or> pr_inShutdown s"
    using assms(2) not_dialled [OF assms(1)] pr_invD(5) [OF inv] by (auto simp: started_def)
  then have 1: "within 3 ?step s pr_inShutdown" by (rule reaches_shutdown [OF inv])
  have "within (2 + 3) ?step u ?P" if "run ?step s l u" "pr_inShutdown u" for l u
  proof (rule within_trans [of 2 ?step u close_returned])
    have inv_u: "pr_inv Shutdown u" by (rule pr.inv_run [OF that(1) inv])
    show "within 2 ?step u close_returned" by (rule close_returns_soon [OF inv_u that(2)])
    show "within 3 ?step v ?P" if "run ?step u l' v" "close_returned v" for l' v
      by (rule serve_returns_soon [OF pr.inv_run [OF that(1) inv_u] that(2)])
  qed
  with 1 have "within (3 + (2 + 3)) ?step s ?P" by (rule within_trans)
  then obtain ls' s' where r: "run ?step s ls' s'" "length ls' \<le> 8" "?P s'" unfolding within_def by auto
  have inv': "pr_inv Shutdown s'" by (rule pr.inv_run [OF r(1) inv])
  from r(3) obtain e e' where e: "pr_serve s' = Returned e" "pr_watch s' = ServerClosed e'" by blast
  have "sig_IsDone (pl_closed (pr_lis s'))"
    using IsDone_iff [OF pl_invD(1) [OF pr_invD(1) [OF inv']]] pr_invD(11) [OF inv' e(1)] by blast
  with r(1,2) e pr_invD(10) [OF inv' e(1)] pr_invD(14) [OF inv' e(2)] show ?thesis by blast
qed

section \<open>Instances\<close>

text \<open>A connection that is shut down at once, and one that could not be dialled.\<close>

theorem clean_shutdown_witness:
  "\<exists>s. run (pr_step (\<lambda>_. EOF) (1 :: nat)) (started 0 False) [PrInternal, PrInternal] s \<and> pr_serve s = Unwinding \<and>
     (\<forall>e. Warning e \<notin> set [PrInternal, PrInternal]) \<and> pr_inShutdown s"
proof -
  let ?step = "pr_step (\<lambda>_. EOF) (1 :: nat)" and ?s0 = "started (0 :: nat) False"
  let ?s1 = "?s0\<lparr>pr_inShutdown := True, pr_watch := ClosingListeners\<rparr>"
  have 1: "?step ?s0 PrInternal ?s1" by (rule close_flag) (simp add: started_def)
  have 2: "?step ?s1 PrInternal (?s1\<lparr>pr_serve := Unwinding\<rparr>)" by (rule serve_refused) (simp_all add: started_def)
  have "run ?step ?s0 [PrInternal, PrInternal] (?s1\<lparr>pr_serve := Unwinding\<rparr>)"
    by (rule run_Cons [of ?step, OF 1], rule run_single, rule 2)
  with clean_shutdown [OF this] show ?thesis by (intro exI [of _ "?s1\<lparr>pr_serve := Unwinding\<rparr>"]) simp
qed

theorem shutdown_completes_witness:
  "\<exists>ls' s'. run (pr_step (\<lambda>_. EOF) (1 :: nat)) (started 1 True) ls' s' \<and> length ls' \<le> 8 \<and>
     pr_serve s' = Returned ErrServerClosed"
  using shutdown_completes [OF run_Nil [of "pr_step (\<lambda>_. EOF) (1 :: nat)" "started 1 True"]]
  by (auto simp: started_def)

end
