(* ===== verification/EchoService.thy ===== *)
theory EchoService
  imports GoStrings Utils HttpHeader
begin

text \<open>
  \<^verbatim>\<open>_integration-tests/echo_service.go\<close>: the gRPC service that is called through the adapters.

  The gRPC library is outside the repository. What a handler asks of it is a log of calls, whose results
  come from a script (after its end, every call succeeds), so that every pattern of failures is covered.
  The messages of a client's stream are a script too: \<^verbatim>\<open>Recv\<close> returns its elements one by one and
  \<^verbatim>\<open>io.EOF\<close> after the last. The incoming metadata is the function \<^verbatim>\<open>md.Get\<close>, and \<open>status\<close>
  stands for \<^verbatim>\<open>status.Error\<close> with the code for an invalid argument.
\<close>

section \<open>Calls of the gRPC library\<close>

type_synonym metadata = "(string \<times> string list) list"

datatype grpc_call =
    SetHeader metadata
  | SetTrailer metadata
  | SendHeader metadata
  | Send string
  | SendAndClose string

record rpc =
  rpc_log :: "grpc_call list"
  rpc_results :: "err list"

definition perform :: "grpc_call \<Rightarrow> rpc \<Rightarrow> err \<times> rpc" where
  "perform call c =
     (case rpc_results c of [] \<Rightarrow> None | r # _ \<Rightarrow> r,
      c\<lparr>rpc_log := rpc_log c @ [call], rpc_results := tl (rpc_results c)\<rparr>)"

section \<open>The service\<close>

definition echoHeadersAndTrailers :: "(string \<Rightarrow> go_error) \<Rightarrow> (string \<Rightarrow> string list) \<Rightarrow> rpc \<Rightarrow> err \<times> rpc" where
  "echoHeadersAndTrailers status md c =
     (case (if 0 < length (md ''header-echo'')
            then perform (SetHeader [(''header-echo-response'', md ''header-echo'')]) c else (None, c)) of
        (Some e, c) \<Rightarrow> (Some e, c)
      | (None, c) \<Rightarrow>
          (case (if 0 < length (md ''trailer-echo'')
                 then perform (SetTrailer [(''trailer-echo-response'', md ''trailer-echo'')]) c else (None, c)) of
             (Some e, c) \<Rightarrow> (Some e, c)
           | (None, c) \<Rightarrow>
               (case md ''error'' of
                  [] \<Rightarrow> (None, c)
                | errMsg # _ \<Rightarrow> (Some (status errMsg), c))))"

definition UnaryEcho ::
  "(string \<Rightarrow> go_error) \<Rightarrow> (string \<Rightarrow> string list) \<Rightarrow> string \<Rightarrow> rpc \<Rightarrow> (go_error + string) \<times> rpc" where
  "UnaryEcho status md msg c =
     (case echoHeadersAndTrailers status md c of
        (Some e, c) \<Rightarrow> (Inl e, c)
      | (None, c) \<Rightarrow>
          if HasPrefix msg ''ERROR:'' then (Inl (status (drop 6 msg)), c) else (Inr msg, c))"

fun echo_lines :: "(string \<Rightarrow> go_error) \<Rightarrow> string list \<Rightarrow> rpc \<Rightarrow> err \<times> rpc" where
  "echo_lines status [] c = (None, c)"
| "echo_lines status (line # lines) c =
     (if HasPrefix line ''ERROR:'' then (Some (status (drop 6 line)), c)
      else if line = ''HEADERS'' then
        (case perform (SendHeader []) c of
           (Some e, c) \<Rightarrow> (Some e, c)
         | (None, c) \<Rightarrow> echo_lines status lines c)
      else
        (case perform (Send line) c of
           (Some e, c) \<Rightarrow> (Some e, c)
         | (None, c) \<Rightarrow> echo_lines status lines c))"

definition ServerStreamingEcho ::
  "(string \<Rightarrow> go_error) \<Rightarrow> (string \<Rightarrow> string list) \<Rightarrow> string \<Rightarrow> rpc \<Rightarrow> err \<times> rpc" where
  "ServerStreamingEcho status md msg c =
     (case echoHeadersAndTrailers status md c of
        (Some e, c) \<Rightarrow> (Some e, c)
      | (None, c) \<Rightarrow> echo_lines status (Split LF msg) c)"

fun collect :: "(string \<Rightarrow> go_error) \<Rightarrow> string list \<Rightarrow> (go_error + string) list \<Rightarrow> rpc \<Rightarrow> (go_error + string list) \<times> rpc" where
  "collect status msgs [] c = (Inr msgs, c)"
| "collect status msgs (Inl e # recv) c = (if e = EOF then (Inr msgs, c) else (Inl e, c))"
| "collect status msgs (Inr msg # recv) c =
     (if HasPrefix msg ''ERROR:'' then (Inl (status (drop 6 msg)), c)
      else if msg = ''HEADERS'' then
        (case perform (SendHeader []) c of
           (Some e, c) \<Rightarrow> (Inl e, c)
         | (None, c) \<Rightarrow> collect status msgs recv c)
      else collect status (msgs @ [msg]) recv c)"

definition ClientStreamingEcho ::
  "(string \<Rightarrow> go_error) \<Rightarrow> (string \<Rightarrow> string list) \<Rightarrow> (go_error + string) list \<Rightarrow> rpc \<Rightarrow> err \<times> rpc" where
  "ClientStreamingEcho status md recv c =
     (case echoHeadersAndTrailers status md c of
        (Some e, c) \<Rightarrow> (Some e, c)
      | (None, c) \<Rightarrow>
          (case collect status [] recv c of
             (Inl e, c) \<Rightarrow> (Some e, c)
           | (Inr msgs, c) \<Rightarrow> perform (SendAndClose (Join msgs [LF])) c))"

fun echo_messages :: "(string \<Rightarrow> go_error) \<Rightarrow> (go_error + string) list \<Rightarrow> rpc \<Rightarrow> err \<times> rpc" where
  "echo_messages status [] c = (None, c)"
| "echo_messages status (Inl e # recv) c = (if e = EOF then (None, c) else (Some e, c))"
| "echo_messages status (Inr msg # recv) c =
     (if HasPrefix msg ''ERROR:'' then (Some (status (drop 6 msg)), c)
      else if msg = ''HEADERS'' then
        (case perform (SendHeader []) c of
           (Some e, c) \<Rightarrow> (Some e, c)
         | (None, c) \<Rightarrow> echo_messages status recv c)
      else
        (case perform (Send msg) c of
           (Some e, c) \<Rightarrow> (Some e, c)
         | (None, c) \<Rightarrow> echo_messages status recv c))"

definition BidirectionalStreamingEcho ::
  "(string \<Rightarrow> go_error) \<Rightarrow> (string \<Rightarrow> string list) \<Rightarrow> (go_error + string) list \<Rightarrow> rpc \<Rightarrow> err \<times> rpc" where
  "BidirectionalStreamingEcho status md recv c =
     (case echoHeadersAndTrailers status md c of
        (Some e, c) \<Rightarrow> (Some e, c)
      | (None, c) \<Rightarrow> echo_messages status recv c)"

section \<open>What the service echoes\<close>

definition is_error :: "string \<Rightarrow> bool" where "is_error m \<longleftrightarrow> HasPrefix m ''ERROR:''"

text \<open>The reply to one message, and to a stream of messages up to the first that asks for an error.\<close>

definition reply :: "string \<Rightarrow> grpc_call" where
  "reply m = (if m = ''HEADERS'' then SendHeader [] else Send m)"

definition answered :: "string list \<Rightarrow> string list" where
  "answered ms = takeWhile (\<lambda>m. \<not> is_error m) ms"

definition ending :: "(string \<Rightarrow> go_error) \<Rightarrow> string list \<Rightarrow> err" where
  "ending status ms =
     (case dropWhile (\<lambda>m. \<not> is_error m) ms of [] \<Rightarrow> None | m # _ \<Rightarrow> Some (status (drop 6 m)))"

text \<open>The gRPC library does what it is asked for.\<close>

definition no_failure :: "rpc \<Rightarrow> bool" where
  "no_failure c \<longleftrightarrow> list_all (\<lambda>r. r = None) (rpc_results c)"

lemma perform_no_failure:
  assumes "no_failure c"
  obtains c' where "perform call c = (None, c')" and "no_failure c'" and "rpc_log c' = rpc_log c @ [call]"
  using assms that [of "snd (perform call c)"]
  by (cases "rpc_results c") (auto simp: perform_def no_failure_def)

lemma echo_messages_lines: "echo_messages status (map Inr ms) c = echo_lines status ms c"
  by (induction ms arbitrary: c) (auto split: option.split prod.split)

lemma echo_lines_no_failure:
  assumes "no_failure c"
  obtains c' where "echo_lines status ms c = (ending status ms, c')" and "no_failure c'"
    and "rpc_log c' = rpc_log c @ map reply (answered ms)"
  using assms
proof (induction ms arbitrary: c thesis)
  case (Cons m ms)
  obtain c1 where 1: "perform (reply m) c = (None, c1)" "no_failure c1" "rpc_log c1 = rpc_log c @ [reply m]"
    by (rule perform_no_failure [OF Cons.prems(2)])
  obtain c2 where "echo_lines status ms c1 = (ending status ms, c2)" "no_failure c2"
    "rpc_log c2 = rpc_log c1 @ map reply (answered ms)"
    using Cons.IH [OF _ 1(2)] by blast
  then show ?case
    using 1 Cons.prems
    by (cases "is_error m") (auto simp: is_error_def answered_def ending_def reply_def split: if_splits)
qed (simp add: answered_def ending_def)

lemma collect_plain:
  assumes "\<forall>m \<in> set ms. \<not> is_error m \<and> m \<noteq> ''HEADERS''"
  shows "collect status acc (map Inr ms) c = (Inr (acc @ ms), c)"
  using assms by (induction ms arbitrary: acc) (simp_all add: is_error_def)

lemma echoHeaders_no_failure:
  assumes "no_failure c" and "md ''error'' = []"
  obtains c' where "echoHeadersAndTrailers status md c = (None, c')" and "no_failure c'"
    and "rpc_log c' = rpc_log c @
      (if md ''header-echo'' = [] then [] else [SetHeader [(''header-echo-response'', md ''header-echo'')]]) @
      (if md ''trailer-echo'' = [] then [] else [SetTrailer [(''trailer-echo-response'', md ''trailer-echo'')]])"
proof -
  obtain ch where h: "(if 0 < length (md ''header-echo'')
      then perform (SetHeader [(''header-echo-response'', md ''header-echo'')]) c else (None, c)) = (None, ch)"
    "no_failure ch" "rpc_log ch = rpc_log c @
      (if md ''header-echo'' = [] then [] else [SetHeader [(''header-echo-response'', md ''header-echo'')]])"
    by (cases "md ''header-echo'' = []")
      (use assms(1) in simp, rule perform_no_failure [OF assms(1)], auto)
  obtain ct where t: "(if 0 < length (md ''trailer-echo'')
      then perform (SetTrailer [(''trailer-echo-response'', md ''trailer-echo'')]) ch else (None, ch)) = (None, ct)"
    "no_failure ct" "rpc_log ct = rpc_log ch @
      (if md ''trailer-echo'' = [] then [] else [SetTrailer [(''trailer-echo-response'', md ''trailer-echo'')]])"
    by (cases "md ''trailer-echo'' = []")
      (use h(2) in simp, rule perform_no_failure [OF h(2)], auto)
  have "echoHeadersAndTrailers status md c = (None, ct)"
    unfolding echoHeadersAndTrailers_def h(1) using t(1) assms(2) by simp
  with h(3) t(2,3) show ?thesis by (intro that [of ct]) simp_all
qed

text \<open>The messages that a log of calls sends, and what is left of a message without the commands in it.\<close>

fun sent_messages :: "grpc_call list \<Rightarrow> string list" where
  "sent_messages [] = []"
| "sent_messages (Send m # calls) = m # sent_messages calls"
| "sent_messages (_ # calls) = sent_messages calls"

definition echoed :: "string \<Rightarrow> string" where
  "echoed msg = Join (filter (\<lambda>line. line \<noteq> ''HEADERS'') (answered (Split LF msg))) [LF]"

lemma sent_messages_replies: "sent_messages (map reply ms) = filter (\<lambda>m. m \<noteq> ''HEADERS'') ms"
  by (induction ms) (simp_all add: reply_def)

lemma echoed_plain:
  assumes "\<forall>m \<in> set (Split LF msg). \<not> is_error m \<and> m \<noteq> ''HEADERS''"
  shows "echoed msg = msg"
proof -
  have "answered (Split LF msg) = Split LF msg" using assms by (simp add: answered_def takeWhile_eq_all_conv)
  moreover have "filter (\<lambda>m. m \<noteq> ''HEADERS'') (Split LF msg) = Split LF msg" using assms by (simp add: filter_id_conv)
  ultimately show ?thesis by (simp only: echoed_def Join_Split)
qed

section \<open>Properties\<close>

text \<open>
  The two streaming handlers agree: a client that streams the lines of a message gets the same replies,
  in the same order, and the same status, as one that sends the message as a whole; whatever the lines
  are and whichever calls of the gRPC library fail.
\<close>

theorem bidirectional_echo_equivalence:
  "BidirectionalStreamingEcho status md (map Inr (Split LF msg)) c = ServerStreamingEcho status md msg c"
  by (auto simp: BidirectionalStreamingEcho_def ServerStreamingEcho_def echo_messages_lines split: prod.split option.split)

text \<open>
  The service echoes: if the metadata asks for no error and the gRPC library does its work, the requested headers
  and trailers are set first, then each line of the message is answered in turn (\<^verbatim>\<open>HEADERS\<close> by
  sending the headers) up to the first that starts with \<^verbatim>\<open>ERROR:\<close>, whose rest becomes the status.
\<close>

theorem ServerStreamingEcho_replies:
  assumes "no_failure c" and "md ''error'' = []"
  shows "\<exists>c'. ServerStreamingEcho status md msg c = (ending status (Split LF msg), c') \<and>
    rpc_log c' = rpc_log c @
      (if md ''header-echo'' = [] then [] else [SetHeader [(''header-echo-response'', md ''header-echo'')]]) @
      (if md ''trailer-echo'' = [] then [] else [SetTrailer [(''trailer-echo-response'', md ''trailer-echo'')]]) @
      map reply (answered (Split LF msg))"
proof -
  obtain ct where t: "echoHeadersAndTrailers status md c = (None, ct)" "no_failure ct"
    "rpc_log ct = rpc_log c @
      (if md ''header-echo'' = [] then [] else [SetHeader [(''header-echo-response'', md ''header-echo'')]]) @
      (if md ''trailer-echo'' = [] then [] else [SetTrailer [(''trailer-echo-response'', md ''trailer-echo'')]])"
    by (rule echoHeaders_no_failure [of c md, OF assms])
  obtain c' where "echo_lines status (Split LF msg) ct = (ending status (Split LF msg), c')"
    "rpc_log c' = rpc_log ct @ map reply (answered (Split LF msg))"
    by (rule echo_lines_no_failure [OF t(2)])
  with t show ?thesis by (simp add: ServerStreamingEcho_def)
qed

text \<open>
  Claim C34. There and back. If no call of the gRPC library fails and the metadata asks for no error, the
  status of a stream of replies is that of the message's first line that asks for an error, if there is
  one; and a client that streams the replies it got back to the service succeeds and gets the lines up to
  that one, without the lines that are the command \<^verbatim>\<open>HEADERS\<close>. If no line is a command, this is the
  message itself.
\<close>

theorem echo_roundtrip:
  assumes "no_failure c" and "no_failure c2" and "md ''error'' = []"
    and "ServerStreamingEcho status md msg c = (e, c')" and "rpc_log c' = rpc_log c @ calls"
  shows "e = ending status (Split LF msg) \<and>
    (\<exists>c3. ClientStreamingEcho status md (map Inr (sent_messages calls)) c2 = (None, c3) \<and>
       last (rpc_log c3) = SendAndClose (echoed msg)) \<and>
    ((\<forall>line \<in> set (Split LF msg). \<not> is_error line \<and> line \<noteq> ''HEADERS'') \<longrightarrow> echoed msg = msg)"
proof -
  let ?ms = "filter (\<lambda>m. m \<noteq> ''HEADERS'') (answered (Split LF msg))"
  obtain ct where t: "echoHeadersAndTrailers status md c = (None, ct)" "no_failure ct"
    "rpc_log ct = rpc_log c @
      (if md ''header-echo'' = [] then [] else [SetHeader [(''header-echo-response'', md ''header-echo'')]]) @
      (if md ''trailer-echo'' = [] then [] else [SetTrailer [(''trailer-echo-response'', md ''trailer-echo'')]])"
    by (rule echoHeaders_no_failure [of c md, OF assms(1,3)])
  obtain d where d: "echo_lines status (Split LF msg) ct = (ending status (Split LF msg), d)"
    "rpc_log d = rpc_log ct @ map reply (answered (Split LF msg))"
    by (rule echo_lines_no_failure [OF t(2)])
  have e: "e = ending status (Split LF msg)" "c' = d" using assms(4) t(1) d(1) by (simp_all add: ServerStreamingEcho_def)
  then have "sent_messages calls = ?ms"
    using assms(5) d(2) t(3) sent_messages_replies [of "answered (Split LF msg)"]
    by (cases "md ''header-echo'' = []"; cases "md ''trailer-echo'' = []") auto
  moreover have "\<forall>m \<in> set ?ms. \<not> is_error m \<and> m \<noteq> ''HEADERS''"
    by (auto simp: answered_def dest: set_takeWhileD)
  ultimately have col: "collect status [] (map Inr (sent_messages calls)) c = (Inr ?ms, c)" for c
    using collect_plain [of ?ms status "[]" c] by (simp only: append_Nil)
  obtain ct2 where t2: "echoHeadersAndTrailers status md c2 = (None, ct2)" "no_failure ct2"
    by (rule echoHeaders_no_failure [of c2 md, OF assms(2,3)])
  obtain c3 where c3: "perform (SendAndClose (echoed msg)) ct2 = (None, c3)"
    "rpc_log c3 = rpc_log ct2 @ [SendAndClose (echoed msg)]"
    by (rule perform_no_failure [OF t2(2)])
  have "ClientStreamingEcho status md (map Inr (sent_messages calls)) c2 = (None, c3)"
    unfolding ClientStreamingEcho_def t2(1) prod.case option.case col sum.case using c3(1) by (simp only: echoed_def)
  moreover have "last (rpc_log c3) = SendAndClose (echoed msg)" using c3(2) by simp
  ultimately show ?thesis using e(1) echoed_plain [of msg] by blast
qed

section \<open>Instances\<close>

definition idle_rpc :: rpc where "idle_rpc = \<lparr>rpc_log = [], rpc_results = []\<rparr>"

theorem ServerStreamingEcho_replies_witness:
  "\<exists>c'. ServerStreamingEcho ErrNew (\<lambda>k. if k = ''header-echo'' then [''x''] else []) (''a'' @ [LF] @ ''ERROR:b'') idle_rpc =
     (Some (ErrNew ''b''), c') \<and> rpc_log c' = [SetHeader [(''header-echo-response'', [''x''])], Send ''a'']"
proof -
  have s: "Split LF (''a'' @ [LF] @ ''ERROR:b'') = [''a'', ''ERROR:b'']" by code_simp
  have "ending ErrNew [''a'', ''ERROR:b''] = Some (ErrNew ''b'')" "answered [''a'', ''ERROR:b''] = [''a'']" by code_simp+
  with ServerStreamingEcho_replies [of idle_rpc "\<lambda>k. if k = ''header-echo'' then [''x''] else []" ErrNew
      "''a'' @ [LF] @ ''ERROR:b''"] show ?thesis
    unfolding s by (simp add: idle_rpc_def no_failure_def reply_def)
qed

theorem echo_roundtrip_witness:
  "\<exists>c3. ClientStreamingEcho ErrNew (\<lambda>_. []) [Inr ''a'', Inr ''b''] idle_rpc = (None, c3) \<and>
     last (rpc_log c3) = SendAndClose (''a'' @ [LF] @ ''b'')"
proof -
  have s: "echoed (''a'' @ [LF] @ ''HEADERS'' @ [LF] @ ''b'') = ''a'' @ [LF] @ ''b''" by code_simp
  have r: "ServerStreamingEcho ErrNew (\<lambda>_. []) (''a'' @ [LF] @ ''HEADERS'' @ [LF] @ ''b'') idle_rpc =
      (None, \<lparr>rpc_log = [Send ''a'', SendHeader [], Send ''b''], rpc_results = []\<rparr>)" by code_simp
  from echo_roundtrip [OF _ _ _ r, of idle_rpc "[Send ''a'', SendHeader [], Send ''b'']"] s show ?thesis
    by (auto simp: idle_rpc_def no_failure_def)
qed

end
