(* ===== verification/WsCall.thy ===== *)
theory WsCall
  imports WsProxy Transition
begin

text \<open>
  The two goroutines of a call over a WebSocket (the end of \<^verbatim>\<open>ServeHTTP\<close> in \<^verbatim>\<open>client/ws_proxy.go\<close>):
  one sends the request while the other reads the response. They share the recorded error of the call, the
  request's body, which the second closes when it is done, and the connection, which both close. Every
  access to a shared variable is a step of its own; in particular \<^verbatim>\<open>setError\<close> first swaps the flag
  and assigns the error afterwards. The loops of \<^verbatim>\<open>writeToServer\<close> and \<^verbatim>\<open>readFromServer\<close> touch
  nothing that the other goroutine uses until they end, so each whole loop is one step (both end, being
  total functions). What one end of the connection notices of a close by the other is part of the events
  that are read from it, which are arbitrary.
\<close>

section \<open>State\<close>

datatype sender_pc =
    Sending
  | SwapSender go_error
  | AssignSender go_error
  | CloseOnError go_error
  | Sent err

datatype main_pc =
    Reading
  | SwapMain go_error
  | AssignMain go_error
  | CloseBody err
  | AwaitSender err
  | Report err
  | CloseConn err
  | Served err

record ws_call =
  ck_conn :: websocketConn
  ck_out :: ws_out
  ck_sender :: sender_pc
  ck_main :: main_pc
  ck_bodyClosed :: bool
  ck_closes :: "(close_status \<times> string) list"

definition dialled :: "ws_out \<Rightarrow> httpWriter \<Rightarrow> ws_call" where
  "dialled out w =
     \<lparr>ck_conn = \<lparr>wc_w = w, wc_errFlag = 0, wc_err = None\<rparr>, ck_out = out, ck_sender = Sending, ck_main = Reading,
      ck_bodyClosed = False, ck_closes = []\<rparr>"

definition StatusInternalError :: close_status where
  "StatusInternalError = OtherStatus 1011"

text \<open>
  What is read of a request body that is closed meanwhile: some of its pieces, the last of them
  perhaps in part, and then the error that the HTTP server reports after \<^verbatim>\<open>Close\<close>.
\<close>

definition ErrBodyReadAfterClose :: go_error where
  "ErrBodyReadAfterClose = ErrExt ''http: invalid Read on closed Body''"

definition cut_body :: "nat \<Rightarrow> nat \<Rightarrow> reader \<Rightarrow> reader" where
  "cut_body k j body =
     take k body @ [(case drop k body of [] \<Rightarrow> [] | (d, _) # _ \<Rightarrow> take j d, Some ErrBodyReadAfterClose)]"

definition sender_after :: "err \<Rightarrow> sender_pc" where
  "sender_after r = (case r of None \<Rightarrow> Sent None | Some e \<Rightarrow> SwapSender e)"

definition main_after :: "err \<Rightarrow> main_pc" where
  "main_after r = (case r of None \<Rightarrow> CloseBody None | Some e \<Rightarrow> SwapMain e)"

section \<open>Steps\<close>

text \<open>
  \<open>stays_open\<close>: the client does not end its request, so that the body can be read to its end only
  by closing it.
\<close>

datatype goroutine = Sender | Main

inductive call_step ::
  "nat \<Rightarrow> writer_ops \<Rightarrow> bool \<Rightarrow> reader \<Rightarrow> ws_event list \<Rightarrow> ws_call \<Rightarrow> goroutine \<Rightarrow> ws_call \<Rightarrow> bool"
  for unavailable ops stays_open body evs where
  send_all: "ck_sender s = Sending \<Longrightarrow> \<not> stays_open \<Longrightarrow> writeToServer body (ck_out s) = (r, out') \<Longrightarrow>
    call_step unavailable ops stays_open body evs s Sender (s\<lparr>ck_out := out', ck_sender := sender_after r\<rparr>)"
| send_cut: "ck_sender s = Sending \<Longrightarrow> ck_bodyClosed s \<Longrightarrow> writeToServer (cut_body k j body) (ck_out s) = (r, out') \<Longrightarrow>
    call_step unavailable ops stays_open body evs s Sender (s\<lparr>ck_out := out', ck_sender := sender_after r\<rparr>)"
| sender_swap: "ck_sender s = SwapSender e \<Longrightarrow> old = wc_errFlag (ck_conn s) \<Longrightarrow>
    call_step unavailable ops stays_open body evs s Sender
      (s\<lparr>ck_conn := (ck_conn s)\<lparr>wc_errFlag := 1\<rparr>, ck_sender := (if old = 0 then AssignSender e else CloseOnError e)\<rparr>)"
| sender_assign: "ck_sender s = AssignSender e \<Longrightarrow>
    call_step unavailable ops stays_open body evs s Sender
      (s\<lparr>ck_conn := (ck_conn s)\<lparr>wc_err := Some e\<rparr>, ck_sender := CloseOnError e\<rparr>)"
| sender_close: "ck_sender s = CloseOnError e \<Longrightarrow>
    call_step unavailable ops stays_open body evs s Sender
      (s\<lparr>ck_closes := ck_closes s @ [(StatusInternalError, Error e)], ck_sender := Sent (Some e)\<rparr>)"
| main_read: "ck_main s = Reading \<Longrightarrow> readFromServer ops evs (wc_w (ck_conn s)) = (r, evs', w') \<Longrightarrow>
    call_step unavailable ops stays_open body evs s Main
      (s\<lparr>ck_conn := (ck_conn s)\<lparr>wc_w := w'\<rparr>, ck_main := main_after r\<rparr>)"
| main_swap: "ck_main s = SwapMain e \<Longrightarrow> old = wc_errFlag (ck_conn s) \<Longrightarrow>
    call_step unavailable ops stays_open body evs s Main
      (s\<lparr>ck_conn := (ck_conn s)\<lparr>wc_errFlag := 1\<rparr>, ck_main := (if old = 0 then AssignMain e else CloseBody (Some e))\<rparr>)"
| main_assign: "ck_main s = AssignMain e \<Longrightarrow>
    call_step unavailable ops stays_open body evs s Main
      (s\<lparr>ck_conn := (ck_conn s)\<lparr>wc_err := Some e\<rparr>, ck_main := CloseBody (Some e)\<rparr>)"
| main_closeBody: "ck_main s = CloseBody r \<Longrightarrow>
    call_step unavailable ops stays_open body evs s Main (s\<lparr>ck_bodyClosed := True, ck_main := AwaitSender r\<rparr>)"
| main_wait: "ck_main s = AwaitSender r \<Longrightarrow> ck_sender s = Sent r' \<Longrightarrow>
    call_step unavailable ops stays_open body evs s Main (s\<lparr>ck_main := Report r\<rparr>)"
| main_report: "ck_main s = Report r \<Longrightarrow>
    call_step unavailable ops stays_open body evs s Main
      (s\<lparr>ck_conn := writeErrorIfNecessary unavailable ops (ck_conn s), ck_main := CloseConn r\<rparr>)"
| main_close: "ck_main s = CloseConn r \<Longrightarrow>
    call_step unavailable ops stays_open body evs s Main
      (s\<lparr>ck_closes := ck_closes s @ [(StatusNormalClosure, [])], ck_main := Served r\<rparr>)"

section \<open>Invariant\<close>

text \<open>The result of each goroutine's work, and the error that it has reported, if it has one.\<close>

fun sender_result :: "sender_pc \<Rightarrow> err" where
  "sender_result Sending = None"
| "sender_result (SwapSender e) = Some e"
| "sender_result (AssignSender e) = Some e"
| "sender_result (CloseOnError e) = Some e"
| "sender_result (Sent r) = r"

fun sender_reported :: "sender_pc \<Rightarrow> err" where
  "sender_reported (CloseOnError e) = Some e"
| "sender_reported (Sent r) = r"
| "sender_reported _ = None"

fun sender_assigns :: "sender_pc \<Rightarrow> bool" where
  "sender_assigns (AssignSender _) = True"
| "sender_assigns _ = False"

fun main_result :: "main_pc \<Rightarrow> err" where
  "main_result Reading = None"
| "main_result (SwapMain e) = Some e"
| "main_result (AssignMain e) = Some e"
| "main_result (CloseBody r) = r"
| "main_result (AwaitSender r) = r"
| "main_result (Report r) = r"
| "main_result (CloseConn r) = r"
| "main_result (Served r) = r"

fun main_reported :: "main_pc \<Rightarrow> err" where
  "main_reported (SwapMain _) = None"
| "main_reported (AssignMain _) = None"
| "main_reported pc = main_result pc"

fun main_assigns :: "main_pc \<Rightarrow> bool" where
  "main_assigns (AssignMain _) = True"
| "main_assigns _ = False"

fun waited :: "main_pc \<Rightarrow> bool" where
  "waited (Report _) = True"
| "waited (CloseConn _) = True"
| "waited (Served _) = True"
| "waited _ = False"

fun closed_body :: "main_pc \<Rightarrow> bool" where
  "closed_body (AwaitSender _) = True"
| "closed_body pc = waited pc"

fun reported_call :: "main_pc \<Rightarrow> bool" where
  "reported_call (CloseConn _) = True"
| "reported_call (Served _) = True"
| "reported_call _ = False"

text \<open>The error of the call: the flag is set by the first that reports, and this one assigns.\<close>

definition error_ok :: "websocketConn \<Rightarrow> sender_pc \<Rightarrow> main_pc \<Rightarrow> bool" where
  "error_ok c sp mp \<longleftrightarrow>
     (if wc_errFlag c = 0
      then wc_err c = None \<and> sender_reported sp = None \<and> main_reported mp = None \<and> \<not> sender_assigns sp \<and> \<not> main_assigns mp
      else if sender_assigns sp \<or> main_assigns mp
      then wc_err c = None \<and> \<not> (sender_assigns sp \<and> main_assigns mp)
      else wc_err c \<noteq> None \<and> wc_err c \<in> {sender_reported sp, main_reported mp})"

definition request_read :: "bool \<Rightarrow> bool \<Rightarrow> reader \<Rightarrow> reader \<Rightarrow> bool" where
  "request_read stays_open closed body b \<longleftrightarrow> \<not> stays_open \<and> b = body \<or> closed \<and> (\<exists>k j. b = cut_body k j body)"

definition sender_ok :: "bool \<Rightarrow> reader \<Rightarrow> ws_out \<Rightarrow> ws_call \<Rightarrow> bool" where
  "sender_ok stays_open body out s \<longleftrightarrow>
     (if ck_sender s = Sending then ck_out s = out
      else \<exists>b. request_read stays_open (ck_bodyClosed s) body b \<and> writeToServer b out = (sender_result (ck_sender s), ck_out s))"

definition main_ok :: "nat \<Rightarrow> writer_ops \<Rightarrow> ws_event list \<Rightarrow> httpWriter \<Rightarrow> websocketConn \<Rightarrow> main_pc \<Rightarrow> bool" where
  "main_ok unavailable ops evs w c mp \<longleftrightarrow>
     (case readFromServer ops evs w of (r, _, w1) \<Rightarrow>
        if mp = Reading then wc_w c = w
        else main_result mp = r \<and>
          wc_w c = (if reported_call mp then wc_w (writeErrorIfNecessary unavailable ops (c\<lparr>wc_w := w1\<rparr>)) else w1))"

definition closes_of :: "sender_pc \<Rightarrow> main_pc \<Rightarrow> (close_status \<times> string) list" where
  "closes_of sp mp =
     (case sp of Sent (Some e) \<Rightarrow> [(StatusInternalError, Error e)] | _ \<Rightarrow> []) @
     (case mp of Served _ \<Rightarrow> [(StatusNormalClosure, [])] | _ \<Rightarrow> [])"

definition order_ok :: "ws_call \<Rightarrow> bool" where
  "order_ok s \<longleftrightarrow>
     (waited (ck_main s) \<longrightarrow> (\<exists>r. ck_sender s = Sent r)) \<and> (closed_body (ck_main s) \<longrightarrow> ck_bodyClosed s) \<and>
     ck_closes s = closes_of (ck_sender s) (ck_main s)"

definition call_inv :: "nat \<Rightarrow> writer_ops \<Rightarrow> bool \<Rightarrow> reader \<Rightarrow> ws_out \<Rightarrow> ws_event list \<Rightarrow> httpWriter \<Rightarrow> ws_call \<Rightarrow> bool" where
  "call_inv unavailable ops stays_open body out evs w s \<longleftrightarrow>
     error_ok (ck_conn s) (ck_sender s) (ck_main s) \<and> sender_ok stays_open body out s \<and>
     main_ok unavailable ops evs w (ck_conn s) (ck_main s) \<and> order_ok s"

lemmas call_inv_defs = call_inv_def error_ok_def sender_ok_def main_ok_def order_ok_def

lemma call_inv_dialled: "call_inv unavailable ops stays_open body out evs w (dialled out w)"
  by (simp add: call_inv_defs dialled_def closes_of_def)

lemma writeErrorIfNecessary_simps [simp]:
  "wc_errFlag (writeErrorIfNecessary unavailable ops c) = wc_errFlag c"
  "wc_err (writeErrorIfNecessary unavailable ops c) = wc_err c"
  by (simp_all add: writeErrorIfNecessary_def Let_def split: option.split)

lemma writeErrorIfNecessary_cong:
  "wc_w c = wc_w c' \<Longrightarrow> wc_err c = wc_err c' \<Longrightarrow>
     wc_w (writeErrorIfNecessary unavailable ops c) = wc_w (writeErrorIfNecessary unavailable ops c')"
  by (simp add: writeErrorIfNecessary_def Let_def split: option.split)

lemma main_ok_conn:
  assumes "main_ok unavailable ops evs w c mp" and "wc_w c' = wc_w c" and "wc_err c' = wc_err c \<or> \<not> reported_call mp"
  shows "main_ok unavailable ops evs w c' mp"
proof -
  have "wc_w (writeErrorIfNecessary unavailable ops (c'\<lparr>wc_w := x\<rparr>)) = wc_w (writeErrorIfNecessary unavailable ops (c\<lparr>wc_w := x\<rparr>))"
    if "wc_err c' = wc_err c" for x using that by (intro writeErrorIfNecessary_cong) simp_all
  with assms show ?thesis by (auto simp: main_ok_def split: prod.splits)
qed

lemma request_read_mono: "request_read stays_open closed body b \<Longrightarrow> closed \<longrightarrow> closed' \<Longrightarrow> request_read stays_open closed' body b"
  by (auto simp: request_read_def)

lemma reported_waited: "reported_call mp \<Longrightarrow> waited mp"
  by (cases mp) simp_all

lemma Sender_step:
  assumes "call_inv unavailable ops stays_open body out evs w s" and "call_step unavailable ops stays_open body evs s Sender s'"
  shows "call_inv unavailable ops stays_open body out evs w s'"
proof -
  have nr: "\<not> waited (ck_main s)" "\<not> reported_call (ck_main s)" if "\<forall>r. ck_sender s \<noteq> Sent r"
    using assms(1) that reported_waited by (auto simp: call_inv_def order_ok_def)
  have served: "ck_main s \<noteq> Served r" if "\<not> waited (ck_main s)" for r using that by auto
  show ?thesis
    using assms(2)
  proof cases
    case (send_all r out')
    then show ?thesis
      using assms(1) nr
      by (auto simp: call_inv_defs sender_after_def closes_of_def request_read_def split: option.split main_pc.split if_splits)
  next
    case (send_cut k j r out')
    then show ?thesis
      using assms(1) nr
      by (auto simp: call_inv_defs sender_after_def closes_of_def request_read_def split: option.split main_pc.split if_splits)
  next
    case (sender_swap e old)
    then show ?thesis
      using assms(1) nr main_ok_conn [of unavailable ops evs w "ck_conn s" "ck_main s" "ck_conn s'"]
      by (auto simp: call_inv_def error_ok_def sender_ok_def order_ok_def closes_of_def split: main_pc.split if_splits)
  next
    case (sender_assign e)
    then show ?thesis
      using assms(1) nr main_ok_conn [of unavailable ops evs w "ck_conn s" "ck_main s" "ck_conn s'"]
      by (auto simp: call_inv_def error_ok_def sender_ok_def order_ok_def closes_of_def split: main_pc.split if_splits)
  next
    case (sender_close e)
    then show ?thesis
      using assms(1) nr served
      by (auto simp: call_inv_def error_ok_def sender_ok_def order_ok_def closes_of_def split: main_pc.split if_splits)
  qed
qed

lemma Main_step:
  assumes "call_inv unavailable ops stays_open body out evs w s" and "call_step unavailable ops stays_open body evs s Main s'"
  shows "call_inv unavailable ops stays_open body out evs w s'"
  using assms(2)
proof cases
  case (main_read r evs' w')
  then show ?thesis
    using assms(1)
    by (auto simp: call_inv_defs main_after_def closes_of_def split: option.split sender_pc.split if_splits)
next
  case (main_swap e old)
  then show ?thesis
    using assms(1) by (auto simp: call_inv_defs closes_of_def split: sender_pc.split if_splits prod.splits)
next
  case (main_assign e)
  then show ?thesis
    using assms(1) by (auto simp: call_inv_defs closes_of_def split: sender_pc.split if_splits prod.splits)
next
  case (main_closeBody r)
  then show ?thesis
    using assms(1) request_read_mono [of stays_open "ck_bodyClosed s" body _ True]
    by (auto simp: call_inv_defs closes_of_def split: sender_pc.split if_splits prod.splits)
next
  case (main_wait r r')
  then show ?thesis
    using assms(1) by (auto simp: call_inv_defs closes_of_def split: if_splits prod.splits)
next
  case (main_report r)
  then show ?thesis
    using assms(1) writeErrorIfNecessary_cong [of "(writeErrorIfNecessary unavailable ops (ck_conn s))\<lparr>wc_w := wc_w (ck_conn s)\<rparr>" "ck_conn s" unavailable ops]
    by (auto simp: call_inv_defs closes_of_def split: if_splits prod.splits)
next
  case (main_close r)
  then show ?thesis
    using assms(1) by (auto simp: call_inv_defs closes_of_def split: if_splits prod.splits)
qed

text \<open>How many steps each goroutine has at most before it.\<close>

fun sender_steps :: "sender_pc \<Rightarrow> nat" where
  "sender_steps Sending = 4"
| "sender_steps (SwapSender _) = 3"
| "sender_steps (AssignSender _) = 2"
| "sender_steps (CloseOnError _) = 1"
| "sender_steps (Sent _) = 0"

fun main_steps :: "main_pc \<Rightarrow> nat" where
  "main_steps Reading = 7"
| "main_steps (SwapMain _) = 6"
| "main_steps (AssignMain _) = 5"
| "main_steps (CloseBody _) = 4"
| "main_steps (AwaitSender _) = 3"
| "main_steps (Report _) = 2"
| "main_steps (CloseConn _) = 1"
| "main_steps (Served _) = 0"

interpretation call: terminating "\<lambda>s. s = dialled out w" "call_step unavailable ops stays_open body evs"
  "call_inv unavailable ops stays_open body out evs w" "\<lambda>s. sender_steps (ck_sender s) + main_steps (ck_main s)"
proof (standard, goal_cases)
  case (1 s)
  then show ?case by (simp add: call_inv_dialled)
next
  case (2 s g s')
  then show ?case using Sender_step Main_step by (cases g) blast+
next
  case (3 s g s')
  from 3(2) show ?case by cases (simp_all add: sender_after_def main_after_def split: option.split)
qed

section \<open>The outcome of a call\<close>

lemma recorded_error:
  assumes "error_ok c (Sent we) (Served re)"
  shows "wc_err c = (if we \<noteq> None \<and> wc_err c = we then we else if re \<noteq> None then re else we)"
  using assms by (auto simp: error_ok_def split: if_splits)

lemma serve_dialled_error:
  assumes "writeToServer b out = (we, out')" and "readFromServer ops evs w = (re, evs', w1)"
    and "wc_err c = (if writerFirst \<and> we \<noteq> None then we else if re \<noteq> None then re else we)" and "wc_w c = w1"
  shows "serve_dialled unavailable writerFirst ops b out evs w = (wc_w (writeErrorIfNecessary unavailable ops c), out')"
proof -
  let ?set = "\<lambda>e c. case e of None \<Rightarrow> c | Some e \<Rightarrow> setError e c"
  let ?c0 = "\<lparr>wc_w = w1, wc_errFlag = 0, wc_err = None\<rparr>"
  let ?c = "if writerFirst then ?set re (?set we ?c0) else ?set we (?set re ?c0)"
  have "wc_w ?c = wc_w c \<and> wc_err ?c = wc_err c"
    unfolding assms(3,4) by (cases we; cases re; cases writerFirst) (simp_all add: setError_def)
  with assms(1,2) writeErrorIfNecessary_cong [of ?c c unavailable ops] show ?thesis
    by (simp add: serve_dialled_def Let_def)
qed

text \<open>
  Claim C4. The two goroutines of a call over a WebSocket refine the sequential \<open>serve_dialled\<close>. In whatever way their
  steps interleave, when the call has been served the client's response and the messages sent are those of
  sending the request and reading the response one after the other, with one of the errors reported first;
  the request that was sent is the whole body, or a part of it that ends with the error of a closed body. The
  sending goroutine has ended, and the close frame that the server gets first carries the sender's error
  if it had one.
\<close>

theorem ws_call_refines:
  assumes "run (call_step unavailable ops stays_open body evs) (dialled out w) ls s" and "ck_main s = Served re"
  shows "\<exists>b writerFirst we. request_read stays_open True body b \<and>
    serve_dialled unavailable writerFirst ops b out evs w = (wc_w (ck_conn s), ck_out s) \<and>
    ck_sender s = Sent we \<and> we = fst (writeToServer b out) \<and>
    hd (ck_closes s) = (case we of Some e \<Rightarrow> (StatusInternalError, Error e) | None \<Rightarrow> (StatusNormalClosure, []))"
proof -
  from call.reachable_inv [OF refl assms(1)] have inv: "call_inv unavailable ops stays_open body out evs w s" .
  then obtain we where we: "ck_sender s = Sent we" and cl: "ck_closes s = closes_of (Sent we) (Served re)"
    using assms(2) by (auto simp: call_inv_def order_ok_def)
  from inv we obtain b where b: "request_read stays_open (ck_bodyClosed s) body b" "writeToServer b out = (we, ck_out s)"
    by (auto simp: call_inv_def sender_ok_def)
  obtain evs' w1 where rd: "readFromServer ops evs w = (re, evs', w1)"
    "wc_w (ck_conn s) = wc_w (writeErrorIfNecessary unavailable ops ((ck_conn s)\<lparr>wc_w := w1\<rparr>))"
    using inv assms(2) by (auto simp: call_inv_def main_ok_def split: prod.splits)
  let ?first = "we \<noteq> None \<and> wc_err (ck_conn s) = we"
  have "error_ok (ck_conn s) (Sent we) (Served re)" using inv we assms(2) by (simp add: call_inv_def)
  from recorded_error [OF this]
  have "serve_dialled unavailable ?first ops b out evs w = (wc_w (ck_conn s), ck_out s)"
    unfolding rd(2) by (intro serve_dialled_error [OF b(2) rd(1)]) (auto split: if_splits)
  moreover have "hd (ck_closes s) = (case we of Some e \<Rightarrow> (StatusInternalError, Error e) | None \<Rightarrow> (StatusNormalClosure, []))"
    unfolding cl by (simp add: closes_of_def split: option.split)
  moreover have "request_read stays_open True body b" using request_read_mono [OF b(1)] by simp
  ultimately show ?thesis using b(2) we by (intro exI [of _ b] exI [of _ ?first] exI [of _ we]) simp
qed

section \<open>Every call ends\<close>

text \<open>
  Only a goroutine that waits for the other cannot move: the main one for the sender to end, and the
  sender for the body to be closed.
\<close>

lemma main_moves:
  assumes "\<forall>r. ck_main s \<noteq> Served r" and "\<forall>r. ck_main s \<noteq> AwaitSender r"
  shows "\<exists>s'. call_step unavailable ops stays_open body evs s Main s'"
  using assms
  by (cases "ck_main s"; cases "readFromServer ops evs (wc_w (ck_conn s))") (blast intro: call_step.intros)+

lemma sender_moves:
  assumes "\<forall>r. ck_sender s \<noteq> Sent r" and "ck_bodyClosed s"
  shows "\<exists>s'. call_step unavailable ops stays_open body evs s Sender s'"
  using assms
  by (cases "ck_sender s"; cases "writeToServer (cut_body 0 0 body) (ck_out s)") (blast intro: call_step.intros)+

lemma halted_served:
  assumes "call_inv unavailable ops stays_open body out evs w s" and "halted (call_step unavailable ops stays_open body evs) s"
  shows "\<exists>re we. ck_main s = Served re \<and> ck_sender s = Sent we"
proof -
  have stuck: "\<not> call_step unavailable ops stays_open body evs s g s'" for g s' using assms(2) by (simp add: halted_def)
  then consider r where "ck_main s = Served r" | r where "ck_main s = AwaitSender r"
    using main_moves [of s unavailable ops stays_open body evs] by blast
  then show ?thesis
  proof cases
    case 1
    then show ?thesis using assms(1) by (auto simp: call_inv_def order_ok_def)
  next
    case (2 r)
    then have "ck_bodyClosed s" using assms(1) by (auto simp: call_inv_def order_ok_def)
    with stuck sender_moves obtain r' where "ck_sender s = Sent r'" by blast
    with 2 stuck main_wait show ?thesis by blast
  qed
qed

text \<open>
  Claim C14. A call over a WebSocket always ends and never leaves a goroutine behind: whatever the interleaving, no
  execution has more than eleven steps (the whole sending of the request being one, and the whole reading
  of the response), and when nothing can happen any more the call has been served and
  the goroutine that sends the request has ended, even if the client does not end its request. This rests
  on closing the request's body before waiting.
\<close>

theorem ws_call_completes:
  assumes "run (call_step unavailable ops stays_open body evs) (dialled out w) ls s"
  shows "length ls \<le> 11 \<and>
    (halted (call_step unavailable ops stays_open body evs) s \<longrightarrow> (\<exists>re we. ck_main s = Served re \<and> ck_sender s = Sent we))"
proof -
  have "length ls \<le> 11" using call.run_bounded [OF assms call_inv_dialled] by (simp add: dialled_def)
  moreover note halted_served [OF call.reachable_inv [OF refl assms]]
  ultimately show ?thesis by blast
qed

section \<open>Instances\<close>

text \<open>A call whose client keeps its request open, on a connection that is lost at once.\<close>

lemma sample_call_halts:
  obtains ls s where "run (call_step 14 plain_ops True [] []) (dialled \<lparr>ws_sent = [], ws_results = []\<rparr> new_httpWriter) ls s"
    and "halted (call_step 14 plain_ops True [] []) s"
  using call.run_to_halt [OF call_inv_dialled] by blast

theorem ws_call_completes_witness:
  "\<exists>ls s re. run (call_step 14 plain_ops True [] []) (dialled \<lparr>ws_sent = [], ws_results = []\<rparr> new_httpWriter) ls s \<and>
     length ls \<le> 11 \<and> ck_main s = Served re"
proof (rule sample_call_halts)
  fix ls s
  assume "run (call_step 14 plain_ops True [] []) (dialled \<lparr>ws_sent = [], ws_results = []\<rparr> new_httpWriter) ls s"
    and "halted (call_step 14 plain_ops True [] []) s"
  with ws_call_completes [of 14 plain_ops True "[]" "[]" _ _ ls s] show ?thesis by blast
qed

theorem ws_call_refines_witness:
  "\<exists>ls s re b writerFirst. run (call_step 14 plain_ops True [] []) (dialled \<lparr>ws_sent = [], ws_results = []\<rparr> new_httpWriter) ls s \<and>
     ck_main s = Served re \<and> (\<exists>k j. b = cut_body k j []) \<and>
     serve_dialled 14 writerFirst plain_ops b \<lparr>ws_sent = [], ws_results = []\<rparr> [] new_httpWriter = (wc_w (ck_conn s), ck_out s)"
proof -
  let ?st = "call_step 14 plain_ops True [] []" and ?s0 = "dialled \<lparr>ws_sent = [], ws_results = []\<rparr> new_httpWriter"
  obtain ls s where h: "run ?st ?s0 ls s" "halted ?st s" by (rule sample_call_halts)
  with halted_served [OF call.reachable_inv [OF refl h(1)] h(2)] obtain re where r: "run ?st ?s0 ls s" "ck_main s = Served re" by blast
  from ws_call_refines [OF r] r show ?thesis unfolding request_read_def by blast
qed

end
