(* ===== verification/WsHandler.thy ===== *)
theory WsHandler
  imports Server Transition
begin

text \<open>
  The two goroutines of \<^verbatim>\<open>handleGRPCWS\<close> (\<^verbatim>\<open>server/server.go\<close>): the handler, in which the gRPC
  server writes its response into an \<^verbatim>\<open>io.Pipe\<close>, and the one that copies frames from the pipe to the
  WebSocket (\<^verbatim>\<open>grpcwebsocket.Write\<close>).

  A pipe has no buffer. A write waits until readers have taken all of its data, an empty one until a reader
  has met it, and a read waits for a write or for the writing end to be closed; so passing data on is one
  step of both. A read takes at most as much as the copying still needs, but its buffer, which is that
  of a growing \<^verbatim>\<open>bytes.Buffer\<close>, may be shorter. Nobody closes the reading end, so that writes do not fail, and
  what the handler writes is the list of chunks that the response writer produces on such a pipe.
\<close>

section \<open>State\<close>

text \<open>
  The copying goroutine: collecting the header of a frame, or its payload (after the header, with the
  announced length), writing a frame to the WebSocket, about to close it because of an error, or at its end.
\<close>

datatype copier_pc =
    CopyHeader bytes
  | CopyPayload bytes nat bytes
  | WriteFrame bytes
  | CloseFailed go_error
  | Copied err

text \<open>The handler: the chunks that it still writes, the first of them perhaps in part, and what follows.\<close>

datatype handler_pc =
    Responding "bytes list"
  | ResponseClosed err
  | AwaitCopier
  | LastClose
  | HandlerDone

record ws_handler =
  wh_main :: handler_pc
  wh_copier :: copier_pc
  wh_out :: ws_out
  wh_closes :: "(close_code \<times> string) list"

definition responding :: "bytes list \<Rightarrow> ws_out \<Rightarrow> ws_handler" where
  "responding chunks out =
     \<lparr>wh_main = Responding chunks, wh_copier = CopyHeader [], wh_out = out, wh_closes = []\<rparr>"

section \<open>The loop of Write, read by read\<close>

text \<open>How many bytes the current copy still needs; what happens when data arrives; and at the end of the stream.\<close>

fun wants :: "copier_pc \<Rightarrow> nat" where
  "wants (CopyHeader b) = MessageHeaderLength - length b"
| "wants (CopyPayload h n b) = n - length b"
| "wants _ = 0"

definition header_copied :: "bytes \<Rightarrow> copier_pc" where
  "header_copied msg =
     (case ParseMessageHeader msg of
        Inl e \<Rightarrow> CloseFailed e
      | Inr (_, len) \<Rightarrow> if unat len = 0 then WriteFrame msg else CopyPayload msg (unat len) [])"

fun received :: "copier_pc \<Rightarrow> bytes \<Rightarrow> copier_pc" where
  "received (CopyHeader b) d = (if length (b @ d) < MessageHeaderLength then CopyHeader (b @ d) else header_copied (b @ d))"
| "received (CopyPayload h n b) d = (if length (b @ d) < n then CopyPayload h n (b @ d) else WriteFrame (h @ b @ d))"
| "received pc _ = pc"

fun ended :: "copier_pc \<Rightarrow> copier_pc" where
  "ended (CopyHeader b) = (if b = [] then Copied None else CloseFailed ErrUnexpectedEOF)"
| "ended (CopyPayload h n b) = CloseFailed ErrUnexpectedEOF"
| "ended pc = pc"

section \<open>Steps\<close>

fun pipe_closed :: "handler_pc \<Rightarrow> bool" where
  "pipe_closed (Responding _) = False"
| "pipe_closed _ = True"

datatype handler_label = Transfer | ByCopier | ByHandler

text \<open>\<open>closeErr\<close> is the result of the response writer's \<^verbatim>\<open>Close\<close>.\<close>

inductive handler_step :: "err \<Rightarrow> ws_handler \<Rightarrow> handler_label \<Rightarrow> ws_handler \<Rightarrow> bool" for closeErr where
  transfer: "wh_main s = Responding (d # ds) \<Longrightarrow> 0 < k \<Longrightarrow> k \<le> wants (wh_copier s) \<Longrightarrow>
    handler_step closeErr s Transfer
      (s\<lparr>wh_main := Responding (if k < length d then drop k d # ds else ds), wh_copier := received (wh_copier s) (take k d)\<rparr>)"
| end_of_stream: "pipe_closed (wh_main s) \<Longrightarrow> 0 < wants (wh_copier s) \<Longrightarrow>
    handler_step closeErr s ByCopier (s\<lparr>wh_copier := ended (wh_copier s)\<rparr>)"
| frame_sent: "wh_copier s = WriteFrame msg \<Longrightarrow> conn_Write msg (wh_out s) = (None, out') \<Longrightarrow>
    handler_step closeErr s ByCopier (s\<lparr>wh_out := out', wh_copier := CopyHeader []\<rparr>)"
| frame_failed: "wh_copier s = WriteFrame msg \<Longrightarrow> conn_Write msg (wh_out s) = (Some e, out') \<Longrightarrow>
    handler_step closeErr s ByCopier (s\<lparr>wh_out := out', wh_copier := CloseFailed e\<rparr>)"
| copier_close: "wh_copier s = CloseFailed e \<Longrightarrow>
    handler_step closeErr s ByCopier
      (s\<lparr>wh_closes := wh_closes s @ [(InternalError, Error e)], wh_copier := Copied (Some e)\<rparr>)"
| response_closed: "wh_main s = Responding [] \<Longrightarrow>
    handler_step closeErr s ByHandler (s\<lparr>wh_main := ResponseClosed closeErr\<rparr>)"
| close_ok: "wh_main s = ResponseClosed None \<Longrightarrow> handler_step closeErr s ByHandler (s\<lparr>wh_main := AwaitCopier\<rparr>)"
| close_failed: "wh_main s = ResponseClosed (Some e) \<Longrightarrow>
    handler_step closeErr s ByHandler
      (s\<lparr>wh_closes := wh_closes s @ [(InternalError, Error e)], wh_main := AwaitCopier\<rparr>)"
| copier_awaited: "wh_main s = AwaitCopier \<Longrightarrow> wh_copier s = Copied r \<Longrightarrow>
    handler_step closeErr s ByHandler (s\<lparr>wh_main := LastClose\<rparr>)"
| handler_close: "wh_main s = LastClose \<Longrightarrow>
    handler_step closeErr s ByHandler
      (s\<lparr>wh_closes := wh_closes s @ [(NormalClosure, [])], wh_main := HandlerDone\<rparr>)"

section \<open>What is left to copy\<close>

text \<open>What the loop returns if it is resumed on what the handler still writes.\<close>

definition frame_written :: "err \<times> ws_out \<Rightarrow> reader \<Rightarrow> err \<times> reader \<times> ws_out" where
  "frame_written res r = (case res of (Some e, out) \<Rightarrow> (Some e, r, out) | (None, out) \<Rightarrow> GrpcWebSocket.Write r out)"

definition payload_read :: "bytes \<Rightarrow> nat \<Rightarrow> bytes \<Rightarrow> err \<times> reader \<Rightarrow> ws_out \<Rightarrow> err \<times> reader \<times> ws_out" where
  "payload_read h n p res out =
     (case res of (e, r) \<Rightarrow>
        if length p = n then frame_written (conn_Write (h @ p) out) r
        else case e of
          None \<Rightarrow> (Some ErrUnexpectedEOF, r, out)
        | Some e \<Rightarrow> (Some (if e = EOF then ErrUnexpectedEOF else e), r, out))"

definition after_header :: "bytes \<Rightarrow> reader \<Rightarrow> ws_out \<Rightarrow> err \<times> reader \<times> ws_out" where
  "after_header h r out =
     (case ParseMessageHeader h of
        Inl e \<Rightarrow> (Some e, r, out)
      | Inr (_, len) \<Rightarrow> (case copy_loop (unat len) r of (p, res) \<Rightarrow> payload_read h (unat len) p res out))"

definition header_read :: "bytes \<Rightarrow> err \<times> reader \<Rightarrow> ws_out \<Rightarrow> err \<times> reader \<times> ws_out" where
  "header_read h res out =
     (case res of (e, r) \<Rightarrow>
        if length h = MessageHeaderLength then after_header h r out
        else case e of
          None \<Rightarrow> (if h = [] then None else Some ErrUnexpectedEOF, r, out)
        | Some e \<Rightarrow> (if e = EOF then if h = [] then None else Some ErrUnexpectedEOF else Some e, r, out))"

fun resume :: "copier_pc \<Rightarrow> reader \<Rightarrow> ws_out \<Rightarrow> err \<times> reader \<times> ws_out" where
  "resume (CopyHeader b) r out =
     (case copy_loop (MessageHeaderLength - length b) r of (d, res) \<Rightarrow> header_read (b @ d) res out)"
| "resume (CopyPayload h n b) r out =
     (case copy_loop (n - length b) r of (d, res) \<Rightarrow> payload_read h n (b @ d) res out)"
| "resume (WriteFrame m) r out = frame_written (conn_Write m out) r"
| "resume (CloseFailed e) r out = (Some e, r, out)"
| "resume (Copied res) r out = (res, r, out)"

lemma copy_loop_bound: "copy_loop n r = (d, e, r') \<Longrightarrow> length d \<le> n"
  using copy_loop_content by blast

lemma resume_start: "resume (CopyHeader []) r out = GrpcWebSocket.Write r out"
proof -
  obtain d e r1 where 1: "copy_loop MessageHeaderLength r = (d, e, r1)" by (cases "copy_loop MessageHeaderLength r") auto
  note b = copy_loop_bound [OF 1]
  show ?thesis
  proof (cases "length d = MessageHeaderLength")
    case False
    with b 1 show ?thesis
      by (auto simp: header_read_def GrpcWebSocket.Write.simps [of r] CopyNFull_def CopyN_def split: option.split)
  next
    case True
    then have "d \<noteq> []" by (auto simp: MessageHeaderLength_def)
    have c: "CopyNFull MessageHeaderLength r = (d, None, r1)" using 1 True by (simp add: CopyNFull_def CopyN_def)
    then obtain flags len where p: "ParseMessageHeader d = Inr (flags, len)" by (rule CopyNFull_parse)
    obtain d2 e2 r2 where 2: "copy_loop (unat len) r1 = (d2, e2, r2)" by (cases "copy_loop (unat len) r1") auto
    from c p 1 2 True copy_loop_bound [OF 2] show ?thesis
      by (auto simp: GrpcWebSocket.Write.simps [of r] header_read_def after_header_def payload_read_def frame_written_def
          CopyN_def split: option.split prod.split)
  qed
qed

text \<open>A copy can be interrupted after any number of bytes.\<close>

lemma copy_loop_chunk: "0 < n \<Longrightarrow> length d \<le> n \<Longrightarrow>
    copy_loop n ((d, None) # r) = (case copy_loop (n - length d) r of (d', res) \<Rightarrow> (d @ d', res))"
  by (simp add: copy_loop.simps [of n] split: prod.split)

lemma copy_loop_split:
  assumes "0 < k" and "k \<le> n" and "k < length d"
  shows "copy_loop n ((d, None) # r) = (case copy_loop (n - k) ((drop k d, None) # r) of (d', res) \<Rightarrow> (take k d @ d', res))"
proof (cases "length d \<le> n")
  case True
  then have "0 < n - k" using assms by simp
  with True assms show ?thesis
    by (simp add: copy_loop_chunk split: prod.split)
next
  case False
  then have "copy_loop n ((d, None) # r) = (take n d, None, (drop n d, None) # r)"
    using assms by (simp add: copy_loop.simps [of n]) (simp add: copy_loop.simps)
  moreover have "copy_loop (n - k) ((drop k d, None) # r) = (take (n - k) (drop k d), None, (drop n d, None) # r)"
    using assms False by (cases "n = k") (simp_all add: copy_loop.simps [of "n - k"] copy_loop.simps [of 0])
  moreover have "take n d = take k d @ take (n - k) (drop k d)"
    using assms(2) take_add [of k "n - k" d] by simp
  ultimately show ?thesis by simp
qed

text \<open>The copying is in a consistent state: what it is collecting is incomplete.\<close>

fun copier_ok :: "copier_pc \<Rightarrow> bool" where
  "copier_ok (CopyHeader b) = (length b < MessageHeaderLength)"
| "copier_ok (CopyPayload h n b) = (length b < n)"
| "copier_ok _ = True"

lemma header_copied_ok: "copier_ok (header_copied h)"
  by (auto simp: header_copied_def split: sum.split)

lemma resume_header_copied: "resume (header_copied h) r out = after_header h r out"
  by (auto simp: header_copied_def after_header_def payload_read_def copy_loop.simps [of 0] split: sum.split)

lemma received_ok: "copier_ok c \<Longrightarrow> copier_ok (received c d)"
  by (cases c) (simp_all add: header_copied_ok)

text \<open>Data that arrives is data that the copy would have read.\<close>

lemma resume_received:
  assumes "copier_ok c" and "length d \<le> wants c" and "0 < wants c"
    and "copy_loop (wants c) r = (case copy_loop (wants c - length d) r' of (d', res) \<Rightarrow> (d @ d', res))"
  shows "resume (received c d) r' out = resume c r out"
proof (cases c)
  case (CopyHeader b)
  show ?thesis
  proof (cases "length (b @ d) < MessageHeaderLength")
    case True
    with CopyHeader assms(4) show ?thesis by (simp add: add.commute split: prod.split)
  next
    case False
    then have "length (b @ d) = MessageHeaderLength" using CopyHeader assms(1,2) by simp
    with CopyHeader assms(4) show ?thesis
      by (simp add: resume_header_copied header_read_def copy_loop.simps [of 0])
  qed
next
  case (CopyPayload h n b)
  show ?thesis
  proof (cases "length (b @ d) < n")
    case True
    with CopyPayload assms(4) show ?thesis by (simp add: add.commute split: prod.split)
  next
    case False
    then have "length (b @ d) = n" using CopyPayload assms(1,2) by simp
    with CopyPayload assms(4) show ?thesis
      by (simp add: payload_read_def copy_loop.simps [of 0])
  qed
qed (use assms(3) in simp_all)

section \<open>Invariant\<close>

text \<open>What the handler still writes, as the copying goroutine will read it.\<close>

fun to_come :: "handler_pc \<Rightarrow> reader" where
  "to_come (Responding ds) = map (\<lambda>d. (d, None)) ds @ [([], Some EOF)]"
| "to_come _ = [([], Some EOF)]"

text \<open>The outcome: the error, whether the handler is left waiting with a write, and the messages sent.\<close>

definition outcome :: "err \<times> reader \<times> ws_out \<Rightarrow> err \<times> bool \<times> ws_out" where
  "outcome res = (case res of (e, r, out) \<Rightarrow> (e, unread r, out))"

lemma copy_loop_EOF: "0 < n \<Longrightarrow> copy_loop n [([], Some EOF)] = ([], None, [])"
  by (simp add: copy_loop.simps [of n])

lemma resume_ended:
  assumes "copier_ok c" and "0 < wants c"
  shows "outcome (resume (ended c) [([], Some EOF)] out) = outcome (resume c [([], Some EOF)] out)"
  using assms by (cases c) (simp_all add: copy_loop_EOF header_read_def payload_read_def outcome_def unread_def)

lemma resume_transfer:
  assumes "copier_ok c" and "0 < k" and "k \<le> wants c"
  shows "resume (received c (take k d)) (if k < length d then (drop k d, None) # r else r) out = resume c ((d, None) # r) out"
proof (rule resume_received [OF assms(1)])
  show "copy_loop (wants c) ((d, None) # r) =
      (case copy_loop (wants c - length (take k d)) (if k < length d then (drop k d, None) # r else r) of
        (d', res) \<Rightarrow> (take k d @ d', res))"
  proof (cases "k < length d")
    case True
    with copy_loop_split [OF assms(2,3) this] show ?thesis by simp
  next
    case False
    with copy_loop_chunk [of "wants c" d r] assms(2,3) show ?thesis by simp
  qed
qed (use assms in simp_all)

text \<open>
  The invariant: resuming the copying always gives the outcome \<open>oc\<close> of the whole, and the WebSocket has been closed as
  far as the goroutines have got.
\<close>

definition closes_so_far :: "copier_pc \<Rightarrow> handler_pc \<Rightarrow> (close_code \<times> string) list" where
  "closes_so_far c m =
     (case c of Copied (Some e) \<Rightarrow> [(InternalError, Error e)] | _ \<Rightarrow> []) @
     (if m = HandlerDone then [(NormalClosure, [])] else [])"

definition handler_inv :: "err \<times> bool \<times> ws_out \<Rightarrow> ws_handler \<Rightarrow> bool" where
  "handler_inv oc s \<longleftrightarrow>
     copier_ok (wh_copier s) \<and> outcome (resume (wh_copier s) (to_come (wh_main s)) (wh_out s)) = oc \<and>
     wh_closes s = closes_so_far (wh_copier s) (wh_main s) \<and> (\<forall>e. wh_main s \<noteq> ResponseClosed (Some e)) \<and>
     (wh_main s \<in> {LastClose, HandlerDone} \<longrightarrow> (\<exists>r. wh_copier s = Copied r)) \<and>
     (wh_copier s = Copied None \<longrightarrow> pipe_closed (wh_main s))"

lemma handler_inv_start: "handler_inv (outcome (GrpcWebSocket.Write (to_come (Responding chunks)) out)) (responding chunks out)"
  by (simp add: handler_inv_def responding_def closes_so_far_def resume_start MessageHeaderLength_def del: resume.simps)

lemma to_come_closed: "pipe_closed m \<Longrightarrow> to_come m = [([], Some EOF)]"
  by (cases m) simp_all

lemma wants_not_Copied: "0 < wants c \<Longrightarrow> c \<noteq> Copied r"
  by auto

lemma not_Copied_closes: "\<forall>r. c \<noteq> Copied r \<Longrightarrow> closes_so_far c m = (if m = HandlerDone then [(NormalClosure, [])] else [])"
  by (cases c) (simp_all add: closes_so_far_def)

lemma handler_inv_step:
  assumes "handler_inv oc s" and "handler_step None s l s'"
  shows "handler_inv oc s'"
  using assms(2)
proof cases
  case (transfer d ds k)
  have "resume (received (wh_copier s) (take k d)) (to_come (Responding (if k < length d then drop k d # ds else ds))) (wh_out s) =
      resume (wh_copier s) (to_come (Responding (d # ds))) (wh_out s)"
    using resume_transfer [OF _ transfer(4,5), of d "to_come (Responding ds)" "wh_out s"] assms(1)
    by (cases "k < length d") (simp_all add: handler_inv_def)
  moreover have "\<forall>r. received (wh_copier s) (take k d) \<noteq> Copied r"
    using transfer(4,5) by (cases "wh_copier s") (auto simp: header_copied_def split: sum.split)
  moreover have "\<forall>r. wh_copier s \<noteq> Copied r" using transfer(4,5) by auto
  ultimately show ?thesis
    using assms(1) transfer received_ok by (simp add: handler_inv_def not_Copied_closes)
next
  case end_of_stream
  then have "\<forall>r. wh_copier s \<noteq> Copied r" "ended (wh_copier s) = Copied r \<Longrightarrow> r = None" for r
    by (cases "wh_copier s"; simp split: if_splits)+
  moreover have "copier_ok (ended (wh_copier s))" using end_of_stream(4) by (cases "wh_copier s") simp_all
  ultimately show ?thesis
    using assms(1) end_of_stream resume_ended [of "wh_copier s" "wh_out s"] to_come_closed [OF end_of_stream(3)]
    by (auto simp: handler_inv_def closes_so_far_def split: copier_pc.splits option.splits)
next
  case (frame_sent msg out')
  then show ?thesis
    using assms(1) resume_start [of "to_come (wh_main s)" out']
    by (auto simp: handler_inv_def closes_so_far_def frame_written_def MessageHeaderLength_def simp del: resume.simps(1))
next
  case (frame_failed msg e out')
  then show ?thesis
    using assms(1) by (auto simp: handler_inv_def closes_so_far_def frame_written_def)
next
  case (copier_close e)
  then show ?thesis
    using assms(1) by (auto simp: handler_inv_def closes_so_far_def)
next
  case response_closed
  then show ?thesis
    using assms(1) by (auto simp: handler_inv_def closes_so_far_def)
next
  case close_ok
  then show ?thesis
    using assms(1) by (auto simp: handler_inv_def closes_so_far_def)
next
  case (close_failed e)
  then show ?thesis
    using assms(1) by (auto simp: handler_inv_def)
next
  case (copier_awaited r)
  then show ?thesis
    using assms(1) by (auto simp: handler_inv_def closes_so_far_def)
next
  case handler_close
  then show ?thesis
    using assms(1) by (auto simp: handler_inv_def closes_so_far_def)
qed

text \<open>
  The potential: four steps for every byte and every chunk that is still to be written, since a byte can
  complete a frame, and what the goroutines have left to do otherwise.
\<close>

fun copier_steps :: "copier_pc \<Rightarrow> nat" where
  "copier_steps (CopyHeader _) = 3"
| "copier_steps (CopyPayload _ _ _) = 3"
| "copier_steps (WriteFrame _) = 6"
| "copier_steps (CloseFailed _) = 1"
| "copier_steps (Copied _) = 0"

fun handler_steps :: "handler_pc \<Rightarrow> nat" where
  "handler_steps (Responding ds) = 4 * (length (concat ds) + length ds) + 4"
| "handler_steps (ResponseClosed _) = 3"
| "handler_steps AwaitCopier = 2"
| "handler_steps LastClose = 1"
| "handler_steps HandlerDone = 0"

lemma received_steps: "0 < wants c \<Longrightarrow> copier_steps (received c d) \<le> copier_steps c + 3"
  by (cases c) (auto simp: header_copied_def split: sum.split)

lemma ended_steps: "0 < wants c \<Longrightarrow> copier_steps (ended c) < copier_steps c"
  by (cases c) auto

interpretation handler: terminating "\<lambda>s. s = responding chunks out" "handler_step None"
  "handler_inv (outcome (GrpcWebSocket.Write (to_come (Responding chunks)) out))"
  "\<lambda>s. copier_steps (wh_copier s) + handler_steps (wh_main s)"
proof (standard, goal_cases)
  case (1 s)
  then show ?case by (simp only: handler_inv_start)
next
  case (2 s l s')
  then show ?case by (rule handler_inv_step)
next
  case (3 s l s')
  from 3(2) show ?case
  proof cases
    case (transfer d ds k)
    then show ?thesis using received_steps [of "wh_copier s" "take k d"] by (cases "k < length d") simp_all
  next
    case end_of_stream
    then show ?thesis using ended_steps by simp
  qed simp_all
qed

section \<open>The handler's outcome\<close>

text \<open>
  A goroutine that cannot move waits for the other: the handler with a write that is not read, or at the end,
  and the copying for a write, or for the end of the response, to come.
\<close>

lemma copier_moves:
  assumes "\<forall>r. wh_copier s \<noteq> Copied r" and "wh_main s \<noteq> Responding []" and "copier_ok (wh_copier s)"
  shows "\<exists>l s'. handler_step closeErr s l s'"
proof -
  have reads: ?thesis if "0 < wants (wh_copier s)"
  proof (cases "pipe_closed (wh_main s)")
    case True
    then show ?thesis using end_of_stream that by blast
  next
    case False
    then obtain d ds where "wh_main s = Responding (d # ds)"
      using assms(2) by (cases "wh_main s") (auto simp: neq_Nil_conv)
    then show ?thesis using transfer that by blast
  qed
  show ?thesis
  proof (cases "wh_copier s")
    case (WriteFrame m)
    obtain r out' where "conn_Write m (wh_out s) = (r, out')" by (cases "conn_Write m (wh_out s)")
    with WriteFrame show ?thesis by (cases r) (blast intro: frame_sent frame_failed)+
  next
    case (CloseFailed e)
    then show ?thesis by (blast intro: copier_close)
  qed (use assms reads in simp_all)
qed

lemma handler_halted:
  assumes "handler_inv oc s" and "halted (handler_step closeErr) s"
  obtains r where "wh_main s = HandlerDone" and "wh_copier s = Copied r"
    | d ds e where "wh_main s = Responding (d # ds)" and "wh_copier s = Copied (Some e)"
proof -
  have stuck: "\<not> handler_step closeErr s l s'" for l s' using assms(2) by (simp add: halted_def)
  then have "wh_main s \<noteq> Responding []" using response_closed by blast
  with copier_moves [of s closeErr] stuck assms(1) obtain r where r: "wh_copier s = Copied r"
    unfolding handler_inv_def by blast
  show ?thesis
  proof (cases "wh_main s")
    case (Responding ds)
    with r \<open>wh_main s \<noteq> Responding []\<close> assms(1) that(2) show ?thesis
      by (cases ds; cases r) (auto simp: handler_inv_def)
  next
    case (ResponseClosed r')
    then show ?thesis using stuck close_ok close_failed by (cases r') blast+
  next
    case AwaitCopier
    then show ?thesis using stuck copier_awaited r by blast
  next
    case LastClose
    then show ?thesis using stuck handler_close by blast
  qed (use r that(1) in blast)
qed

lemma Close_on_pipe:
  obtains rw where "Close ks (ww_handle ops (newWebSocketResponseWriter [])) = (None, rw)"
    and "pipe_reader (ww_writer rw) = to_come (Responding (pw_chunks (ww_writer rw)))"
proof -
  have "pw_healthy (ww_writer (ww_handle ops (newWebSocketResponseWriter [])))"
    using ww_handle_bytes [of "newWebSocketResponseWriter []" ops] by simp
  then obtain rw where rw: "Close ks (ww_handle ops (newWebSocketResponseWriter [])) = (None, rw)" "pw_closed (ww_writer rw)"
    using Close_healthy by blast
  then have "pipe_reader (ww_writer rw) = to_come (Responding (pw_chunks (ww_writer rw)))" by (simp add: pipe_reader_def)
  with rw(1) show ?thesis by (rule that)
qed

text \<open>
  Claim C5. The two goroutines of a call over a WebSocket refine the sequential \<open>handleGRPCWS\<close>. In whatever way their steps
  interleave, and however the pipe's data is cut into reads: when nothing can happen any more, either the
  handler has returned, with the messages that the sequential definition sends and the close frame that it sends
  first, or the definition says that it blocks, and the handler waits for ever with a write that nobody
  reads while the copying goroutine has ended with an error.
\<close>

theorem ws_handler_refines:
  assumes "accept req w = (w', Inr (conn, out))"
    and "rw0 = ww_handle (map ww_of (serve (grpc_request conn req))) (newWebSocketResponseWriter [])"
    and "Close (order (ws_Header rw0)) rw0 = (closeErr, rw)"
    and "run (handler_step closeErr) (responding (pw_chunks (ww_writer rw)) out) ls s" and "halted (handler_step closeErr) s"
  shows "case handleGRPCWS serve order accept req w of
      OverWebSocket out' status reason \<Rightarrow> wh_main s = HandlerDone \<and> wh_out s = out' \<and> hd (wh_closes s) = (status, reason)
    | Blocked out' \<Rightarrow> wh_out s = out' \<and> (\<exists>d ds e. wh_main s = Responding (d # ds) \<and> wh_copier s = Copied (Some e))
    | Responded _ \<Rightarrow> False"
proof -
  let ?chunks = "pw_chunks (ww_writer rw)"
  have cl: "closeErr = None" and p: "pipe_reader (ww_writer rw) = to_come (Responding ?chunks)"
    using Close_on_pipe [of "order (ws_Header rw0)" "map ww_of (serve (grpc_request conn req))"] assms(2,3) by auto
  obtain we rest out' where wr: "GrpcWebSocket.Write (pipe_reader (ww_writer rw)) out = (we, rest, out')"
    by (cases "GrpcWebSocket.Write (pipe_reader (ww_writer rw)) out") auto
  have eq: "handleGRPCWS serve order accept req w =
      (if unread rest then Blocked out'
       else case we of Some e \<Rightarrow> OverWebSocket out' InternalError (Error e) | None \<Rightarrow> OverWebSocket out' NormalClosure [])"
    using assms(1-3) cl wr by (simp add: handleGRPCWS_def Let_def split: option.split)
  from handler.reachable_inv [OF refl assms(4) [unfolded cl]]
  have inv: "handler_inv (we, unread rest, out') s" using wr p by (simp add: outcome_def del: to_come.simps)
  from inv assms(5) show ?thesis
  proof (cases rule: handler_halted)
    case (1 r)
    with inv have "we = r" "\<not> unread rest" "wh_out s = out'" "wh_closes s = closes_so_far (Copied r) HandlerDone"
      by (auto simp: handler_inv_def outcome_def unread_def)
    with 1 eq show ?thesis by (cases r) (simp_all add: closes_so_far_def)
  next
    case (2 d ds e)
    with inv have "unread rest" "wh_out s = out'" by (auto simp: handler_inv_def outcome_def unread_def)
    with 2 eq show ?thesis by simp
  qed
qed

text \<open>
  Claim C15. Every execution of the two goroutines is finite: it has at most four steps for every byte and every write
  of the response, and seven more. It can always be continued until the handler has returned or is blocked
  for good.
\<close>

theorem ws_handler_terminates:
  assumes "run (handler_step None) (responding chunks out) ls s"
  shows "length ls \<le> 4 * (length (concat chunks) + length chunks) + 7 \<and>
    (\<exists>ls' s'. run (handler_step None) s ls' s' \<and> halted (handler_step None) s')"
  using handler.run_bounded [OF assms handler_inv_start] handler.run_to_halt [OF handler.reachable_inv [OF refl assms]]
  by (simp add: responding_def)

section \<open>Instances\<close>

theorem ws_handler_refines_witness:
  "\<exists>rw ls s. Close (map fst (ws_Header (ww_handle [WsWriteHeader 200] (newWebSocketResponseWriter []))))
       (ww_handle [WsWriteHeader 200] (newWebSocketResponseWriter [])) = (None, rw) \<and>
     run (handler_step None) (responding (pw_chunks (ww_writer rw)) no_failures) ls s \<and> halted (handler_step None) s \<and>
     (case handleGRPCWS (\<lambda>_. [OpWriteHeader 200]) (map fst) (sample_accept []) (sample_request []) new_httpWriter of
        OverWebSocket out' status reason \<Rightarrow> wh_main s = HandlerDone \<and> wh_out s = out' \<and> hd (wh_closes s) = (status, reason)
      | Blocked out' \<Rightarrow> wh_out s = out' \<and> (\<exists>d ds e. wh_main s = Responding (d # ds) \<and> wh_copier s = Copied (Some e))
      | Responded _ \<Rightarrow> False)"
proof -
  let ?rw0 = "ww_handle [WsWriteHeader 200] (newWebSocketResponseWriter [])"
  obtain rw where rw: "Close (map fst (ws_Header ?rw0)) ?rw0 = (None, rw)" by (rule Close_on_pipe)
  obtain ls s where r: "run (handler_step None) (responding (pw_chunks (ww_writer rw)) no_failures) ls s" "halted (handler_step None) s"
    using handler.run_to_halt [OF handler_inv_start] by blast
  have a: "sample_accept [] (sample_request []) new_httpWriter = (new_httpWriter, Inr ([], no_failures))"
    by (simp add: no_failures_def)
  have o: "?rw0 = ww_handle (map ww_of [OpWriteHeader 200]) (newWebSocketResponseWriter [])" by simp
  from ws_handler_refines [where serve = "\<lambda>_. [OpWriteHeader 200]" and order = "map fst" and accept = "sample_accept []"
      and req = "sample_request []" and w = new_httpWriter, OF a o rw r] rw r
  show ?thesis by blast
qed

theorem ws_handler_terminates_witness:
  "\<exists>ls s. run (handler_step None) (responding [[0, 0], []] no_failures) ls s \<and> halted (handler_step None) s \<and> length ls \<le> 23"
proof -
  obtain ls s where r: "run (handler_step None) (responding [[0, 0], []] no_failures) ls s" "halted (handler_step None) s"
    using ws_handler_terminates [OF run_Nil [of "handler_step None" "responding [[0, 0], []] no_failures"]] by auto
  moreover from ws_handler_terminates [OF r(1)] have "length ls \<le> 23" by simp
  ultimately show ?thesis by blast
qed

end
