(* ===== verification/Spec2Isabelle.thy ===== *)
theory Spec2Isabelle
  imports EndToEnd SideChannel CountingReader ProxyServer EchoService WsCall WsHandler
begin

text \<open>
  A verification of \<^verbatim>\<open>golang.stackrox.io/grpc-http1\<close>, which carries gRPC calls through networks
  that only pass HTTP/1.

  \<^bold>\<open>The program.\<close> A gRPC client calls \<^verbatim>\<open>ConnectViaProxy\<close> (\<^verbatim>\<open>client/proxy.go\<close>). This starts
  a proxy in the client's own process, to which the gRPC library connects over in-memory pipes
  (\<^verbatim>\<open>internal/pipeconn\<close>), while the TLS information of the remote end is obtained by a connection
  of its own (\<^verbatim>\<open>client/side_channel_creds.go\<close>). The proxy has two forms. One is the standard
  library's reverse proxy: it offers the server to answer in gRPC-Web, and turns a gRPC-Web response back
  into a gRPC response with a reader that splits off the trailers
  (\<^verbatim>\<open>internal/grpcweb/response_reader.go\<close>). The other opens one WebSocket per call and sends
  every gRPC frame as a message (\<^verbatim>\<open>client/ws_proxy.go\<close>, \<^verbatim>\<open>internal/grpcwebsocket\<close>). On the other
  side, \<^verbatim>\<open>CreateDowngradingHandler\<close> (\<^verbatim>\<open>server/server.go\<close>) stands before a gRPC server. It passes
  plain HTTP requests on, answers gRPC natively if the client can take trailers, downgrades the response
  to gRPC-Web otherwise (\<^verbatim>\<open>internal/grpcweb/response_writer.go\<close>), and serves calls over WebSockets
  (\<^verbatim>\<open>server/websocket_reader.go\<close>, \<^verbatim>\<open>server/websocket_writer.go\<close>).

  \<^bold>\<open>The library of Go.\<close>
  \<^item> \<open>Prelude\<close>: bytes, named collections, generic lemmas. \<open>Transition\<close>: traces of a step relation, reachability
    within a number of steps, the locales \<open>invariant\<close> and, extending it, \<open>streaming\<close> and
    \<open>terminating\<close>, for systems with a potential that every step uses up.
  \<^item> \<open>GoIO\<close>: readers as scripts of answers (data and error, in any pieces), \<^verbatim>\<open>io.ReadFull\<close>,
    \<^verbatim>\<open>io.CopyN\<close>, multi-readers, limited readers, pipes; the locale \<open>byte_source\<close>.
  \<^item> \<open>HttpHeader\<close>: header maps with canonical keys, \<^verbatim>\<open>Header.Write\<close> and the MIME header parser;
    the locale \<open>header_map\<close>.
  \<^item> \<open>HttpWriter\<close>: response writers of the HTTP server. The locale \<open>response_writer\<close> in
    \<open>WsProxy\<close> says what the client's proxies rely on; it is interpreted for the plain writer and for
    that of \<^verbatim>\<open>client/non_buffering_writer.go\<close>.
  \<^item> \<open>GoStrings\<close>, \<open>HttpRequest\<close>: runes, \<^verbatim>\<open>EqualFold\<close>, \<^verbatim>\<open>FieldsFunc\<close>, \<^verbatim>\<open>Split\<close>, requests,
    \<^verbatim>\<open>http.Error\<close>.
  \<^item> \<open>ReverseProxy\<close>: the standard library's \<^verbatim>\<open>httputil.ReverseProxy\<close> as far as the client uses
    it: hop-by-hop headers, the copying of a response and its trailers. The copying loop is a partial
    function with values in \<open>option\<close>, so that not returning is a value.

  \<^bold>\<open>The components.\<close>
  \<^item> \<open>Utils\<close>, \<open>GrpcProto\<close>, \<open>GrpcMessage\<close>, \<open>CountingReader\<close>: \<^verbatim>\<open>internal/stringutils\<close>,
    \<^verbatim>\<open>sliceutils\<close>, \<^verbatim>\<open>size\<close>, \<^verbatim>\<open>ioutils\<close>; frame headers and their validation; the percent encoding
    of status messages. Shown: frames are parsed in one way only, headers and messages survive the round
    trip, the validation accepts exactly the well-formed frames.
  \<^item> \<open>GrpcWebReader\<close>, \<open>WebResponse\<close>: the gRPC-Web response reader, one definition per method. Its state
    is a record with the fields of the struct; the decompressor is a field, as in the code. Shown: a response
    is delivered byte for byte with its trailers, for every cutting and all buffers; the end is not
    reported early; the run-wise scan agrees with a byte-wise automaton; counters and slices keep to
    their types in every state.
  \<^item> \<open>GrpcWebWriter\<close>, \<open>WebRoundTrip\<close>: the response writer. The order in which Go iterates over a map
    is an argument, and the theorems hold for every order. \<^verbatim>\<open>Finalize\<close> aliases two headers in one
    branch, so the model has a store with addresses for them. Shown: what a handler writes is what the
    reader delivers, and the headers sent are those of the handler's first write, with the content type of
    gRPC-Web.
  \<^item> \<open>GrpcWebSocket\<close>, \<open>WsWriter\<close>, \<open>WsProxy\<close>, \<open>WsRoundTrip\<close>: the frames on the WebSocket, the
    server's writer and the client's proxy, and the round trips of requests and responses.
  \<^item> \<open>WsCall\<close>: the two goroutines of a call in the client's proxy, with every access to what they share
    as a step. Shown: each interleaving ends like the sequential definition, and each call ends within
    eleven steps, even if the client keeps its request open.
  \<^item> \<open>WsHandler\<close>: the two goroutines of a call on the server, which meet in an unbuffered pipe, with the
    copying of frames resumed read by read. Shown: every execution is finite, and ends like the sequential
    definition of \<open>Server\<close>, blocked if that says so.
  \<^item> \<open>WsReader\<close>: the server's reader as a step relation of two goroutines that share
    channels. Shown: mutual exclusion, progress, and refinement of the plain stream of bytes.
  \<^item> \<open>Concurrency\<close>, \<open>PipeConn\<close>: signals with atomic pointers and channels, and the pipe listener,
    as step relations for any number of goroutines. The two ends of a pipe are told apart, and a trace
    says which call made it. Shown: a dialling and an accepting call that meet get the opposite ends of the
    pipe that the first has made, and nobody else gets them.
  \<^item> \<open>ProxyServer\<close>: the life of the client's proxy server, from \<^verbatim>\<open>makeProxyServer\<close> over
    \<^verbatim>\<open>dialGRPCServer\<close> to \<^verbatim>\<open>closeServerOnConnShutdown\<close>, as steps of the serving goroutine and of
    the one that watches the connection, on top of those of the pipe listener. Shown: no interleaving makes
    either of them log a warning, and after the connection is gone at most eight steps end both and
    close the listener.
  \<^item> \<open>EchoService\<close>: the service of the integration tests. The gRPC library is a log of what it is asked
    to do, with a script of results. Shown: what is sent for every text, that the streaming methods agree,
    and that the replies to a text, streamed back, are answered by the text without its commands.
  \<^item> \<open>HttpUtils\<close>, \<open>Client\<close>, \<open>SideChannel\<close>: error responses, the client's options, proxies and
    credentials.
  \<^item> \<open>Server\<close>: the handler. The negotiation is stated on its own, as the choice of the first kind of
    response in the server's order of preference that is possible for the request, and shown to be what
    the handler does.
  \<^item> \<open>EndToEnd\<close>: client and server together: what the client asks for is what the server decides, and
    what a handler of the gRPC server writes is what the gRPC client gets, in gRPC-Web and over a
    WebSocket, where the same call's request reaches the handler as it was sent. The transport in
    between is assumed to deliver what the server's writer has sent (\<open>carries\<close>), in any pieces.

  \<^bold>\<open>Parameters.\<close> The gRPC library, the WebSocket library, the HTTP transports and TLS are not part of
  the repository. They are arguments of the definitions: the gRPC server is the list of things that it
  does with its response writer, the transport a function from requests to responses, a WebSocket the
  messages that arrive and the results of sending. Theorems about a working connection say so in their
  hypotheses, and have an instance.

  \<^bold>\<open>Bounds and termination.\<close> No model has fuel. Loops are structural or have a measure, mostly the
  length of the script that is left to read; the one loop that can run for ever, the copying of a response,
  is partial. The goroutines of calls over WebSockets have a potential that bounds their executions.
  Frame lengths are 32-bit words; the theorems about trailers assume a text shorter than
  \<^verbatim>\<open>2^32\<close>, which the frame header cannot exceed. The read limits of WebSocket messages are
  enforced by the library and are part of what arrives.

  \<^bold>\<open>What the model shows to be wrong.\<close> \<open>open_trailers_hang\<close>: a trailers frame without a final line break, received in one piece, makes
  the proxy loop for ever. \<open>unannounced_trailers_lost\<close>: trailers of a response with a body are lost
  unless one was announced. \<open>transport_error_overwrites_status\<close>: a late transport error replaces a
  status that had arrived. \<open>ws_failure_blocks\<close>: the server's handler blocks for ever if the WebSocket
  fails. \<open>connection_list_refused\<close>: an upgrade request that lists several connection options is refused.
  \<open>refused_tunnel_leaks\<close>, \<open>ipv6_proxy_unreachable\<close>: a tunnel that is refused leaks its connection, and
  IPv6 proxies without a port cannot be used. \<open>adaptive_downgrade\<close>: the option \<^verbatim>\<open>PreferGRPCWeb\<close> has no
  effect on methods that stream from the client, although its comment says that it always has.

  \<^bold>\<open>Not modelled.\<close> Logging; the TLS handshake and ALPN; contexts and deadlines, except where a wait is
  ended by one; protocol upgrades, 1xx responses and forwarding headers of the reverse proxy, which do
  not occur with HTTP/2 over pipes; the connections that \<^verbatim>\<open>http.Server\<close> has accepted, which belong to
  the standard library; and \<^verbatim>\<open>tools/imports.go\<close>, which only pins the versions of build tools.
\<close>

end
